(* ===== verification/Prelude.thy ===== *)
theory Prelude
  imports Main "HOL-Library.Word" "HOL-Library.List_Lexorder" "HOL-Library.Char_ord"
begin

text \<open>
  The vocabulary every component shares: the ways C++ code can fail, the widths of the integer
  types, the parts of the C++ standard library the sources call on strings and containers
  (\<open>std::find\<close>, \<open>std::string::find\<close>, \<open>std::to_string\<close>, \<open>std::stoi\<close>, \<open>isspace\<close>, \<open>std::map\<close>),
  and the generic lemmas about them. Strings are byte strings (lists of \<^typ>\<open>char\<close>), as
  \<open>std::string\<close> is. The collection \<open>cxx_str\<close> holds the rewrite rules for searching in strings
  that are built by concatenation, and \<open>cxx_res\<close> those for results that may fail.
\<close>

named_theorems cxx_str
named_theorems cxx_res

section \<open>Failure\<close>

text \<open>
  A failed \<open>assert\<close> ends the process; reading outside an array or through a null pointer is
  undefined; an exception unwinds to the nearest handler, which may read its \<open>what()\<close> text.
\<close>

datatype std_exn =
    Invalid_Argument string
  | Out_Of_Range string
  | Runtime_Error string

fun what :: "std_exn \<Rightarrow> string" where
  "what (Invalid_Argument s) = s"
| "what (Out_Of_Range s) = s"
| "what (Runtime_Error s) = s"

datatype fault =
    Assertion_Failure
  | Undefined_Behaviour
  | Exception std_exn

type_synonym 'a res = "fault + 'a"

type_synonym u8 = "8 word"
type_synonym u32 = "32 word"
type_synonym u64 = "64 word"

text \<open>Sequencing of fallible steps.\<close>

definition bind_res :: "'a res \<Rightarrow> ('a \<Rightarrow> 'b res) \<Rightarrow> 'b res" where
  "bind_res m f = (case m of Inl e \<Rightarrow> Inl e | Inr x \<Rightarrow> f x)"

lemma bind_res_simps [simp, cxx_res]:
  "bind_res (Inl e) f = Inl e"
  "bind_res (Inr x) f = f x"
  by (simp_all add: bind_res_def)

lemma bind_res_Inr_iff [cxx_res]:
  "bind_res m f = Inr y \<longleftrightarrow> (\<exists>x. m = Inr x \<and> f x = Inr y)"
  by (cases m) auto

definition assert_res :: "bool \<Rightarrow> unit res" where
  "assert_res P = (if P then Inr () else Inl Assertion_Failure)"

lemma assert_res_simps [simp, cxx_res]:
  "P \<Longrightarrow> assert_res P = Inr ()"
  "\<not> P \<Longrightarrow> assert_res P = Inl Assertion_Failure"
  by (simp_all add: assert_res_def)

section \<open>Sizes\<close>

text \<open>
  \<open>size_t\<close> subtraction: exact when it does not go below zero, otherwise the wrapped value.
  Sums of sizes stay far below the wrap (an object never fills the address space), so they are
  written with \<open>+\<close>.
\<close>

definition size_sub :: "nat \<Rightarrow> nat \<Rightarrow> nat" where
  "size_sub a b = (if b \<le> a then a - b else 2 ^ 64 + a - b)"

lemma size_sub_le [simp]: "b \<le> a \<Longrightarrow> size_sub a b = a - b"
  by (simp add: size_sub_def)

section \<open>Characters\<close>

definition chr_cr :: char where
  "chr_cr = CHR 0x0D"

definition chr_lf :: char where
  "chr_lf = CHR 0x0A"

abbreviation crlf :: string where
  "crlf \<equiv> [CHR 0x0D, CHR 0x0A]"

text \<open>\<open>isspace\<close> in the C locale: space, tab, line feed, vertical tab, form feed, return.\<close>

definition c_isspace :: "char \<Rightarrow> bool" where
  "c_isspace c \<longleftrightarrow> c = CHR 0x20 \<or> c = CHR 0x09 \<or> c = CHR 0x0A \<or> c = CHR 0x0B
                  \<or> c = CHR 0x0C \<or> c = CHR 0x0D"

definition c_isdigit :: "char \<Rightarrow> bool" where
  "c_isdigit c \<longleftrightarrow> 48 \<le> (of_char c :: nat) \<and> (of_char c :: nat) \<le> 57"

definition digit_val :: "char \<Rightarrow> nat" where
  "digit_val c = of_char c - 48"

definition digit_chr :: "nat \<Rightarrow> char" where
  "digit_chr d = char_of (48 + d)"

lemma of_char_digit_chr: "d < 10 \<Longrightarrow> (of_char (digit_chr d) :: nat) = 48 + d"
  by (simp add: digit_chr_def take_bit_eq_mod)

lemma digit_chr_is_digit [simp]: "d < 10 \<Longrightarrow> c_isdigit (digit_chr d)"
  by (simp add: c_isdigit_def of_char_digit_chr)

lemma digit_val_chr [simp]: "d < 10 \<Longrightarrow> digit_val (digit_chr d) = d"
  by (simp add: digit_val_def of_char_digit_chr)

lemma digit_not_space: "c_isdigit c \<Longrightarrow> \<not> c_isspace c"
  by (auto simp: c_isdigit_def c_isspace_def)

lemma digit_not_sign: "c_isdigit c \<Longrightarrow> c \<noteq> CHR ''-'' \<and> c \<noteq> CHR ''+''"
  by (auto simp: c_isdigit_def)

lemma digit_not_crlf: "c_isdigit c \<Longrightarrow> c \<noteq> CHR 0x0D \<and> c \<noteq> CHR 0x0A"
  by (auto simp: c_isdigit_def)

section \<open>Searching in strings\<close>

text \<open>
  \<open>find_char c s\<close> is the offset \<open>std::find\<close> or \<open>std::string::find\<close> gives for a character,
  \<open>None\<close> standing for the end iterator or \<open>npos\<close>; \<open>find_str\<close> is the same for a substring;
  \<open>find_last\<close> is \<open>find_last_of\<close> for one character. \<open>substr s i n\<close> is \<open>s.substr(i, n)\<close> for
  \<open>i\<close> within the string.
\<close>

definition find_char :: "char \<Rightarrow> string \<Rightarrow> nat option" where
  "find_char c s = (if c \<in> set s then Some (length (takeWhile (\<lambda>x. x \<noteq> c) s)) else None)"

fun find_str :: "string \<Rightarrow> string \<Rightarrow> nat option" where
  "find_str p [] = (if p = [] then Some 0 else None)"
| "find_str p (x # xs) =
     (if take (length p) (x # xs) = p then Some 0 else map_option Suc (find_str p xs))"

definition find_last :: "char \<Rightarrow> string \<Rightarrow> nat option" where
  "find_last c s =
     (if c \<in> set s then Some (length s - 1 - length (takeWhile (\<lambda>x. x \<noteq> c) (rev s))) else None)"

definition substr :: "string \<Rightarrow> nat \<Rightarrow> nat \<Rightarrow> string" where
  "substr s i n = take n (drop i s)"

lemma find_char_None [simp]: "find_char c s = None \<longleftrightarrow> c \<notin> set s"
  by (simp add: find_char_def)

lemma find_char_notin [simp, cxx_str]: "c \<notin> set s \<Longrightarrow> find_char c s = None"
  by simp

lemma takeWhile_neq_append [simp]:
  "c \<notin> set a \<Longrightarrow> takeWhile (\<lambda>x. x \<noteq> c) (a @ c # b) = a"
  by (induction a) auto

lemma find_char_append [simp, cxx_str]: "c \<notin> set a \<Longrightarrow> find_char c (a @ c # b) = Some (length a)"
  by (simp add: find_char_def)

lemma find_char_Cons [simp, cxx_str]: "find_char c (c # b) = Some 0"
  by (simp add: find_char_def)

lemma find_char_split:
  assumes "find_char c s = Some i"
  shows "i < length s" "s ! i = c" "c \<notin> set (take i s)" "s = take i s @ c # drop (Suc i) s"
proof -
  from assms have mem: "c \<in> set s" and i: "i = length (takeWhile (\<lambda>x. x \<noteq> c) s)"
    by (auto simp: find_char_def split: if_splits)
  obtain a b where s: "s = a @ c # b" and a: "c \<notin> set a"
    using mem by (auto dest: split_list_first)
  have "i = length a" using i s a by simp
  then show "i < length s" "s ! i = c" "c \<notin> set (take i s)" "s = take i s @ c # drop (Suc i) s"
    using s a by simp_all
qed

lemma find_str_bound: "find_str p s = Some i \<Longrightarrow> i + length p \<le> length s"
proof (induction p s arbitrary: i rule: find_str.induct)
  case (2 p x xs)
  show ?case
  proof (cases "take (length p) (x # xs) = p")
    case True
    then have "length p \<le> length (x # xs)"
      by (metis length_take min.cobounded1)
    with True 2(2) show ?thesis by simp
  next
    case False
    with 2 show ?thesis by auto
  qed
qed (auto split: if_splits)

lemma find_str_take: "find_str p s = Some i \<Longrightarrow> take (length p) (drop i s) = p"
  by (induction p s arbitrary: i rule: find_str.induct) (auto split: if_splits)

text \<open>A match found in a string is the match found in any extension of it.\<close>

lemma find_str_append_Some: "find_str p s = Some i \<Longrightarrow> find_str p (s @ t) = Some i"
proof (induction p s arbitrary: i rule: find_str.induct)
  case (1 p)
  then show ?case by (cases t) (auto split: if_splits)
next
  case (2 p x xs)
  show ?case
  proof (cases "take (length p) (x # xs) = p")
    case True
    then have "length p \<le> length (x # xs)" by (metis length_take min.cobounded1)
    then have "take (length p) (x # xs @ t) = p" using True by (cases p) auto
    with True 2(2) show ?thesis by simp
  next
    case False
    with 2(2) obtain j where j: "find_str p xs = Some j" "i = Suc j" by auto
    then have "Suc j + length p \<le> length (x # xs)" using find_str_bound by fastforce
    then have "take (length p) (x # xs @ t) = take (length p) (x # xs)"
      by (cases "length p") auto
    with False 2 j show ?thesis by auto
  qed
qed

lemma find_crlf_append [simp, cxx_str]:
  "CHR 0x0D \<notin> set a \<Longrightarrow> find_str crlf (a @ CHR 0x0D # CHR 0x0A # b) = Some (length a)"
proof (induction a)
  case Nil
  show ?case by simp
next
  case (Cons x a)
  then have "take (length crlf) ((x # a) @ CHR 0x0D # CHR 0x0A # b) \<noteq> crlf" by auto
  with Cons show ?case by simp
qed

lemma find_crlf_line:
  "find_str crlf s = Some i \<Longrightarrow> s = take i s @ CHR 0x0D # CHR 0x0A # drop (i + 2) s"
proof -
  assume f: "find_str crlf s = Some i"
  have "take 2 (drop i s) = crlf" using find_str_take [OF f] by (simp add: numeral_2_eq_2)
  then have "drop i s = crlf @ drop 2 (drop i s)" by (metis append_take_drop_id)
  then have "drop i s = CHR 0x0D # CHR 0x0A # drop (i + 2) s" by (simp add: add.commute)
  then show ?thesis by (metis append_take_drop_id)
qed

lemma find_last_append [simp, cxx_str]: "c \<notin> set b \<Longrightarrow> find_last c (a @ c # b) = Some (length a)"
proof -
  assume b: "c \<notin> set b"
  have "takeWhile (\<lambda>x. x \<noteq> c) (rev (a @ c # b)) = rev b"
    using b takeWhile_neq_append [of c "rev b" "rev a"] by simp
  then show ?thesis by (simp add: find_last_def)
qed

text \<open>The part of a byte string that \<open>c_str()\<close> shows to a C function: up to the first zero byte.\<close>

definition c_str :: "string \<Rightarrow> string" where
  "c_str s = takeWhile (\<lambda>c. c \<noteq> CHR 0x00) s"

lemma c_str_id [simp]: "CHR 0x00 \<notin> set s \<Longrightarrow> c_str s = s"
  by (induction s) (auto simp: c_str_def)

lemma c_str_append_nul [simp]: "CHR 0x00 \<notin> set s \<Longrightarrow> c_str (s @ CHR 0x00 # t) = s"
  by (simp add: c_str_def)

section \<open>Trimming\<close>

text \<open>The loops that skip leading and drop trailing white space.\<close>

definition trim_left :: "string \<Rightarrow> string" where
  "trim_left s = dropWhile c_isspace s"

definition trim_right :: "string \<Rightarrow> string" where
  "trim_right s = rev (dropWhile c_isspace (rev s))"

lemma trim_right_last: "trim_right s \<noteq> [] \<Longrightarrow> \<not> c_isspace (last (trim_right s))"
  by (simp add: trim_right_def last_rev hd_dropWhile)

lemma trim_left_hd: "trim_left s \<noteq> [] \<Longrightarrow> \<not> c_isspace (hd (trim_left s))"
  by (simp add: trim_left_def hd_dropWhile)

lemma trim_right_id: "s = [] \<or> \<not> c_isspace (last s) \<Longrightarrow> trim_right s = s"
  by (cases s rule: rev_cases) (auto simp: trim_right_def)

lemma trim_left_id: "s = [] \<or> \<not> c_isspace (hd s) \<Longrightarrow> trim_left s = s"
  by (cases s) (auto simp: trim_left_def)

lemma trim_right_hd: "trim_right s \<noteq> [] \<Longrightarrow> hd (trim_right s) = hd s"
proof -
  assume ne: "trim_right s \<noteq> []"
  obtain t where "rev s = t @ dropWhile c_isspace (rev s)"
    by (metis takeWhile_dropWhile_id)
  then have "s = trim_right s @ rev t" by (metis rev_append rev_rev_ident trim_right_def)
  with ne show ?thesis by (metis hd_append2)
qed

section \<open>Numbers and their decimal texts\<close>

text \<open>\<open>std::to_string\<close> on unsigned and signed integers.\<close>

fun string_of_nat :: "nat \<Rightarrow> string" where
  "string_of_nat n =
     (if n < 10 then [digit_chr n] else string_of_nat (n div 10) @ [digit_chr (n mod 10)])"

declare string_of_nat.simps [simp del]

definition string_of_int :: "int \<Rightarrow> string" where
  "string_of_int i = (if i < 0 then CHR ''-'' # string_of_nat (nat (- i)) else string_of_nat (nat i))"

definition decimal :: "string \<Rightarrow> nat" where
  "decimal ds = foldl (\<lambda>a c. 10 * a + digit_val c) 0 ds"

lemma decimal_snoc [simp]: "decimal (ds @ [c]) = 10 * decimal ds + digit_val c"
  by (simp add: decimal_def)

lemma string_of_nat_neq_Nil [simp]: "string_of_nat n \<noteq> []"
  by (subst string_of_nat.simps) simp

lemma string_of_nat_digits: "\<forall>c \<in> set (string_of_nat n). c_isdigit c"
proof (induction n rule: string_of_nat.induct)
  case (1 n)
  then show ?case by (subst string_of_nat.simps) auto
qed

lemma decimal_string_of_nat [simp]: "decimal (string_of_nat n) = n"
proof (induction n rule: string_of_nat.induct)
  case (1 n)
  show ?case
  proof (cases "n < 10")
    case True
    then show ?thesis by (subst string_of_nat.simps) (simp add: decimal_def)
  next
    case False
    with 1 show ?thesis by (subst string_of_nat.simps) simp
  qed
qed

lemma string_of_nat_inject [simp]: "string_of_nat m = string_of_nat n \<longleftrightarrow> m = n"
  by (metis decimal_string_of_nat)

text \<open>
  \<open>std::stoi\<close>: white space, an optional sign, then decimal digits up to the first other
  character. No digit is \<open>invalid_argument\<close>; a value outside \<open>int\<close> is \<open>out_of_range\<close>.
\<close>

definition stoi :: "string \<Rightarrow> int res" where
  "stoi s =
     (let s1 = trim_left s;
          neg = (case s1 of [] \<Rightarrow> False | c # _ \<Rightarrow> c = CHR ''-'');
          s2 = (case s1 of [] \<Rightarrow> [] | c # cs \<Rightarrow> if c = CHR ''-'' \<or> c = CHR ''+'' then cs else s1);
          ds = takeWhile c_isdigit s2;
          v = (if neg then - int (decimal ds) else int (decimal ds))
      in if ds = [] then Inl (Exception (Invalid_Argument ''stoi''))
         else if v < - (2 ^ 31) \<or> 2 ^ 31 - 1 < v then Inl (Exception (Out_Of_Range ''stoi''))
         else Inr v)"

lemma stoi_range: "stoi s = Inr v \<Longrightarrow> - (2 ^ 31) \<le> v \<and> v \<le> 2 ^ 31 - 1"
  unfolding stoi_def Let_def by (simp only: split: if_splits) auto

lemma stoi_string_of_nat:
  assumes "n \<le> 2147483647"
  shows "stoi (string_of_nat n) = Inr (int n)"
proof -
  obtain c cs where s: "string_of_nat n = c # cs" by (cases "string_of_nat n") auto
  then have dig: "c_isdigit c" "\<forall>x \<in> set (c # cs). c_isdigit x"
    using string_of_nat_digits [of n] by auto
  have "trim_left (c # cs) = c # cs"
    using dig(1) digit_not_space by (simp add: trim_left_id)
  moreover have "takeWhile c_isdigit (c # cs) = c # cs"
    using dig(2) by (simp add: takeWhile_eq_all_conv)
  moreover have "decimal (c # cs) = n" by (metis decimal_string_of_nat s)
  ultimately show ?thesis
    using digit_not_sign [OF dig(1)] assms by (simp add: stoi_def s)
qed

text \<open>Splitting at a separator: the shape of every loop over \<open>find\<close> and \<open>substr\<close>.\<close>

fun split_on :: "char \<Rightarrow> string \<Rightarrow> string list" where
  "split_on c [] = [[]]"
| "split_on c (x # xs) =
     (if x = c then [] # split_on c xs
      else (case split_on c xs of [] \<Rightarrow> [[x]] | t # ts \<Rightarrow> (x # t) # ts))"

lemma split_on_neq_Nil [simp]: "split_on c s \<noteq> []"
  by (induction s) (auto split: list.splits)

lemma split_on_no_sep: "c \<notin> set s \<Longrightarrow> split_on c s = [s]"
  by (induction s) auto

lemma split_on_append: "c \<notin> set a \<Longrightarrow> split_on c (a @ c # b) = a # split_on c b"
  by (induction a) auto

section \<open>Ordered maps\<close>

text \<open>
  \<open>std::map\<close> iterates its entries in the order of the keys: an association list with strictly
  increasing keys. \<open>smap_put\<close> is \<open>m[k] = v\<close>; lookup is \<^const>\<open>map_of\<close>.
\<close>

fun smap_put :: "'a::linorder \<Rightarrow> 'b \<Rightarrow> ('a \<times> 'b) list \<Rightarrow> ('a \<times> 'b) list" where
  "smap_put k v [] = [(k, v)]"
| "smap_put k v ((a, b) # m) =
     (if k < a then (k, v) # (a, b) # m
      else if k = a then (k, v) # m
      else (a, b) # smap_put k v m)"

definition smap_ok :: "('a::linorder \<times> 'b) list \<Rightarrow> bool" where
  "smap_ok m \<longleftrightarrow> sorted_wrt (<) (map fst m)"

lemma map_of_smap_put [simp]: "map_of (smap_put k v m) = (map_of m)(k \<mapsto> v)"
  by (induction k v m rule: smap_put.induct) (auto simp: fun_eq_iff)

lemma keys_smap_put [simp]: "fst ` set (smap_put k v m) = insert k (fst ` set m)"
  by (induction k v m rule: smap_put.induct) auto

lemma smap_ok_Nil [simp]: "smap_ok []"
  by (simp add: smap_ok_def)

lemma smap_ok_put [simp]: "smap_ok m \<Longrightarrow> smap_ok (smap_put k v m)"
proof (induction k v m rule: smap_put.induct)
  case (2 k v a b m)
  have "fst ` set (smap_put k v m) = insert k (fst ` set m)" by simp
  with 2 show ?case
    by (auto simp: smap_ok_def simp del: keys_smap_put)
qed (simp add: smap_ok_def)

end
