(* ===== verification/Http_Request.thy ===== *)
theory Http_Request
  imports Prelude
begin

text \<open>
  \<open>http::HttpRequest\<close> (\<open>HttpServer/include/http/HttpRequest.h\<close>, \<open>HttpServer/src/http/HttpRequest.cpp\<close>):
  the request a connection is assembling. The record has the members of the class; each setter
  that the parser calls is a definition on it. A pair of pointers \<open>[start, end)\<close> is the string
  between them. \<open>muduo::Timestamp\<close> is its count of microseconds, 0 when default constructed.
  The lemmas give the meaning of the two members with loops, the query-string splitter and the
  header trimmer, and what \<open>swap\<close> exchanges and what it forgets.
\<close>

datatype Method = kInvalid | kGet | kPost | kHead | kPut | kDelete | kOptions

type_synonym Timestamp = int

record HttpRequest =
  req_method :: Method
  req_version :: string
  req_path :: string
  req_pathParameters :: "string \<rightharpoonup> string"
  req_queryParameters :: "string \<rightharpoonup> string"
  req_receiveTime :: Timestamp
  req_headers :: "string \<rightharpoonup> string"
  req_content :: string
  req_contentLength :: u64

definition HttpRequest_new :: HttpRequest where
  "HttpRequest_new =
     \<lparr>req_method = kInvalid, req_version = ''Unknown'', req_path = [],
      req_pathParameters = Map.empty, req_queryParameters = Map.empty, req_receiveTime = 0,
      req_headers = Map.empty, req_content = [], req_contentLength = 0\<rparr>"

definition setReceiveTime :: "Timestamp \<Rightarrow> HttpRequest \<Rightarrow> HttpRequest" where
  "setReceiveTime t r = r\<lparr>req_receiveTime := t\<rparr>"

definition method_of_token :: "string \<Rightarrow> Method" where
  "method_of_token m =
     (if m = ''GET'' then kGet
      else if m = ''POST'' then kPost
      else if m = ''PUT'' then kPut
      else if m = ''DELETE'' then kDelete
      else if m = ''OPTIONS'' then kOptions
      else kInvalid)"

definition setMethod :: "string \<Rightarrow> HttpRequest \<Rightarrow> (bool \<times> HttpRequest) res" where
  "setMethod m r =
     bind_res (assert_res (req_method r = kInvalid))
       (\<lambda>_. let r' = r\<lparr>req_method := method_of_token m\<rparr> in Inr (req_method r' \<noteq> kInvalid, r'))"

definition setPath :: "string \<Rightarrow> HttpRequest \<Rightarrow> HttpRequest" where
  "setPath p r = r\<lparr>req_path := p\<rparr>"

definition setVersion :: "string \<Rightarrow> HttpRequest \<Rightarrow> HttpRequest" where
  "setVersion v r = r\<lparr>req_version := v\<rparr>"

definition setPathParameters :: "string \<Rightarrow> string \<Rightarrow> HttpRequest \<Rightarrow> HttpRequest" where
  "setPathParameters k v r = r\<lparr>req_pathParameters := (req_pathParameters r)(k \<mapsto> v)\<rparr>"

definition getPathParameters :: "string \<Rightarrow> HttpRequest \<Rightarrow> string" where
  "getPathParameters k r = (case req_pathParameters r k of Some v \<Rightarrow> v | None \<Rightarrow> [])"

definition getQueryParameters :: "string \<Rightarrow> HttpRequest \<Rightarrow> string" where
  "getQueryParameters k r = (case req_queryParameters r k of Some v \<Rightarrow> v | None \<Rightarrow> [])"

text \<open>\<open>argumentStr.find('&', prev)\<close>, and the body of the loop: one \<open>key=value\<close> pair.\<close>

definition find_char_from :: "char \<Rightarrow> string \<Rightarrow> nat \<Rightarrow> nat option" where
  "find_char_from c s i = map_option ((+) i) (find_char c (drop i s))"

definition put_pair :: "string \<Rightarrow> (string \<rightharpoonup> string) \<Rightarrow> (string \<rightharpoonup> string)" where
  "put_pair pair m =
     (case find_char (CHR ''='') pair of
        Some equalPos \<Rightarrow> m(take equalPos pair \<mapsto> drop (equalPos + 1) pair)
      | None \<Rightarrow> m)"

lemma find_char_from_bound: "find_char_from c s i = Some p \<Longrightarrow> i \<le> p \<and> p < length s"
  by (auto simp: find_char_from_def dest!: find_char_split(1))

function query_loop :: "string \<Rightarrow> nat \<Rightarrow> (string \<rightharpoonup> string) \<Rightarrow> (string \<rightharpoonup> string)" where
  "query_loop argumentStr prev m =
     (case find_char_from (CHR ''&'') argumentStr prev of
        Some pos \<Rightarrow>
          query_loop argumentStr (pos + 1) (put_pair (substr argumentStr prev (pos - prev)) m)
      | None \<Rightarrow> put_pair (drop prev argumentStr) m)"
  by pat_completeness auto
termination
  by (relation "measure (\<lambda>(s, prev, m). length s - prev)") (auto dest: find_char_from_bound)

declare query_loop.simps [simp del]

definition setQueryParameters :: "string \<Rightarrow> HttpRequest \<Rightarrow> HttpRequest" where
  "setQueryParameters argumentStr r =
     r\<lparr>req_queryParameters := query_loop argumentStr 0 (req_queryParameters r)\<rparr>"

text \<open>\<open>addHeader(start, colon, end)\<close>: \<open>line\<close> is \<open>[start, end)\<close> and \<open>colon\<close> an offset in it.\<close>

definition addHeader :: "string \<Rightarrow> nat \<Rightarrow> HttpRequest \<Rightarrow> HttpRequest" where
  "addHeader line colon r =
     (let key = take colon line;
          value = trim_right (trim_left (drop (colon + 1) line))
      in r\<lparr>req_headers := (req_headers r)(key \<mapsto> value)\<rparr>)"

definition getHeader :: "string \<Rightarrow> HttpRequest \<Rightarrow> string" where
  "getHeader field r = (case req_headers r field of Some v \<Rightarrow> v | None \<Rightarrow> [])"

definition setBody :: "string \<Rightarrow> HttpRequest \<Rightarrow> HttpRequest" where
  "setBody body r = r\<lparr>req_content := body\<rparr>"

definition setContentLength :: "u64 \<Rightarrow> HttpRequest \<Rightarrow> HttpRequest" where
  "setContentLength n r = r\<lparr>req_contentLength := n\<rparr>"

text \<open>
  \<open>a.swap(b)\<close> returns the new values of \<open>a\<close> and \<open>b\<close>. The members \<open>content_\<close> and
  \<open>contentLength_\<close> are not among the swapped ones.
\<close>

definition swap :: "HttpRequest \<Rightarrow> HttpRequest \<Rightarrow> HttpRequest \<times> HttpRequest" where
  "swap a b =
     (b\<lparr>req_content := req_content a, req_contentLength := req_contentLength a\<rparr>,
      a\<lparr>req_content := req_content b, req_contentLength := req_contentLength b\<rparr>)"

section \<open>Setters and getters\<close>

lemmas req_setters = setReceiveTime_def setPath_def setVersion_def setBody_def setContentLength_def
  setPathParameters_def

lemma setMethod_fresh:
  "req_method r = kInvalid \<Longrightarrow>
   setMethod m r = Inr (method_of_token m \<noteq> kInvalid, r\<lparr>req_method := method_of_token m\<rparr>)"
  by (simp add: setMethod_def)

lemma setMethod_twice: "req_method r \<noteq> kInvalid \<Longrightarrow> setMethod m r = Inl Assertion_Failure"
  by (simp add: setMethod_def)

lemma method_of_token_valid:
  "method_of_token m \<noteq> kInvalid \<longleftrightarrow> m \<in> {''GET'', ''POST'', ''PUT'', ''DELETE'', ''OPTIONS''}"
  by (simp add: method_of_token_def)

section \<open>Headers\<close>

lemma getHeader_addHeader_same:
  "getHeader (take colon line) (addHeader line colon r) = trim_right (trim_left (drop (colon + 1) line))"
  by (simp add: getHeader_def addHeader_def)

lemma getHeader_addHeader_other:
  "f \<noteq> take colon line \<Longrightarrow> getHeader f (addHeader line colon r) = getHeader f r"
  by (simp add: getHeader_def addHeader_def)

text \<open>The text of a header line, with the padding a client may put around the value.\<close>

lemma addHeader_line:
  assumes key: "CHR '':'' \<notin> set k"
    and pad: "\<forall>c \<in> set pre. c_isspace c" "\<forall>c \<in> set post. c_isspace c"
    and val: "v = [] \<or> \<not> c_isspace (hd v) \<and> \<not> c_isspace (last v)"
  shows "addHeader (k @ CHR '':'' # pre @ v @ post) (length k) r
           = r\<lparr>req_headers := (req_headers r)(k \<mapsto> v)\<rparr>"
proof -
  have skip: "dropWhile c_isspace (p @ t) = dropWhile c_isspace t" if "\<forall>c \<in> set p. c_isspace c" for p t
    using that by (induction p) auto
  have "trim_right (trim_left (pre @ v @ post)) = v"
  proof (cases "v = []")
    case True
    then have "trim_left (pre @ v @ post) = []" using pad by (auto simp: trim_left_def)
    with True show ?thesis by (simp add: trim_right_def)
  next
    case False
    then obtain a v' where v: "v = a # v'" by (cases v) auto
    have "trim_left (pre @ v @ post) = v @ post"
      using skip [OF pad(1), of "v @ post"] val v by (simp add: trim_left_def)
    moreover have "trim_right (v @ post) = v"
    proof -
      have "dropWhile c_isspace (rev post @ rev v) = dropWhile c_isspace (rev v)"
        using skip [of "rev post" "rev v"] pad(2) by simp
      then show ?thesis using trim_right_id [of v] val False by (simp add: trim_right_def)
    qed
    ultimately show ?thesis by simp
  qed
  then show ?thesis by (simp add: addHeader_def)
qed

section \<open>The query string\<close>

lemma query_loop_split:
  "query_loop s prev m = fold put_pair (split_on (CHR ''&'') (drop prev s)) m"
proof (induction s prev m rule: query_loop.induct)
  case (1 s prev m)
  show ?case
  proof (cases "find_char_from (CHR ''&'') s prev")
    case None
    then have "CHR ''&'' \<notin> set (drop prev s)" by (simp add: find_char_from_def)
    with None show ?thesis by (subst query_loop.simps) (simp add: split_on_no_sep)
  next
    case (Some pos)
    then obtain i where i: "find_char (CHR ''&'') (drop prev s) = Some i" "pos = prev + i"
      by (auto simp: find_char_from_def)
    have "split_on (CHR ''&'') (drop prev s)
            = take i (drop prev s) # split_on (CHR ''&'') (drop (pos + 1) s)"
      using find_char_split(4) [OF i(1)] split_on_append [OF find_char_split(3) [OF i(1)]] i(2)
      by (metis Suc_eq_plus1 add.commute add_Suc_right drop_drop)
    with 1 Some i(2) show ?thesis
      by (subst query_loop.simps) (simp add: substr_def)
  qed
qed

text \<open>The text of a query, and the pairs it is made from.\<close>

fun show_query :: "(string \<times> string) list \<Rightarrow> string" where
  "show_query [] = []"
| "show_query [(k, v)] = k @ CHR ''='' # v"
| "show_query ((k, v) # kv # kvs) = k @ CHR ''='' # v @ CHR ''&'' # show_query (kv # kvs)"

definition query_safe :: "string \<times> string \<Rightarrow> bool" where
  "query_safe kv \<longleftrightarrow> CHR ''='' \<notin> set (fst kv) \<and> CHR ''&'' \<notin> set (fst kv) \<and> CHR ''&'' \<notin> set (snd kv)"

lemma put_pair_text [simp]: "CHR ''='' \<notin> set k \<Longrightarrow> put_pair (k @ CHR ''='' # v) m = m(k \<mapsto> v)"
  by (simp add: put_pair_def)

lemma split_show_query:
  assumes "kvs \<noteq> []" "\<forall>kv \<in> set kvs. query_safe kv"
  shows "split_on (CHR ''&'') (show_query kvs) = map (\<lambda>(k, v). k @ CHR ''='' # v) kvs"
  using assms
proof (induction kvs rule: show_query.induct)
  case (2 k v)
  then show ?case by (simp add: query_safe_def split_on_no_sep)
next
  case (3 k v kv kvs)
  have "CHR ''&'' \<notin> set (k @ CHR ''='' # v)" using 3(3) by (simp add: query_safe_def)
  then have "split_on (CHR ''&'') (show_query ((k, v) # kv # kvs))
      = (k @ CHR ''='' # v) # split_on (CHR ''&'') (show_query (kv # kvs))"
    using split_on_append [of "CHR ''&''" "k @ CHR ''='' # v"] by simp
  with 3 show ?case by simp
qed simp

lemma setQueryParameters_pairs:
  assumes "kvs \<noteq> []" "\<forall>kv \<in> set kvs. query_safe kv"
  shows "setQueryParameters (show_query kvs) r
           = r\<lparr>req_queryParameters := req_queryParameters r ++ map_of (rev kvs)\<rparr>"
proof -
  have "fold put_pair (map (\<lambda>(k, v). k @ CHR ''='' # v) kvs) m = m ++ map_of (rev kvs)" for m
    using assms(2)
    by (induction kvs arbitrary: m) (auto simp: query_safe_def)
  then show ?thesis
    using split_show_query [OF assms] by (simp add: setQueryParameters_def query_loop_split)
qed

text \<open>
  The query splitter of \<open>HttpRequest::setQueryParameters\<close> inverts the printing of a query:
  parsing \<open>k1=v1&k2=v2&...\<close>, where keys hold no \<open>=\<close> or \<open>&\<close> and values no \<open>&\<close>, stores exactly the
  pairs, a later pair overriding an earlier one with the same key, and keeps everything else.
\<close>

theorem setQueryParameters_roundtrip:
  assumes "kvs \<noteq> []" "\<forall>kv \<in> set kvs. query_safe kv"
  shows "setQueryParameters (show_query kvs) r
           = r\<lparr>req_queryParameters := req_queryParameters r ++ map_of (rev kvs)\<rparr>"
  using assms by (rule setQueryParameters_pairs)

theorem setQueryParameters_roundtrip_witness:
  "getQueryParameters ''id'' (setQueryParameters (show_query [(''id'', ''1''), (''q'', ''a=b''), (''id'', ''7'')])
     HttpRequest_new) = ''7''"
  using setQueryParameters_roundtrip [of "[(''id'', ''1''), (''q'', ''a=b''), (''id'', ''7'')]" HttpRequest_new]
  by (simp add: query_safe_def getQueryParameters_def HttpRequest_new_def)

end
