(* ===== verification/Byte_Buffer.thy ===== *)
theory Byte_Buffer
  imports Prelude
begin

text \<open>
  The network buffer. First the interface a protocol parser uses: the operations of a buffer as a
  record (\<open>buffer_ops\<close>), and the contract of such a buffer as the locale \<open>net_buffer\<close>: it holds a
  queue of readable bytes, \<open>append\<close> adds at its end and \<open>retrieve\<close> drops from its front.
  \<open>muduo::net::Buffer\<close>, the buffer of the HTTP framework, is a provider of that contract outside
  this repository; the class \<open>Buffer\<close> of \<open>code/buffer\<close> is one inside it, modelled here in full: a
  vector with a read and a write position, growing or compacting when there is no room. The
  lemmas show that every operation keeps the positions in order, that no assertion of the class
  can fail when its caller respects the readable size, and that the class refines the byte queue.
\<close>

section \<open>The interface\<close>

record 'b buffer_ops =
  op_new :: 'b
  op_peek :: "'b \<Rightarrow> string"
  op_findCRLF :: "'b \<Rightarrow> nat option"
  op_retrieve :: "nat \<Rightarrow> 'b \<Rightarrow> 'b"
  op_retrieveUntil :: "nat \<Rightarrow> 'b \<Rightarrow> 'b"
  op_append :: "string \<Rightarrow> 'b \<Rightarrow> 'b"

locale net_buffer =
  fixes B :: "'b buffer_ops"
    and ok :: "'b \<Rightarrow> bool"
  assumes findCRLF: "ok b \<Longrightarrow> op_findCRLF B b = find_str crlf (op_peek B b)"
    and retrieve: "ok b \<Longrightarrow> n \<le> length (op_peek B b) \<Longrightarrow>
          op_peek B (op_retrieve B n b) = drop n (op_peek B b)"
    and retrieveUntil: "ok b \<Longrightarrow> n \<le> length (op_peek B b) \<Longrightarrow>
          op_peek B (op_retrieveUntil B n b) = drop n (op_peek B b)"
    and append: "ok b \<Longrightarrow> op_peek B (op_append B s b) = op_peek B b @ s"
    and ok_retrieve: "ok b \<Longrightarrow> n \<le> length (op_peek B b) \<Longrightarrow> ok (op_retrieve B n b)"
    and ok_retrieveUntil: "ok b \<Longrightarrow> n \<le> length (op_peek B b) \<Longrightarrow> ok (op_retrieveUntil B n b)"
    and ok_append: "ok b \<Longrightarrow> ok (op_append B s b)"
    and new: "ok (op_new B)" "op_peek B (op_new B) = []"
begin

lemma appends_peek:
  "ok b \<Longrightarrow> op_peek B (fold (op_append B) ss b) = op_peek B b @ concat ss
            \<and> ok (fold (op_append B) ss b)"
  by (induction ss arbitrary: b) (auto simp: append ok_append)

lemma append_retrieve:
  "ok b \<Longrightarrow> op_peek B b = [] \<Longrightarrow> op_peek B (op_retrieve B (length s) (op_append B (s @ t) b)) = t"
  by (simp add: retrieve append ok_append)

lemma line_bound:
  "ok b \<Longrightarrow> op_findCRLF B b = Some i \<Longrightarrow> i + 2 \<le> length (op_peek B b)"
  using find_str_bound by (fastforce simp: findCRLF)

end

section \<open>The class\<close>

record Buffer =
  vec :: string
  readPos :: nat
  writePos :: nat

definition Buffer_new :: "nat \<Rightarrow> Buffer" where
  "Buffer_new initBuffSize = \<lparr>vec = replicate initBuffSize (CHR 0x00), readPos = 0, writePos = 0\<rparr>"

definition ReadableBytes :: "Buffer \<Rightarrow> nat" where
  "ReadableBytes b = size_sub (writePos b) (readPos b)"

definition WritableBytes :: "Buffer \<Rightarrow> nat" where
  "WritableBytes b = size_sub (length (vec b)) (writePos b)"

definition PrependableBytes :: "Buffer \<Rightarrow> nat" where
  "PrependableBytes b = readPos b"

text \<open>Pointers into the vector are offsets from its first element.\<close>

definition Peek :: "Buffer \<Rightarrow> nat" where
  "Peek b = readPos b"

definition BeginWrite :: "Buffer \<Rightarrow> nat" where
  "BeginWrite b = writePos b"

definition Retrieve :: "nat \<Rightarrow> Buffer \<Rightarrow> Buffer res" where
  "Retrieve len b =
     bind_res (assert_res (len \<le> ReadableBytes b)) (\<lambda>_. Inr (b\<lparr>readPos := readPos b + len\<rparr>))"

definition RetrieveUntil :: "nat \<Rightarrow> Buffer \<Rightarrow> Buffer res" where
  "RetrieveUntil endp b =
     bind_res (assert_res (Peek b \<le> endp)) (\<lambda>_. Retrieve (endp - Peek b) b)"

definition RetrieveAll :: "Buffer \<Rightarrow> Buffer" where
  "RetrieveAll b = b\<lparr>vec := replicate (length (vec b)) (CHR 0x00), readPos := 0, writePos := 0\<rparr>"

definition RetrieveAllToStr :: "Buffer \<Rightarrow> string \<times> Buffer" where
  "RetrieveAllToStr b = (take (ReadableBytes b) (drop (Peek b) (vec b)), RetrieveAll b)"

definition HasWritten :: "nat \<Rightarrow> Buffer \<Rightarrow> Buffer" where
  "HasWritten len b = b\<lparr>writePos := writePos b + len\<rparr>"

text \<open>\<open>std::copy\<close> of a byte range to an offset of the vector, and \<open>vector::resize\<close> to a larger size.\<close>

definition blit :: "string \<Rightarrow> nat \<Rightarrow> string \<Rightarrow> string" where
  "blit v off s = take off v @ s @ drop (off + length s) v"

definition vec_resize :: "nat \<Rightarrow> string \<Rightarrow> string" where
  "vec_resize n v = take n v @ replicate (n - length v) (CHR 0x00)"

definition MakeSpace :: "nat \<Rightarrow> Buffer \<Rightarrow> Buffer res" where
  "MakeSpace len b =
     (if WritableBytes b + PrependableBytes b < len
      then Inr (b\<lparr>vec := vec_resize (writePos b + len + 1) (vec b)\<rparr>)
      else
        let readable = ReadableBytes b;
            moved = take readable (drop (readPos b) (vec b));
            b' = b\<lparr>vec := blit (vec b) 0 moved, readPos := 0, writePos := readable\<rparr>
        in bind_res (assert_res (readable = ReadableBytes b')) (\<lambda>_. Inr b'))"

definition EnsureWriteable :: "nat \<Rightarrow> Buffer \<Rightarrow> Buffer res" where
  "EnsureWriteable len b =
     bind_res (if WritableBytes b < len then MakeSpace len b else Inr b)
       (\<lambda>b'. bind_res (assert_res (WritableBytes b' \<ge> len)) (\<lambda>_. Inr b'))"

definition Append :: "string \<Rightarrow> Buffer \<Rightarrow> Buffer res" where
  "Append s b =
     bind_res (EnsureWriteable (length s) b)
       (\<lambda>b'. if BeginWrite b' + length s \<le> length (vec b')
             then Inr (HasWritten (length s) (b'\<lparr>vec := blit (vec b') (BeginWrite b') s\<rparr>))
             else Inl Undefined_Behaviour)"

definition Append_Buffer :: "Buffer \<Rightarrow> Buffer \<Rightarrow> Buffer res" where
  "Append_Buffer src b = Append (take (ReadableBytes src) (drop (Peek src) (vec src))) b"

text \<open>
  \<open>ReadFd\<close> and \<open>WriteFd\<close> call the kernel. The outcome of the call is their input: an error
  number, or for \<open>readv\<close> the bytes that wait on the socket, of which it takes as many as its two
  areas hold, and for \<open>write\<close> the count accepted. The second area is a 65535-byte array on the stack.
\<close>

definition extra_buff_size :: nat where
  "extra_buff_size = 65535"

definition ReadFd :: "int + string \<Rightarrow> Buffer \<Rightarrow> ((int + nat) \<times> Buffer) res" where
  "ReadFd outcome b =
     (let writable = WritableBytes b in
      case outcome of
        Inl errno \<Rightarrow> Inr (Inl errno, b)
      | Inr avail \<Rightarrow>
          let bytes = take (writable + extra_buff_size) avail;
              len = length bytes;
              filled = b\<lparr>vec := blit (vec b) (writePos b) (take writable bytes)\<rparr>
          in if len \<le> writable
             then Inr (Inr len, filled\<lparr>writePos := writePos filled + len\<rparr>)
             else bind_res (Append (drop writable bytes) (filled\<lparr>writePos := length (vec filled)\<rparr>))
                    (\<lambda>b'. Inr (Inr len, b')))"

definition WriteFd :: "int + nat \<Rightarrow> Buffer \<Rightarrow> (int + nat) \<times> Buffer" where
  "WriteFd outcome b =
     (case outcome of
        Inl errno \<Rightarrow> (Inl errno, b)
      | Inr len \<Rightarrow> (Inr len, b\<lparr>readPos := readPos b + len\<rparr>))"

section \<open>Invariant and abstraction\<close>

definition buf_ok :: "Buffer \<Rightarrow> bool" where
  "buf_ok b \<longleftrightarrow> readPos b \<le> writePos b \<and> writePos b \<le> length (vec b)"

definition readable :: "Buffer \<Rightarrow> string" where
  "readable b = take (writePos b - readPos b) (drop (readPos b) (vec b))"

lemma buf_ok_sizes [simp]:
  assumes "buf_ok b"
  shows "ReadableBytes b = writePos b - readPos b"
    and "WritableBytes b = length (vec b) - writePos b"
    and "PrependableBytes b = readPos b"
  using assms by (simp_all add: buf_ok_def ReadableBytes_def WritableBytes_def PrependableBytes_def)

lemma length_readable [simp]: "buf_ok b \<Longrightarrow> length (readable b) = ReadableBytes b"
  by (auto simp: buf_ok_def readable_def min_def)

lemma length_blit [simp]: "off + length s \<le> length v \<Longrightarrow> length (blit v off s) = length v"
  by (simp add: blit_def)

lemma length_vec_resize [simp]: "length (vec_resize n v) = n"
  by (simp add: vec_resize_def)

lemma take_vec_resize [simp]: "m \<le> length v \<Longrightarrow> m \<le> n \<Longrightarrow> take m (vec_resize n v) = take m v"
  by (simp add: vec_resize_def min_def)

lemma take_blit_end:
  "off + length s \<le> length v \<Longrightarrow> take (off + length s) (blit v off s) = take off v @ s"
  by (simp add: blit_def)

lemma readable_take: "readable b = drop (readPos b) (take (writePos b) (vec b))"
  by (simp add: readable_def drop_take)

lemma Buffer_new_ok [simp]: "buf_ok (Buffer_new n)" "readable (Buffer_new n) = []"
  by (simp_all add: buf_ok_def Buffer_new_def readable_def)

text \<open>Making room never changes what is readable, and leaves at least the room asked for.\<close>

lemma EnsureWriteable_ok:
  assumes ok: "buf_ok b"
  obtains b' where "EnsureWriteable len b = Inr b'" "buf_ok b'" "readable b' = readable b"
    "len \<le> length (vec b') - writePos b'"
proof (cases "WritableBytes b < len")
  case False
  then show ?thesis using that [of b] ok by (simp add: EnsureWriteable_def)
next
  case need: True
  show ?thesis
  proof (cases "WritableBytes b + PrependableBytes b < len")
    case True
    let ?b = "b\<lparr>vec := vec_resize (writePos b + len + 1) (vec b)\<rparr>"
    have "buf_ok ?b" using ok by (simp add: buf_ok_def)
    moreover have "readable ?b = readable b"
      using ok by (simp add: readable_take buf_ok_def)
    ultimately show ?thesis
      using need True that [of ?b] by (simp add: EnsureWriteable_def MakeSpace_def)
  next
    case False
    let ?moved = "take (ReadableBytes b) (drop (readPos b) (vec b))"
    let ?b = "b\<lparr>vec := blit (vec b) 0 ?moved, readPos := 0, writePos := ReadableBytes b\<rparr>"
    have len: "length ?moved = ReadableBytes b" "ReadableBytes b \<le> length (vec b)"
      using ok by (auto simp: buf_ok_def)
    have okb: "buf_ok ?b" using ok len by (simp add: buf_ok_def blit_def)
    moreover have "readable ?b = readable b"
      using ok by (auto simp: readable_def blit_def buf_ok_def min_def)
    moreover have "len \<le> length (vec ?b) - writePos ?b"
      using ok len False by (simp add: buf_ok_def)
    ultimately show ?thesis
      using need False that [of ?b] by (simp add: EnsureWriteable_def MakeSpace_def Let_def)
  qed
qed

lemma put_at_end:
  assumes "buf_ok b" "length s \<le> length (vec b) - writePos b"
  shows "buf_ok (HasWritten (length s) (b\<lparr>vec := blit (vec b) (BeginWrite b) s\<rparr>))"
    and "readable (HasWritten (length s) (b\<lparr>vec := blit (vec b) (BeginWrite b) s\<rparr>))
           = readable b @ s"
proof -
  have fits: "writePos b + length s \<le> length (vec b)" using assms by (auto simp: buf_ok_def)
  then show "buf_ok (HasWritten (length s) (b\<lparr>vec := blit (vec b) (BeginWrite b) s\<rparr>))"
    using assms by (simp add: buf_ok_def HasWritten_def BeginWrite_def)
  show "readable (HasWritten (length s) (b\<lparr>vec := blit (vec b) (BeginWrite b) s\<rparr>))
          = readable b @ s"
    using assms fits
    by (simp add: readable_take HasWritten_def BeginWrite_def take_blit_end buf_ok_def)
qed

lemma Append_ok:
  assumes "buf_ok b"
  obtains b' where "Append s b = Inr b'" "buf_ok b'" "readable b' = readable b @ s"
proof -
  obtain b1 where b1: "EnsureWriteable (length s) b = Inr b1" "buf_ok b1"
      "readable b1 = readable b" "length s \<le> length (vec b1) - writePos b1"
    using EnsureWriteable_ok [OF assms] by blast
  have "BeginWrite b1 + length s \<le> length (vec b1)"
    using b1(2,4) by (auto simp: buf_ok_def BeginWrite_def)
  then show ?thesis
    by (intro that, simp add: Append_def b1) (use put_at_end [OF b1(2,4)] b1(3) in simp_all)
qed

lemma Retrieve_ok:
  assumes "buf_ok b" "n \<le> ReadableBytes b"
  shows "Retrieve n b = Inr (b\<lparr>readPos := readPos b + n\<rparr>)"
    and "buf_ok (b\<lparr>readPos := readPos b + n\<rparr>)"
    and "readable (b\<lparr>readPos := readPos b + n\<rparr>) = drop n (readable b)"
  using assms by (auto simp: Retrieve_def buf_ok_def readable_take add.commute)

lemma RetrieveUntil_ok:
  assumes "buf_ok b" "n \<le> ReadableBytes b"
  shows "RetrieveUntil (Peek b + n) b = Retrieve n b"
  using assms by (simp add: RetrieveUntil_def Peek_def)

lemma RetrieveAll_ok [simp]: "buf_ok (RetrieveAll b)" "readable (RetrieveAll b) = []"
  by (simp_all add: RetrieveAll_def buf_ok_def readable_def)

lemma fst_RetrieveAllToStr: "buf_ok b \<Longrightarrow> fst (RetrieveAllToStr b) = readable b"
  by (simp add: RetrieveAllToStr_def readable_def Peek_def)

lemma WriteFd_ok:
  assumes "buf_ok b" "n \<le> ReadableBytes b"
  shows "buf_ok (snd (WriteFd (Inr n) b))" "readable (snd (WriteFd (Inr n) b)) = drop n (readable b)"
  using Retrieve_ok [OF assms] by (simp_all add: WriteFd_def)

lemma ReadFd_ok:
  assumes ok: "buf_ok b" and size: "length bytes \<le> extra_buff_size"
  obtains b' where "ReadFd (Inr bytes) b = Inr (Inr (length bytes), b')" "buf_ok b'"
    "readable b' = readable b @ bytes"
proof (cases "length bytes \<le> WritableBytes b")
  have all: "take (WritableBytes b + extra_buff_size) bytes = bytes" using size by simp
  case True
  let ?b = "HasWritten (length bytes) (b\<lparr>vec := blit (vec b) (BeginWrite b) bytes\<rparr>)"
  have "ReadFd (Inr bytes) b = Inr (Inr (length bytes), ?b)"
    using True all by (simp add: ReadFd_def Let_def HasWritten_def BeginWrite_def)
  then show ?thesis using that put_at_end [OF ok, of bytes] True ok by simp
next
  have all: "take (WritableBytes b + extra_buff_size) bytes = bytes" using size by simp
  case False
  let ?w = "WritableBytes b"
  let ?b1 = "HasWritten (length (take ?w bytes)) (b\<lparr>vec := blit (vec b) (BeginWrite b) (take ?w bytes)\<rparr>)"
  have fits: "length (take ?w bytes) \<le> length (vec b) - writePos b" using ok by simp
  note b1 = put_at_end [OF ok fits]
  obtain b2 where b2: "Append (drop ?w bytes) ?b1 = Inr b2" "buf_ok b2"
      "readable b2 = readable ?b1 @ drop ?w bytes"
    using Append_ok [OF b1(1)] by blast
  have "(b\<lparr>vec := blit (vec b) (writePos b) (take ?w bytes)\<rparr>)
          \<lparr>writePos := length (blit (vec b) (writePos b) (take ?w bytes))\<rparr> = ?b1"
    using ok False by (auto simp: HasWritten_def BeginWrite_def buf_ok_def blit_def min_def)
  then have "ReadFd (Inr bytes) b = Inr (Inr (length bytes), b2)"
    using False b2(1) all by (simp add: ReadFd_def Let_def)
  then show ?thesis using that b2(2,3) b1(2) by simp
qed

section \<open>The class provides the interface\<close>

text \<open>
  The operations of the class in the shape of the interface: an offset \<open>n\<close> counted from
  \<open>Peek()\<close>, a failing call leaving the buffer as it was (within the contract none fails).
\<close>

definition keep_on_fault :: "('b \<Rightarrow> 'b res) \<Rightarrow> 'b \<Rightarrow> 'b" where
  "keep_on_fault f b = (case f b of Inl _ \<Rightarrow> b | Inr b' \<Rightarrow> b')"

definition Buffer_ops :: "Buffer buffer_ops" where
  "Buffer_ops =
     \<lparr>op_new = Buffer_new 1024,
      op_peek = readable,
      op_findCRLF = (\<lambda>b. find_str crlf (readable b)),
      op_retrieve = (\<lambda>n. keep_on_fault (Retrieve n)),
      op_retrieveUntil = (\<lambda>n b. keep_on_fault (RetrieveUntil (Peek b + n)) b),
      op_append = (\<lambda>s. keep_on_fault (Append s))\<rparr>"

lemma keep_on_fault_Inr [simp]: "f b = Inr b' \<Longrightarrow> keep_on_fault f b = b'"
  by (simp add: keep_on_fault_def)

lemma Buffer_ops_simps [simp]:
  "op_new Buffer_ops = Buffer_new 1024"
  "op_peek Buffer_ops = readable"
  "op_findCRLF Buffer_ops b = find_str crlf (readable b)"
  "op_retrieve Buffer_ops n = keep_on_fault (Retrieve n)"
  "op_retrieveUntil Buffer_ops n b = keep_on_fault (RetrieveUntil (Peek b + n)) b"
  "op_append Buffer_ops s = keep_on_fault (Append s)"
  by (simp_all add: Buffer_ops_def)

lemma Buffer_append_op:
  "buf_ok b \<Longrightarrow> readable (keep_on_fault (Append s) b) = readable b @ s \<and> buf_ok (keep_on_fault (Append s) b)"
  by (rule Append_ok [of b s]) auto

interpretation web_buffer: net_buffer Buffer_ops buf_ok
  by unfold_locales (auto simp: Retrieve_ok RetrieveUntil_ok Buffer_append_op)

section \<open>The class refines a byte queue\<close>

datatype buf_op = BAppend string | BRetrieve nat | BRetrieveAll | BReadFd string

fun buf_step :: "buf_op \<Rightarrow> Buffer \<Rightarrow> Buffer res" where
  "buf_step (BAppend s) b = Append s b"
| "buf_step (BRetrieve n) b = Retrieve n b"
| "buf_step BRetrieveAll b = Inr (RetrieveAll b)"
| "buf_step (BReadFd bytes) b = bind_res (ReadFd (Inr bytes) b) (\<lambda>r. Inr (snd r))"

fun queue_step :: "buf_op \<Rightarrow> string \<Rightarrow> string res" where
  "queue_step (BAppend s) q = Inr (q @ s)"
| "queue_step (BRetrieve n) q = (if n \<le> length q then Inr (drop n q) else Inl Assertion_Failure)"
| "queue_step BRetrieveAll q = Inr []"
| "queue_step (BReadFd bytes) q = Inr (q @ bytes)"

fun buf_run :: "buf_op list \<Rightarrow> Buffer \<Rightarrow> Buffer res" where
  "buf_run [] b = Inr b"
| "buf_run (x # xs) b = bind_res (buf_step x b) (buf_run xs)"

fun queue_run :: "buf_op list \<Rightarrow> string \<Rightarrow> string res" where
  "queue_run [] q = Inr q"
| "queue_run (x # xs) q = bind_res (queue_step x q) (queue_run xs)"

text \<open>What one \<open>readv\<close> is sure to take.\<close>

fun op_fits :: "buf_op \<Rightarrow> bool" where
  "op_fits (BReadFd bytes) \<longleftrightarrow> length bytes \<le> extra_buff_size"
| "op_fits _ \<longleftrightarrow> True"

lemma buf_step_refines:
  assumes "buf_ok b" "op_fits x"
  shows "(case buf_step x b of Inl e \<Rightarrow> queue_step x (readable b) = Inl e
          | Inr b' \<Rightarrow> buf_ok b' \<and> queue_step x (readable b) = Inr (readable b'))"
proof (cases x)
  case (BAppend s)
  obtain b' where "Append s b = Inr b'" "buf_ok b'" "readable b' = readable b @ s"
    using Append_ok [OF assms(1)] by blast
  with BAppend show ?thesis by simp
next
  case (BRetrieve n)
  with Retrieve_ok [OF assms(1), of n] assms show ?thesis
    by (cases "n \<le> ReadableBytes b") (simp_all add: Retrieve_def)
next
  case BRetrieveAll
  then show ?thesis by simp
next
  case (BReadFd bytes)
  obtain b' where "ReadFd (Inr bytes) b = Inr (Inr (length bytes), b')" "buf_ok b'"
    "readable b' = readable b @ bytes" using ReadFd_ok [OF assms(1)] assms(2) BReadFd by auto
  with BReadFd show ?thesis by simp
qed

text \<open>
  C5: \<open>Buffer\<close> (\<open>code/buffer/buffer.cpp\<close>) refines a byte queue. From any buffer whose positions
  are in order, a sequence of \<open>Append\<close>, \<open>Retrieve\<close>, \<open>RetrieveAll\<close> and \<open>ReadFd\<close> calls leaves
  exactly the readable bytes the queue would hold (growing, compacting and the stack area of
  \<open>readv\<close> are invisible), keeps the positions in order, and stops at an assertion exactly when
  a caller retrieves more than is readable; no assertion about room can fail. A \<open>ReadFd\<close> here
  is one with at most 65535 bytes waiting, which it takes whole whatever room the buffer has.
\<close>

theorem buffer_refines_queue:
  assumes "buf_ok b" "\<forall>x \<in> set ops. op_fits x"
  shows "(case buf_run ops b of Inl e \<Rightarrow> queue_run ops (readable b) = Inl e
          | Inr b' \<Rightarrow> buf_ok b' \<and> queue_run ops (readable b) = Inr (readable b'))"
  using assms
proof (induction ops arbitrary: b)
  case Nil
  then show ?case by simp
next
  case (Cons x xs)
  show ?case
  proof (cases "buf_step x b")
    case (Inl e)
    then show ?thesis using buf_step_refines [OF Cons.prems(1), of x] Cons.prems(2) by simp
  next
    case (Inr b1)
    then have "buf_ok b1" "queue_step x (readable b) = Inr (readable b1)"
      using buf_step_refines [OF Cons.prems(1), of x] Cons.prems(2) by simp_all
    then show ?thesis using Cons.IH [of b1] Inr Cons.prems(2) by (cases "buf_run xs b1") simp_all
  qed
qed

theorem buffer_refines_queue_witness:
  "buf_ok (Buffer_new 4) \<and>
   (case buf_run [BAppend ''abc'', BRetrieve 2, BReadFd ''defgh'', BRetrieve 1] (Buffer_new 4) of
      Inl e \<Rightarrow> False
    | Inr b' \<Rightarrow> buf_ok b' \<and> readable b' = ''defgh'')"
  using buffer_refines_queue [of "Buffer_new 4" "[BAppend ''abc'', BRetrieve 2, BReadFd ''defgh'', BRetrieve 1]"]
  by (simp add: extra_buff_size_def split: sum.splits)

end
