(* ===== verification/Http_Response.thy ===== *)
theory Http_Response
  imports Byte_Buffer
begin

text \<open>
  \<open>http::HttpResponse\<close> (\<open>HttpServer/include/http/HttpResponse.h\<close>,
  \<open>HttpServer/src/http/HttpResponse.cpp\<close>): the response a handler fills in, and its
  serialisation \<open>appendToBuffer\<close>. The headers are a \<open>std::map\<close>, kept as an ordered association
  list because serialisation iterates it. The status-line text is formatted into a 32-byte
  array by \<open>snprintf\<close>, which keeps the first 31 characters.
\<close>

datatype HttpStatusCode =
    kUnknown
  | k200Ok
  | k204NoContent
  | k301MovedPermanently
  | k400BadRequest
  | k401Unauthorized
  | k403Forbidden
  | k404NotFound
  | k409Conflict
  | k500InternalServerError

fun code_value :: "HttpStatusCode \<Rightarrow> nat" where
  "code_value kUnknown = 0"
| "code_value k200Ok = 200"
| "code_value k204NoContent = 204"
| "code_value k301MovedPermanently = 301"
| "code_value k400BadRequest = 400"
| "code_value k401Unauthorized = 401"
| "code_value k403Forbidden = 403"
| "code_value k404NotFound = 404"
| "code_value k409Conflict = 409"
| "code_value k500InternalServerError = 500"

record HttpResponse =
  rsp_httpVersion :: string
  rsp_statusCode :: HttpStatusCode
  rsp_statusMessage :: string
  rsp_closeConnection :: bool
  rsp_headers :: "(string \<times> string) list"
  rsp_body :: string

definition HttpResponse_new :: "bool \<Rightarrow> HttpResponse" where
  "HttpResponse_new close =
     \<lparr>rsp_httpVersion = [], rsp_statusCode = kUnknown, rsp_statusMessage = [],
      rsp_closeConnection = close, rsp_headers = [], rsp_body = []\<rparr>"

definition rsp_setVersion :: "string \<Rightarrow> HttpResponse \<Rightarrow> HttpResponse" where
  "rsp_setVersion v p = p\<lparr>rsp_httpVersion := v\<rparr>"

definition setStatusCode :: "HttpStatusCode \<Rightarrow> HttpResponse \<Rightarrow> HttpResponse" where
  "setStatusCode c p = p\<lparr>rsp_statusCode := c\<rparr>"

definition setStatusMessage :: "string \<Rightarrow> HttpResponse \<Rightarrow> HttpResponse" where
  "setStatusMessage m p = p\<lparr>rsp_statusMessage := m\<rparr>"

definition setCloseConnection :: "bool \<Rightarrow> HttpResponse \<Rightarrow> HttpResponse" where
  "setCloseConnection on p = p\<lparr>rsp_closeConnection := on\<rparr>"

definition rsp_addHeader :: "string \<Rightarrow> string \<Rightarrow> HttpResponse \<Rightarrow> HttpResponse" where
  "rsp_addHeader k v p = p\<lparr>rsp_headers := smap_put k v (rsp_headers p)\<rparr>"

definition rsp_setContentType :: "string \<Rightarrow> HttpResponse \<Rightarrow> HttpResponse" where
  "rsp_setContentType t p = rsp_addHeader ''Content-Type'' t p"

definition rsp_setContentLength :: "nat \<Rightarrow> HttpResponse \<Rightarrow> HttpResponse" where
  "rsp_setContentLength n p = rsp_addHeader ''Content-Length'' (string_of_nat n) p"

definition rsp_setBody :: "string \<Rightarrow> HttpResponse \<Rightarrow> HttpResponse" where
  "rsp_setBody b p = p\<lparr>rsp_body := b\<rparr>"

definition setStatusLine :: "string \<Rightarrow> HttpStatusCode \<Rightarrow> string \<Rightarrow> HttpResponse \<Rightarrow> HttpResponse" where
  "setStatusLine v c m p = p\<lparr>rsp_httpVersion := v, rsp_statusCode := c, rsp_statusMessage := m\<rparr>"

text \<open>\<open>snprintf(buf, 32, "%s %d ", ...)\<close>; \<open>%s\<close> reads the version up to its first zero byte.\<close>

definition status_buf :: "HttpResponse \<Rightarrow> string" where
  "status_buf p =
     take 31 (c_str (rsp_httpVersion p) @ '' '' @ string_of_nat (code_value (rsp_statusCode p)) @ '' '')"

definition header_line :: "string \<times> string \<Rightarrow> string" where
  "header_line kv = fst kv @ '': '' @ snd kv @ crlf"

definition appendToBuffer :: "'b buffer_ops \<Rightarrow> HttpResponse \<Rightarrow> 'b \<Rightarrow> 'b" where
  "appendToBuffer B p buf =
     (let b1 = op_append B (status_buf p) buf;
          b2 = op_append B (rsp_statusMessage p) b1;
          b3 = op_append B crlf b2;
          b4 = (if rsp_closeConnection p
                then op_append B (''Connection: close'' @ crlf) b3
                else op_append B (''Connection: Keep-Alive'' @ crlf) b3);
          b5 = fold (\<lambda>h b. op_append B crlf (op_append B (snd h) (op_append B '': '' (op_append B (fst h) b))))
                 (rsp_headers p) b4;
          b6 = op_append B crlf b5
      in op_append B (rsp_body p) b6)"

section \<open>What is serialised\<close>

definition response_bytes :: "HttpResponse \<Rightarrow> string" where
  "response_bytes p =
     status_buf p @ rsp_statusMessage p @ crlf
     @ (if rsp_closeConnection p then ''Connection: close'' else ''Connection: Keep-Alive'') @ crlf
     @ concat (map header_line (rsp_headers p)) @ crlf @ rsp_body p"

lemmas rsp_setters = rsp_setVersion_def setStatusCode_def setStatusMessage_def setCloseConnection_def
  rsp_setContentType_def rsp_setContentLength_def rsp_setBody_def setStatusLine_def

lemma code_value_less: "code_value c < 1000"
  by (cases c) auto

context net_buffer
begin

lemma fold_headers_peek:
  "ok b \<Longrightarrow>
   let b' = fold (\<lambda>h b. op_append B crlf (op_append B (snd h) (op_append B '': '' (op_append B (fst h) b)))) hs b
   in op_peek B b' = op_peek B b @ concat (map header_line hs) \<and> ok b'"
proof (induction hs arbitrary: b)
  case Nil
  then show ?case by simp
next
  case (Cons h hs)
  let ?b = "op_append B crlf (op_append B (snd h) (op_append B '': '' (op_append B (fst h) b)))"
  have "ok ?b" "op_peek B ?b = op_peek B b @ header_line h"
    using Cons.prems by (simp_all add: append ok_append header_line_def)
  with Cons.IH [of ?b] show ?case by (simp add: Let_def)
qed

lemma appendToBuffer_peek:
  assumes "ok b"
  shows "op_peek B (appendToBuffer B p b) = op_peek B b @ response_bytes p"
    and "ok (appendToBuffer B p b)"
  using assms
  by (simp_all add: appendToBuffer_def response_bytes_def Let_def append ok_append
      fold_headers_peek [unfolded Let_def])

end

section \<open>Reading the bytes back\<close>

text \<open>
  A reader of the response: the lines up to the first empty one, then the body. It is the
  inverse the framing of the response has to admit.
\<close>

function read_head :: "string \<Rightarrow> (string list \<times> string) option" where
  "read_head s =
     (case find_str crlf s of
        None \<Rightarrow> None
      | Some 0 \<Rightarrow> Some ([], drop 2 s)
      | Some (Suc i) \<Rightarrow> map_option (\<lambda>(ls, body). (take (Suc i) s # ls, body)) (read_head (drop (Suc i + 2) s)))"
  by pat_completeness auto
termination
  by (relation "measure length") (auto dest: find_str_bound)

declare read_head.simps [simp del]

lemma read_head_line:
  assumes "CHR 0x0D \<notin> set l" "l \<noteq> []"
  shows "read_head (l @ crlf @ s) = map_option (\<lambda>(ls, body). (l # ls, body)) (read_head s)"
proof -
  obtain n where n: "length l = Suc n" using assms(2) by (cases l) auto
  have "find_str crlf (l @ crlf @ s) = Some (Suc n)" using assms(1) n by simp
  then show ?thesis using n by (subst read_head.simps) simp
qed

lemma read_head_blank: "read_head (crlf @ s) = Some ([], s)"
  by (subst read_head.simps) simp

definition no_cr :: "string \<Rightarrow> bool" where
  "no_cr s \<longleftrightarrow> CHR 0x0D \<notin> set s"

lemma read_head_headers:
  assumes "\<forall>h \<in> set hs. no_cr (fst h) \<and> no_cr (snd h)"
  shows "read_head (concat (map header_line hs) @ crlf @ body) = Some (map (\<lambda>h. fst h @ '': '' @ snd h) hs, body)"
  using assms
proof (induction hs)
  case Nil
  then show ?case using read_head_blank [of body] by simp
next
  case (Cons h hs)
  have "CHR 0x0D \<notin> set (fst h @ '': '' @ snd h)" using Cons.prems by (simp add: no_cr_def)
  with Cons show ?case
    using read_head_line [of "fst h @ '': '' @ snd h" "concat (map header_line hs) @ crlf @ body"]
    by (simp add: header_line_def [of h])
qed

lemma string_of_nat_no_cr: "no_cr (string_of_nat n)"
  unfolding no_cr_def using string_of_nat_digits [of n] by (auto simp: c_isdigit_def)

lemma status_buf_no_cr: "no_cr (rsp_httpVersion p) \<Longrightarrow> no_cr (status_buf p)"
  using string_of_nat_no_cr [of "code_value (rsp_statusCode p)"]
  by (auto simp: no_cr_def status_buf_def c_str_def dest!: in_set_takeD set_takeWhileD)

lemma status_buf_neq_Nil [simp]: "status_buf p \<noteq> []"
  by (simp add: status_buf_def)

text \<open>
  C22: \<open>HttpResponse::appendToBuffer\<close> writes a well-framed message: whatever the buffer held, what
  it adds reads back as a status line, a \<open>Connection\<close> line that says whether the connection
  closes, one line per header in key order, and exactly the body, provided no header, version or
  status message contains a carriage return (the code does not check that).
\<close>

theorem appendToBuffer_reads_back:
  assumes "net_buffer B ok" "ok b"
    and "no_cr (rsp_httpVersion p)" "no_cr (rsp_statusMessage p)"
    and "\<forall>h \<in> set (rsp_headers p). no_cr (fst h) \<and> no_cr (snd h)"
  shows "\<exists>bytes. op_peek B (appendToBuffer B p b) = op_peek B b @ bytes \<and>
           read_head bytes =
             Some ((status_buf p @ rsp_statusMessage p)
                   # (if rsp_closeConnection p then ''Connection: close'' else ''Connection: Keep-Alive'')
                   # map (\<lambda>h. fst h @ '': '' @ snd h) (rsp_headers p),
                   rsp_body p)"
proof (intro exI conjI)
  show "op_peek B (appendToBuffer B p b) = op_peek B b @ response_bytes p"
    by (rule net_buffer.appendToBuffer_peek(1) [OF assms(1,2)])
  let ?conn = "if rsp_closeConnection p then ''Connection: close'' else ''Connection: Keep-Alive''"
  let ?rest = "concat (map header_line (rsp_headers p)) @ crlf @ rsp_body p"
  have "CHR 0x0D \<notin> set (status_buf p @ rsp_statusMessage p)"
    using assms(4) status_buf_no_cr [OF assms(3)] by (simp add: no_cr_def)
  then have "read_head (response_bytes p)
      = map_option (\<lambda>(ls, body). ((status_buf p @ rsp_statusMessage p) # ls, body)) (read_head (?conn @ crlf @ ?rest))"
    using read_head_line [of "status_buf p @ rsp_statusMessage p" "?conn @ crlf @ ?rest"]
    by (simp add: response_bytes_def)
  also have "read_head (?conn @ crlf @ ?rest) = map_option (\<lambda>(ls, body). (?conn # ls, body)) (read_head ?rest)"
    by (rule read_head_line) simp_all
  finally show "read_head (response_bytes p) = Some ((status_buf p @ rsp_statusMessage p) # ?conn
      # map (\<lambda>h. fst h @ '': '' @ snd h) (rsp_headers p), rsp_body p)"
    using read_head_headers [OF assms(5), of "rsp_body p"] by simp
qed

definition sample_response :: HttpResponse where
  "sample_response =
     rsp_setBody ''hi'' (rsp_setContentLength 2 (rsp_setContentType ''text/html''
       (setStatusLine ''HTTP/1.1'' k200Ok ''OK'' (HttpResponse_new False))))"

theorem appendToBuffer_reads_back_witness:
  "\<exists>bytes. readable (appendToBuffer Buffer_ops sample_response (Buffer_new 8)) = bytes \<and>
     read_head bytes = Some ([''HTTP/1.1 200 OK'', ''Connection: Keep-Alive'', ''Content-Length: 2'',
                              ''Content-Type: text/html''], ''hi'')"
proof -
  have num: "string_of_nat 200 = ''200''" "string_of_nat 2 = ''2''"
    by code_simp+
  show ?thesis
    using appendToBuffer_reads_back [of Buffer_ops buf_ok "Buffer_new 8" sample_response]
      web_buffer.net_buffer_axioms
    by (simp add: sample_response_def rsp_setters rsp_addHeader_def HttpResponse_new_def no_cr_def
        status_buf_def c_str_def num)
qed

end
