(* ===== verification/Http_Context.thy ===== *)
theory Http_Context
  imports Http_Request Http_Response
begin

text \<open>
  \<open>http::HttpContext\<close> (\<open>HttpServer/include/http/HttpContext.h\<close>,
  \<open>HttpServer/src/http/HttpContext.cpp\<close>): the incremental request parser of a connection. One
  pass of the body of its \<open>while\<close> loop is \<open>parse_step\<close>, which says whether the loop goes on
  (\<open>More\<close>), ends with the value of \<open>ok\<close> (\<open>Done\<close>) or is left by a fault (\<open>Throw\<close>), with the
  context and the buffer at that point; the loop is \<open>parseRequest\<close>, where not returning is the
  value \<open>None\<close>. The lemmas show when the loop returns, that the parser sees a buffer only as the
  bytes it holds, that the way a request is cut into segments does not matter, and that the text
  of a request parses to that request.
\<close>

datatype HttpRequestParseState = kExpectRequestLine | kExpectHeaders | kExpectBody | kGotAll

record HttpContext =
  ctx_state :: HttpRequestParseState
  ctx_request :: HttpRequest

definition HttpContext_new :: HttpContext where
  "HttpContext_new = \<lparr>ctx_state = kExpectRequestLine, ctx_request = HttpRequest_new\<rparr>"

definition gotAll :: "HttpContext \<Rightarrow> bool" where
  "gotAll c \<longleftrightarrow> ctx_state c = kGotAll"

definition reset :: "HttpContext \<Rightarrow> HttpContext" where
  "reset c =
     (let c1 = c\<lparr>ctx_state := kExpectRequestLine\<rparr>;
          dummyData = HttpRequest_new
      in c1\<lparr>ctx_request := fst (swap (ctx_request c1) dummyData)\<rparr>)"

text \<open>\<open>line\<close> is the text \<open>[begin, end)\<close>; the result is \<open>succeed\<close> and the request as it was left.\<close>

definition processRequestLine :: "string \<Rightarrow> HttpRequest \<Rightarrow> (bool \<times> HttpRequest) res" where
  "processRequestLine line r =
     (case find_char (CHR '' '') line of
        None \<Rightarrow> Inr (False, r)
      | Some space \<Rightarrow>
          bind_res (setMethod (take space line) r) (\<lambda>(known, r1).
            if \<not> known then Inr (False, r1)
            else
              let start = drop (space + 1) line in
              case find_char (CHR '' '') start of
                None \<Rightarrow> Inr (False, r1)
              | Some space2 \<Rightarrow>
                  let target = take space2 start;
                      r2 = (case find_char (CHR ''?'') target of
                              Some argumentStart \<Rightarrow>
                                setQueryParameters (drop (argumentStart + 1) target)
                                  (setPath (take argumentStart target) r1)
                            | None \<Rightarrow> setPath target r1);
                      version = drop (space2 + 1) start
                  in if length version = 8 \<and> take 7 version = ''HTTP/1.''
                     then (if version ! 7 = CHR ''1'' then Inr (True, setVersion ''HTTP/1.1'' r2)
                           else if version ! 7 = CHR ''0'' then Inr (True, setVersion ''HTTP/1.0'' r2)
                           else Inr (False, r2))
                     else Inr (False, r2)))"

datatype 'b iteration =
    More HttpContext 'b
  | Done bool HttpContext 'b
  | Throw fault HttpContext 'b

text \<open>The three branches of the loop body.\<close>

definition step_request_line :: "'b buffer_ops \<Rightarrow> Timestamp \<Rightarrow> HttpContext \<Rightarrow> 'b \<Rightarrow> 'b iteration" where
  "step_request_line B receiveTime c buf =
     (case op_findCRLF B buf of
        None \<Rightarrow> Done True c buf
      | Some eol \<Rightarrow>
          (case processRequestLine (take eol (op_peek B buf)) (ctx_request c) of
             Inl e \<Rightarrow> Throw e c buf
           | Inr (succeed, r) \<Rightarrow>
               if succeed
               then More (c\<lparr>ctx_request := setReceiveTime receiveTime r, ctx_state := kExpectHeaders\<rparr>)
                      (op_retrieveUntil B (eol + 2) buf)
               else Done False (c\<lparr>ctx_request := r\<rparr>) buf))"

definition end_of_headers :: "HttpContext \<Rightarrow> 'b \<Rightarrow> 'b \<Rightarrow> 'b iteration" where
  "end_of_headers c buf buf' =
     (let r = ctx_request c in
      if req_method r = kPost \<or> req_method r = kPut
      then
        let contentLength = getHeader ''Content-Length'' r in
        if contentLength \<noteq> []
        then
          (case stoi contentLength of
             Inl e \<Rightarrow> Throw e c buf
           | Inr n \<Rightarrow>
               let r' = setContentLength (of_int n) r in
               if 0 < req_contentLength r'
               then More (c\<lparr>ctx_request := r', ctx_state := kExpectBody\<rparr>) buf'
               else Done True (c\<lparr>ctx_request := r', ctx_state := kGotAll\<rparr>) buf')
        else Done False c buf'
      else Done True (c\<lparr>ctx_state := kGotAll\<rparr>) buf')"

definition step_headers :: "'b buffer_ops \<Rightarrow> HttpContext \<Rightarrow> 'b \<Rightarrow> 'b iteration" where
  "step_headers B c buf =
     (case op_findCRLF B buf of
        None \<Rightarrow> Done True c buf
      | Some eol \<Rightarrow>
          let line = take eol (op_peek B buf);
              buf' = op_retrieveUntil B (eol + 2) buf
          in (case find_char (CHR '':'') line of
                Some colon \<Rightarrow> More (c\<lparr>ctx_request := addHeader line colon (ctx_request c)\<rparr>) buf'
              | None \<Rightarrow>
                  if eol = 0 then end_of_headers c buf buf'
                  else Done False c buf'))"

definition step_body :: "'b buffer_ops \<Rightarrow> HttpContext \<Rightarrow> 'b \<Rightarrow> 'b iteration" where
  "step_body B c buf =
     (let n = unat (req_contentLength (ctx_request c)) in
      if length (op_peek B buf) < n then Done True c buf
      else
        let body = take n (op_peek B buf)
        in Done True (c\<lparr>ctx_request := setBody body (ctx_request c), ctx_state := kGotAll\<rparr>)
             (op_retrieve B n buf))"

definition parse_step :: "'b buffer_ops \<Rightarrow> Timestamp \<Rightarrow> HttpContext \<Rightarrow> 'b \<Rightarrow> 'b iteration" where
  "parse_step B receiveTime c buf =
     (case ctx_state c of
        kExpectRequestLine \<Rightarrow> step_request_line B receiveTime c buf
      | kExpectHeaders \<Rightarrow> step_headers B c buf
      | kExpectBody \<Rightarrow> step_body B c buf
      | kGotAll \<Rightarrow> More c buf)"

partial_function (option)
  parseRequest :: "'b buffer_ops \<Rightarrow> Timestamp \<Rightarrow> HttpContext \<Rightarrow> 'b \<Rightarrow> ((fault + bool) \<times> HttpContext \<times> 'b) option"
where
  "parseRequest B receiveTime c buf =
     (case parse_step B receiveTime c buf of
        More c' buf' \<Rightarrow> parseRequest B receiveTime c' buf'
      | Done ok c' buf' \<Rightarrow> Some (Inr ok, c', buf')
      | Throw e c' buf' \<Rightarrow> Some (Inl e, c', buf'))"

section \<open>Bytes are all the parser sees\<close>

text \<open>The plainest buffer: the bytes themselves.\<close>

definition string_ops :: "string buffer_ops" where
  "string_ops =
     \<lparr>op_new = [], op_peek = (\<lambda>s. s), op_findCRLF = find_str crlf, op_retrieve = drop, op_retrieveUntil = drop,
      op_append = (\<lambda>s b. b @ s)\<rparr>"

lemma string_ops_simps [simp]:
  "op_new string_ops = []"
  "op_peek string_ops s = s"
  "op_findCRLF string_ops s = find_str crlf s"
  "op_retrieve string_ops n s = drop n s"
  "op_retrieveUntil string_ops n s = drop n s"
  "op_append string_ops a s = s @ a"
  by (simp_all add: string_ops_def)

interpretation byte_string: net_buffer string_ops "\<lambda>_. True"
  by unfold_locales simp_all

lemmas step_defs = parse_step_def step_request_line_def step_headers_def step_body_def
  end_of_headers_def Let_def

text \<open>Every pass that goes on has consumed a line, unless the request was complete on entry.\<close>

lemma parse_step_string_shorter:
  "parse_step string_ops t c s = More c' s' \<Longrightarrow> ctx_state c \<noteq> kGotAll \<Longrightarrow>
     length s' < length s \<and> ctx_state c' \<noteq> kGotAll"
  by (auto simp: step_defs split: HttpRequestParseState.splits option.splits sum.splits if_splits
      dest!: find_str_bound)

lemma parse_step_gotAll: "ctx_state c = kGotAll \<Longrightarrow> parse_step B t c b = More c b"
  by (simp add: parse_step_def)

context net_buffer
begin

lemma end_of_headers_peek:
  "map_iteration (op_peek B) (end_of_headers c b b') = end_of_headers c (op_peek B b) (op_peek B b')"
  "x \<in> set_iteration (end_of_headers c b b') \<Longrightarrow> x = b \<or> x = b'"
  by (auto simp: end_of_headers_def Let_def split: if_splits sum.splits)

lemma step_request_line_peek:
  assumes "ok b"
  shows "map_iteration (op_peek B) (step_request_line B t c b) = step_request_line string_ops t c (op_peek B b)"
    and "x \<in> set_iteration (step_request_line B t c b) \<Longrightarrow> ok x"
  using assms line_bound [OF assms]
  by (auto simp: step_request_line_def findCRLF retrieveUntil ok_retrieveUntil
      split: option.splits sum.splits if_splits prod.splits)

lemma step_headers_peek:
  assumes "ok b"
  shows "map_iteration (op_peek B) (step_headers B c b) = step_headers string_ops c (op_peek B b)"
    and "x \<in> set_iteration (step_headers B c b) \<Longrightarrow> ok x"
proof (atomize (full), cases "op_findCRLF B b")
  case None
  with assms show "map_iteration (op_peek B) (step_headers B c b) = step_headers string_ops c (op_peek B b)
      \<and> (x \<in> set_iteration (step_headers B c b) \<longrightarrow> ok x)"
    by (simp add: step_headers_def findCRLF)
next
  case (Some i)
  then have "i + 2 \<le> length (op_peek B b)" "find_str crlf (op_peek B b) = Some i"
    using line_bound [OF assms] findCRLF [OF assms] by simp_all
  with Some assms show "map_iteration (op_peek B) (step_headers B c b) = step_headers string_ops c (op_peek B b)
      \<and> (x \<in> set_iteration (step_headers B c b) \<longrightarrow> ok x)"
    by (cases "find_char (CHR '':'') (take i (op_peek B b))")
      (auto simp: step_headers_def Let_def retrieveUntil ok_retrieveUntil end_of_headers_peek(1)
        dest!: end_of_headers_peek(2))
qed

lemma step_body_peek:
  assumes "ok b"
  shows "map_iteration (op_peek B) (step_body B c b) = step_body string_ops c (op_peek B b)"
    and "x \<in> set_iteration (step_body B c b) \<Longrightarrow> ok x"
  using assms by (auto simp: step_body_def Let_def retrieve ok_retrieve split: if_splits)

lemma parse_step_peek:
  assumes "ok b"
  shows "map_iteration (op_peek B) (parse_step B t c b) = parse_step string_ops t c (op_peek B b)"
    and "x \<in> set_iteration (parse_step B t c b) \<Longrightarrow> ok x"
  using step_request_line_peek [OF assms] step_headers_peek [OF assms] step_body_peek [OF assms] assms
  by (cases "ctx_state c"; simp add: parse_step_def; fail)+

lemma parseRequest_returns:
  assumes "ok b" "ctx_state c \<noteq> kGotAll"
  shows "\<exists>x c' b'. parseRequest B t c b = Some (x, c', b') \<and> ok b' \<and>
           parseRequest string_ops t c (op_peek B b) = Some (x, c', op_peek B b')"
  using assms
proof (induction "length (op_peek B b)" arbitrary: b c rule: less_induct)
  case less
  note step = parse_step_peek [OF less.prems(1), where t = t and c = c]
  have unf: "parseRequest string_ops t c (op_peek B b) =
      (case map_iteration (op_peek B) (parse_step B t c b) of
        More c' buf' \<Rightarrow> parseRequest string_ops t c' buf'
      | Done ok c' buf' \<Rightarrow> Some (Inr ok, c', buf')
      | Throw e c' buf' \<Rightarrow> Some (Inl e, c', buf'))"
    by (subst parseRequest.simps) (simp only: step(1))
  show ?case
  proof (cases "parse_step B t c b")
    case (More c1 b1)
    then have m: "parse_step string_ops t c (op_peek B b) = More c1 (op_peek B b1)" "ok b1"
      using step by (metis iteration.map(1), simp)
    with parse_step_string_shorter [OF m(1) less.prems(2)] less.hyps [of b1 c1]
    show ?thesis using More unf by (simp add: parseRequest.simps [of B t c b])
  next
    case (Done x c1 b1)
    then show ?thesis using unf step(2) [of b1] by (simp add: parseRequest.simps [of B t c b])
  next
    case (Throw e c1 b1)
    then show ?thesis using unf step(2) [of b1] by (simp add: parseRequest.simps [of B t c b])
  qed
qed

end

lemma parseRequest_None: "ctx_state c = kGotAll \<Longrightarrow> parseRequest B t c b = None"
proof (rule ccontr)
  assume got: "ctx_state c = kGotAll" and "parseRequest B t c b \<noteq> None"
  then obtain y where y: "parseRequest B t c b = Some y" by blast
  have "ctx_state c \<noteq> kGotAll"
    by (rule parseRequest.raw_induct [OF _ y, where P = "\<lambda>B t c b y. ctx_state c \<noteq> kGotAll"])
      (auto simp: parse_step_gotAll split: iteration.splits)
  with got show False by simp
qed

text \<open>A fault leaves a context that still expects something; it is the assertion in \<open>setMethod\<close> or an exception of \<open>stoi\<close>.\<close>

definition parse_fault :: "fault \<Rightarrow> bool" where
  "parse_fault f \<longleftrightarrow> f = Assertion_Failure \<or> (\<exists>e. f = Exception e)"

lemma processRequestLine_fault: "processRequestLine line r = Inl f \<Longrightarrow> parse_fault f"
  by (cases "req_method r = kInvalid")
    (auto simp: processRequestLine_def setMethod_def parse_fault_def assert_res_def Let_def split: option.splits if_splits)

lemma stoi_fault: "stoi s = Inl f \<Longrightarrow> parse_fault f"
  by (auto simp: stoi_def parse_fault_def Let_def split: option.splits if_splits)

lemma parse_step_fault:
  "parse_step B t c b = Throw f c' b' \<Longrightarrow> ctx_state c' \<noteq> kGotAll \<and> parse_fault f"
  by (auto simp: step_defs processRequestLine_fault stoi_fault
      split: HttpRequestParseState.splits option.splits sum.splits if_splits prod.splits)

lemma parseRequest_fault:
  assumes "parseRequest B t c b = Some y" "y = (Inl f, c', b')"
  shows "\<not> gotAll c' \<and> parse_fault f"
proof -
  have "\<forall>f c' b'. y = (Inl f, c', b') \<longrightarrow> \<not> gotAll c' \<and> parse_fault f"
    by (rule parseRequest.raw_induct [OF _ assms(1),
          where P = "\<lambda>B t c b y. \<forall>f c' b'. y = (Inl f, c', b') \<longrightarrow> \<not> gotAll c' \<and> parse_fault f"])
      (auto simp: gotAll_def dest!: parse_step_fault split: iteration.splits)
  then show ?thesis using assms(2) by simp
qed

text \<open>
  C35: The parse loop of \<open>HttpContext::parseRequest\<close> returns exactly when the context has not
  already got a whole request: with any buffer that keeps its contract it returns from each of
  the three expecting states, and entered in state \<open>kGotAll\<close> it never returns.
\<close>

theorem parseRequest_returns_iff:
  assumes "net_buffer B ok" "ok b"
  shows "(\<exists>y. parseRequest B t c b = Some y) \<longleftrightarrow> \<not> gotAll c"
  using net_buffer.parseRequest_returns [OF assms, of c t] parseRequest_None [of c B t b]
  by (auto simp: gotAll_def)

theorem parseRequest_returns_iff_witness:
  "(\<exists>y. parseRequest Buffer_ops 5 HttpContext_new (Buffer_new 16) = Some y) \<longleftrightarrow> \<not> gotAll HttpContext_new"
  using parseRequest_returns_iff [OF web_buffer.net_buffer_axioms, of "Buffer_new 16"] by simp

section \<open>Segmentation\<close>

lemma step_request_line_append:
  "find_str crlf s = Some i \<Longrightarrow>
   step_request_line string_ops t c (s @ u) = map_iteration (\<lambda>b. b @ u) (step_request_line string_ops t c s)"
  using find_str_append_Some [of crlf s i u] find_str_bound [of crlf s i]
  by (auto simp: step_request_line_def split: sum.splits)

lemma step_headers_append:
  "find_str crlf s = Some i \<Longrightarrow>
   step_headers string_ops c (s @ u) = map_iteration (\<lambda>b. b @ u) (step_headers string_ops c s)"
  using find_str_append_Some [of crlf s i u] find_str_bound [of crlf s i]
  by (auto simp: step_headers_def end_of_headers_def Let_def split: option.splits sum.splits)

lemma step_body_append:
  "unat (req_contentLength (ctx_request c)) \<le> length s \<Longrightarrow>
   step_body string_ops c (s @ u) = map_iteration (\<lambda>b. b @ u) (step_body string_ops c s)"
  by (simp add: step_body_def Let_def)

text \<open>A context waits on bytes that hold no complete line, or not the whole body.\<close>

definition waits :: "HttpContext \<Rightarrow> string \<Rightarrow> bool" where
  "waits c s \<longleftrightarrow> (if ctx_state c = kExpectBody then length s < unat (req_contentLength (ctx_request c))
                  else find_str crlf s = None)"

lemma parse_step_waits:
  "ctx_state c \<noteq> kGotAll \<Longrightarrow> waits c s \<Longrightarrow> parse_step string_ops t c s = Done True c s"
  by (cases "ctx_state c")
    (simp_all add: waits_def parse_step_def step_request_line_def step_headers_def step_body_def)

lemma parse_step_append:
  "ctx_state c \<noteq> kGotAll \<Longrightarrow> \<not> waits c s \<Longrightarrow>
   parse_step string_ops t c (s @ u) = map_iteration (\<lambda>b. b @ u) (parse_step string_ops t c s)"
  by (cases "ctx_state c")
    (auto simp: waits_def parse_step_def step_request_line_append step_headers_append step_body_append)

lemma not_waits_done:
  "parse_step string_ops t c s = Done True c' s' \<Longrightarrow> \<not> waits c s \<Longrightarrow> ctx_state c' = kGotAll"
  by (cases "ctx_state c")
    (auto simp: waits_def parse_step_def step_request_line_def step_headers_def step_body_def
       end_of_headers_def Let_def split: option.splits sum.splits if_splits)

text \<open>The outcome on which the server waits for more bytes.\<close>

definition waiting :: "(fault + bool) \<times> HttpContext \<times> 'b \<Rightarrow> bool" where
  "waiting y \<longleftrightarrow> fst y = Inr True \<and> \<not> gotAll (fst (snd y))"

lemma parseRequest_append:
  assumes "ctx_state c \<noteq> kGotAll"
  shows "parseRequest string_ops t c (s @ u) =
    (case parseRequest string_ops t c s of
       None \<Rightarrow> None
     | Some (x, c', s') \<Rightarrow>
         if waiting (x, c', s') then parseRequest string_ops t c' (s' @ u) else Some (x, c', s' @ u))"
  using assms
proof (induction "length s" arbitrary: s c rule: less_induct)
  case less
  show ?case
  proof (cases "waits c s")
    case True
    then have "parseRequest string_ops t c s = Some (Inr True, c, s)"
      using parse_step_waits [OF less.prems True, of t] by (simp add: parseRequest.simps)
    then show ?thesis using less.prems by (simp add: waiting_def gotAll_def)
  next
    case False
    note app = parse_step_append [OF less.prems False, of t u]
    show ?thesis
    proof (cases "parse_step string_ops t c s")
      case (More c1 s1)
      note sh = parse_step_string_shorter [OF More less.prems]
      show ?thesis
        using less.hyps [of s1 c1] sh app More
        by (simp add: parseRequest.simps [of string_ops t c "s @ u"] parseRequest.simps [of string_ops t c s])
    next
      case (Done x c1 s1)
      then show ?thesis
        using app not_waits_done [OF _ False, of t c1 s1]
        by (cases x) (simp_all add: parseRequest.simps [of string_ops t c] waiting_def gotAll_def)
    next
      case (Throw e c1 s1)
      then show ?thesis
        using app by (simp add: parseRequest.simps [of string_ops t c] waiting_def)
    qed
  qed
qed

text \<open>The bytes of a request arriving in segments: each is appended and parsed while more is needed.\<close>

fun feed :: "'b buffer_ops \<Rightarrow> Timestamp \<Rightarrow> string list \<Rightarrow> HttpContext \<Rightarrow> 'b
             \<Rightarrow> ((fault + bool) \<times> HttpContext \<times> 'b) option" where
  "feed B t [] c b = Some (Inr True, c, b)"
| "feed B t (s # ss) c b =
     (case parseRequest B t c (op_append B s b) of
        None \<Rightarrow> None
      | Some (x, c', b') \<Rightarrow>
          if waiting (x, c', b') then feed B t ss c' b' else Some (x, c', fold (op_append B) ss b'))"

context net_buffer
begin

lemma feed_peek:
  assumes "ok b" "ctx_state c \<noteq> kGotAll"
  shows "\<exists>x c' b'. feed B t (s # ss) c b = Some (x, c', b') \<and> ok b' \<and>
     parseRequest string_ops t c (op_peek B b @ concat (s # ss)) = Some (x, c', op_peek B b')"
  using assms
proof (induction ss arbitrary: s b c)
  case Nil
  then show ?case
    using parseRequest_returns [of "op_append B s b" c t] by (auto simp: append ok_append waiting_def)
next
  case (Cons s2 ss)
  obtain x c1 b1 where p: "parseRequest B t c (op_append B s b) = Some (x, c1, b1)" "ok b1"
      "parseRequest string_ops t c (op_peek B b @ s) = Some (x, c1, op_peek B b1)"
    using parseRequest_returns [of "op_append B s b" c t] Cons.prems by (auto simp: append ok_append)
  have app: "parseRequest string_ops t c (op_peek B b @ concat (s # s2 # ss)) =
      (if waiting (x, c1, op_peek B b1)
       then parseRequest string_ops t c1 (op_peek B b1 @ concat (s2 # ss))
       else Some (x, c1, op_peek B b1 @ concat (s2 # ss)))"
    using parseRequest_append [OF Cons.prems(2), of t "op_peek B b @ s" "concat (s2 # ss)"] p(3) by simp
  show ?case
  proof (cases "waiting (x, c1, b1)")
    case True
    then have "ctx_state c1 \<noteq> kGotAll" by (simp add: waiting_def gotAll_def)
    from Cons.IH [OF p(2) this, of s2] show ?thesis
      using True app p(1) by (simp add: waiting_def)
  next
    case False
    moreover have "\<not> waiting (x, c1, op_peek B b1)" using False by (simp add: waiting_def)
    ultimately show ?thesis
      using app p(1,2) appends_peek [OF p(2), of "s2 # ss"] by simp
  qed
qed

lemma feed_once:
  assumes "ok b" "ctx_state c \<noteq> kGotAll"
  shows "map_option (\<lambda>(x, c', b'). (x, c', op_peek B b')) (feed B t (s # ss) c b)
       = map_option (\<lambda>(x, c', b'). (x, c', op_peek B b')) (parseRequest B t c (op_append B (concat (s # ss)) b))"
  using feed_peek [OF assms, of t s ss] parseRequest_returns [of "op_append B (concat (s # ss)) b" c t] assms
  by (auto simp: append ok_append)

end

text \<open>
  C3: Segmentation does not matter to \<open>HttpContext::parseRequest\<close>. Feeding the bytes of a
  request in segments, parsing after each arrival as \<open>HttpServer::onMessage\<close> does and stopping
  at the first outcome that is not a wait, gives the same outcome, the same context and the same
  remaining bytes as one call on all of them, wherever the cuts are (inside a line, a CRLF or the
  body), for well-formed and malformed input alike.
\<close>

theorem parseRequest_segments:
  assumes "net_buffer B ok" "ok b" "\<not> gotAll c"
  shows "map_option (\<lambda>(x, c', b'). (x, c', op_peek B b')) (feed B t (s # ss) c b)
       = map_option (\<lambda>(x, c', b'). (x, c', op_peek B b')) (parseRequest B t c (op_append B (concat (s # ss)) b))"
  using net_buffer.feed_once [OF assms(1,2), of c t s ss] assms(3) by (simp add: gotAll_def)

theorem parseRequest_segments_witness:
  "map_option (\<lambda>(x, c', b'). (x, c', readable b')) (feed Buffer_ops 7 [''GET / HT'', ''TP/1.1''] HttpContext_new (Buffer_new 8))
   = map_option (\<lambda>(x, c', b'). (x, c', readable b'))
       (parseRequest Buffer_ops 7 HttpContext_new (op_append Buffer_ops ''GET / HTTP/1.1'' (Buffer_new 8)))"
  using parseRequest_segments [OF web_buffer.net_buffer_axioms, of "Buffer_new 8" HttpContext_new 7 "''GET / HT''" "[''TP/1.1'']"]
  by (simp add: gotAll_def HttpContext_new_def)

section \<open>The text of a request\<close>

definition show_target :: "string \<Rightarrow> (string \<times> string) list \<Rightarrow> string" where
  "show_target path query = (if query = [] then path else path @ CHR ''?'' # show_query query)"

definition show_request ::
  "string \<Rightarrow> string \<Rightarrow> (string \<times> string) list \<Rightarrow> (string \<times> string) list \<Rightarrow> string \<Rightarrow> string" where
  "show_request m path query hdrs body =
     m @ '' '' @ show_target path query @ '' HTTP/1.1'' @ crlf
     @ concat (map header_line hdrs) @ crlf @ body"

text \<open>Nothing that would end the target or the line early.\<close>

definition target_safe :: "string \<Rightarrow> bool" where
  "target_safe s \<longleftrightarrow> CHR '' '' \<notin> set s \<and> no_cr s"

definition header_safe :: "string \<times> string \<Rightarrow> bool" where
  "header_safe h \<longleftrightarrow> CHR '':'' \<notin> set (fst h) \<and> no_cr (fst h) \<and> no_cr (snd h)
     \<and> (snd h = [] \<or> \<not> c_isspace (hd (snd h)) \<and> \<not> c_isspace (last (snd h)))"

lemma query_chars:
  assumes "\<forall>kv \<in> set q. c \<notin> set (fst kv) \<and> c \<notin> set (snd kv)" "c \<noteq> CHR ''=''" "c \<noteq> CHR ''&''"
  shows "c \<notin> set (show_query q)"
  using assms(1)
  by (induction q rule: show_query.induct) (use assms(2,3) in auto)

lemma processRequestLine_text:
  assumes m: "method_of_token m \<noteq> kInvalid" and r: "req_method r = kInvalid"
    and p: "target_safe path" "CHR ''?'' \<notin> set path"
    and q: "\<forall>kv \<in> set query. query_safe kv \<and> target_safe (fst kv) \<and> target_safe (snd kv)"
  shows "processRequestLine (m @ '' '' @ show_target path query @ '' HTTP/1.1'') r =
    Inr (True, r\<lparr>req_method := method_of_token m, req_path := path,
      req_queryParameters := req_queryParameters r ++ map_of (rev query), req_version := ''HTTP/1.1''\<rparr>)"
proof -
  have sp: "CHR '' '' \<notin> set m" using m by (auto simp: method_of_token_valid)
  have st: "CHR '' '' \<notin> set (show_target path query)"
    using p(1) q query_chars [of query "CHR '' ''"] by (auto simp: show_target_def target_safe_def)
  have rt: "setQueryParameters (show_query query) r'
      = r'\<lparr>req_queryParameters := req_queryParameters r' ++ map_of (rev query)\<rparr>" if "query \<noteq> []" for r'
    using setQueryParameters_pairs [OF that] q by blast
  show ?thesis
  proof (cases "query = []")
    case True
    then show ?thesis
      using sp st p m r by (simp add: processRequestLine_def setMethod_fresh show_target_def Let_def
          req_setters)
  next
    case False
    then have "find_char (CHR ''?'') (show_target path query) = Some (length path)"
      using p by (simp add: show_target_def)
    then show ?thesis
      using False sp st p m r rt [OF False]
      by (simp add: processRequestLine_def setMethod_fresh Let_def req_setters)
        (simp add: show_target_def rt)
  qed
qed

lemma parse_colon_line:
  assumes "CHR 0x0D \<notin> set line" "ctx_state c = kExpectHeaders" "find_char (CHR '':'') line = Some colon"
  shows "parse_step string_ops t c (line @ crlf @ s)
    = More (c\<lparr>ctx_request := addHeader line colon (ctx_request c)\<rparr>) s"
  using assms by (simp add: parse_step_def step_headers_def Let_def)

lemma parse_header_line:
  assumes "header_safe h" "ctx_state c = kExpectHeaders"
  shows "parse_step string_ops t c (header_line h @ s)
    = More (c\<lparr>ctx_request := (ctx_request c)\<lparr>req_headers := (req_headers (ctx_request c))(fst h \<mapsto> snd h)\<rparr>\<rparr>) s"
proof -
  let ?line = "fst h @ CHR '':'' # '' '' @ snd h @ []"
  have "addHeader ?line (length (fst h)) r = r\<lparr>req_headers := (req_headers r)(fst h \<mapsto> snd h)\<rparr>" for r
    using assms(1) by (intro addHeader_line) (simp_all add: header_safe_def c_isspace_def)
  then show ?thesis
    using assms parse_colon_line [of ?line c "length (fst h)" t s]
    by (simp add: header_safe_def no_cr_def header_line_def)
qed

lemma parse_headers:
  assumes "\<forall>h \<in> set hdrs. header_safe h" "ctx_state c = kExpectHeaders"
  shows "parseRequest string_ops t c (concat (map header_line hdrs) @ s)
    = parseRequest string_ops t
        (c\<lparr>ctx_request := (ctx_request c)\<lparr>req_headers := req_headers (ctx_request c) ++ map_of (rev hdrs)\<rparr>\<rparr>) s"
  using assms
proof (induction hdrs arbitrary: c)
  case Nil
  then show ?case by simp
next
  case (Cons h hdrs)
  then show ?case
    using parse_header_line [of h c t "concat (map header_line hdrs) @ s"]
    by (subst parseRequest.simps) simp
qed

text \<open>The request a text stands for, and the texts that stand for one.\<close>

definition parsed_request ::
  "Timestamp \<Rightarrow> string \<Rightarrow> string \<Rightarrow> (string \<times> string) list \<Rightarrow> (string \<times> string) list \<Rightarrow> HttpRequest" where
  "parsed_request t m path query hdrs =
     HttpRequest_new\<lparr>req_method := method_of_token m, req_version := ''HTTP/1.1'', req_path := path,
       req_queryParameters := map_of (rev query), req_receiveTime := t, req_headers := map_of (rev hdrs)\<rparr>"

definition request_ok :: "string \<Rightarrow> string \<Rightarrow> (string \<times> string) list \<Rightarrow> (string \<times> string) list \<Rightarrow> bool" where
  "request_ok m path query hdrs \<longleftrightarrow>
     method_of_token m \<noteq> kInvalid \<and> target_safe path \<and> CHR ''?'' \<notin> set path
     \<and> (\<forall>kv \<in> set query. query_safe kv \<and> target_safe (fst kv) \<and> target_safe (snd kv))
     \<and> (\<forall>h \<in> set hdrs. header_safe h)"

text \<open>The context after \<open>reset\<close> with the two members \<open>swap\<close> leaves behind.\<close>

definition with_old_body :: "HttpContext \<Rightarrow> HttpRequest \<Rightarrow> HttpRequest" where
  "with_old_body c r = r\<lparr>req_content := req_content (ctx_request c),
     req_contentLength := req_contentLength (ctx_request c)\<rparr>"

lemma reset_request:
  "ctx_state (reset c) = kExpectRequestLine"
  "ctx_request (reset c) = with_old_body c HttpRequest_new"
  by (simp_all add: reset_def swap_def with_old_body_def)

lemma no_cr_request_line:
  assumes "request_ok m path query hdrs"
  shows "CHR 0x0D \<notin> set (m @ '' '' @ show_target path query @ '' HTTP/1.1'')"
proof -
  have "CHR 0x0D \<notin> set m" using assms by (auto simp: request_ok_def method_of_token_valid)
  moreover have "CHR 0x0D \<notin> set (show_target path query)"
    using assms query_chars [of query "CHR 0x0D"]
    by (auto simp: request_ok_def show_target_def target_safe_def no_cr_def)
  ultimately show ?thesis by simp
qed

lemma parse_request_line:
  assumes "CHR 0x0D \<notin> set line" "ctx_state c = kExpectRequestLine"
    and "processRequestLine line (ctx_request c) = Inr (True, r)"
  shows "parse_step string_ops t c (line @ crlf @ s)
    = More \<lparr>ctx_state = kExpectHeaders, ctx_request = setReceiveTime t r\<rparr> s"
  using assms by (cases c) (simp add: parse_step_def step_request_line_def)

text \<open>After a reset, the head of a request is read up to its blank line.\<close>

lemma parse_head:
  assumes "request_ok m path query hdrs"
  shows "parseRequest string_ops t (reset c) (show_request m path query hdrs s)
    = parseRequest string_ops t \<lparr>ctx_state = kExpectHeaders,
         ctx_request = with_old_body c (parsed_request t m path query hdrs)\<rparr> (crlf @ s)"
proof -
  let ?line = "m @ '' '' @ show_target path query @ '' HTTP/1.1''"
  let ?rest = "concat (map header_line hdrs) @ crlf @ s"
  let ?r = "with_old_body c (parsed_request t m path query [])"
  let ?c = "\<lparr>ctx_state = kExpectHeaders, ctx_request = ?r\<rparr>"
  have "processRequestLine ?line (ctx_request (reset c)) = Inr (True, ?r\<lparr>req_receiveTime := 0\<rparr>)"
    using assms processRequestLine_text [of m "ctx_request (reset c)" path query]
    by (simp add: request_ok_def reset_request HttpRequest_new_def parsed_request_def with_old_body_def)
  from parse_request_line [OF no_cr_request_line [OF assms] reset_request(1) this]
  have step: "parse_step string_ops t (reset c) (?line @ crlf @ ?rest) = More ?c ?rest"
    by (simp only:) (simp add: setReceiveTime_def parsed_request_def HttpRequest_new_def with_old_body_def)
  have "parseRequest string_ops t (reset c) (?line @ crlf @ ?rest) = parseRequest string_ops t ?c ?rest"
    by (subst parseRequest.simps) (simp only: step iteration.case)
  also have "\<dots> = parseRequest string_ops t \<lparr>ctx_state = kExpectHeaders,
         ctx_request = with_old_body c (parsed_request t m path query hdrs)\<rparr> (crlf @ s)"
    using assms parse_headers [of hdrs ?c t "crlf @ s"]
    by (simp add: request_ok_def parsed_request_def HttpRequest_new_def with_old_body_def)
  finally show ?thesis by (simp add: show_request_def)
qed

lemma parse_blank_line:
  assumes "ctx_state c = kExpectHeaders"
  shows "parse_step string_ops t c (crlf @ s) = end_of_headers c (crlf @ s) s"
  using assms by (simp add: parse_step_def step_headers_def)

lemma parse_no_body:
  assumes "request_ok m path query hdrs" "m \<noteq> ''POST''" "m \<noteq> ''PUT''"
  shows "parseRequest string_ops t (reset c) (show_request m path query hdrs s)
    = Some (Inr True, \<lparr>ctx_state = kGotAll,
         ctx_request = with_old_body c (parsed_request t m path query hdrs)\<rparr>, s)"
proof -
  have "method_of_token m \<noteq> kPost \<and> method_of_token m \<noteq> kPut"
    using assms(2,3) by (simp add: method_of_token_def)
  then show ?thesis
    using parse_blank_line [of "\<lparr>ctx_state = kExpectHeaders,
         ctx_request = with_old_body c (parsed_request t m path query hdrs)\<rparr>" t s]
    by (subst parse_head [OF assms(1)], subst parseRequest.simps)
      (simp add: end_of_headers_def parsed_request_def with_old_body_def)
qed

lemma parse_with_body:
  assumes "request_ok m path query hdrs" "m = ''POST'' \<or> m = ''PUT''"
    and len: "map_of (rev hdrs) ''Content-Length'' = Some (string_of_nat (length body))" "length body \<le> 2147483647"
    and ne: "body \<noteq> []"
  shows "parseRequest string_ops t (reset c) (show_request m path query hdrs (body @ s))
    = Some (Inr True, \<lparr>ctx_state = kGotAll,
         ctx_request = (parsed_request t m path query hdrs)\<lparr>req_content := body,
           req_contentLength := of_nat (length body)\<rparr>\<rparr>, s)"
proof -
  let ?r = "with_old_body c (parsed_request t m path query hdrs)"
  let ?c = "\<lparr>ctx_state = kExpectHeaders, ctx_request = ?r\<rparr>"
  let ?c' = "\<lparr>ctx_state = kExpectBody, ctx_request = ?r\<lparr>req_contentLength := of_nat (length body)\<rparr>\<rparr>"
  have meth: "req_method ?r = kPost \<or> req_method ?r = kPut"
    using assms(2) by (auto simp: method_of_token_def parsed_request_def with_old_body_def)
  have hd: "getHeader ''Content-Length'' ?r = string_of_nat (length body)"
    using len(1) by (simp add: getHeader_def parsed_request_def with_old_body_def)
  have sz: "unat (of_nat (length body) :: u64) = length body"
    using len(2) by (simp add: unat_of_nat)
  then have pos: "0 < (of_nat (length body) :: u64)"
    using ne by (metis length_greater_0_conv unat_gt_0 word_neq_0_conv)
  have step: "parse_step string_ops t ?c (crlf @ body @ s) = More ?c' (body @ s)"
    using parse_blank_line [of ?c t "body @ s"] meth hd stoi_string_of_nat [OF len(2)] pos
    by (simp add: end_of_headers_def Let_def setContentLength_def)
  have "parseRequest string_ops t ?c (crlf @ body @ s) = parseRequest string_ops t ?c' (body @ s)"
    by (subst parseRequest.simps) (simp only: step iteration.case)
  also have "\<dots> = Some (Inr True, \<lparr>ctx_state = kGotAll,
         ctx_request = (parsed_request t m path query hdrs)\<lparr>req_content := body,
           req_contentLength := of_nat (length body)\<rparr>\<rparr>, s)"
    using sz by (simp add: parseRequest.simps parse_step_def step_body_def Let_def setBody_def with_old_body_def)
  finally show ?thesis by (simp only: parse_head [OF assms(1)])
qed

context net_buffer
begin

lemma parseRequest_bytes:
  assumes "ok b" "ctx_state c \<noteq> kGotAll"
    and "parseRequest string_ops t c (op_peek B b @ s) = Some (x, c', rest)"
  shows "\<exists>b'. parseRequest B t c (op_append B s b) = Some (x, c', b') \<and> ok b' \<and> op_peek B b' = rest"
  using parseRequest_returns [of "op_append B s b" c t] assms by (auto simp: append ok_append)

end

text \<open>
  C4: A request with a body parses to itself. After \<open>reset\<close>, from an empty buffer, the text of a
  \<open>POST\<close> or \<open>PUT\<close> request whose \<open>Content-Length\<close> header is the length of its non-empty body
  (at most \<open>INT_MAX\<close>) is parsed completely: method, path, query parameters, headers (the last of
  equal keys wins), receive time and body are those of the text, and the bytes after the body
  stay in the buffer for the next request.
\<close>

theorem parseRequest_body_roundtrip:
  assumes "net_buffer B ok" "ok b" "op_peek B b = []"
    and "request_ok m path query hdrs" "m = ''POST'' \<or> m = ''PUT''" "body \<noteq> []"
    and "map_of (rev hdrs) ''Content-Length'' = Some (string_of_nat (length body))"
    and "length body \<le> 2147483647"
  shows "\<exists>b'. parseRequest B t (reset c) (op_append B (show_request m path query hdrs (body @ s)) b)
      = Some (Inr True, \<lparr>ctx_state = kGotAll,
          ctx_request = (parsed_request t m path query hdrs)\<lparr>req_content := body,
            req_contentLength := of_nat (length body)\<rparr>\<rparr>, b') \<and> op_peek B b' = s"
  using net_buffer.parseRequest_bytes [OF assms(1,2), of "reset c" t "show_request m path query hdrs (body @ s)"]
    parse_with_body [OF assms(4,5,7,8,6)] assms(3)
  by (auto simp: reset_request)

theorem parseRequest_body_roundtrip_witness:
  "\<exists>b'. parseRequest Buffer_ops 9 (reset HttpContext_new)
      (op_append Buffer_ops (show_request ''POST'' ''/login'' [] [(''Content-Length'', ''5'')] (''hello'' @ ''GET'')) (Buffer_new 8))
      = Some (Inr True, \<lparr>ctx_state = kGotAll,
          ctx_request = (parsed_request 9 ''POST'' ''/login'' [] [(''Content-Length'', ''5'')])\<lparr>req_content := ''hello'',
            req_contentLength := 5\<rparr>\<rparr>, b') \<and> readable b' = ''GET''"
proof -
  have "string_of_nat (Suc (Suc (Suc (Suc (Suc 0))))) = ''5''" by code_simp
  then show ?thesis
    using parseRequest_body_roundtrip [OF web_buffer.net_buffer_axioms, of "Buffer_new 8" "''POST''" "''/login''"
        "[]" "[(''Content-Length'', ''5'')]" "''hello''" 9 HttpContext_new "''GET''"]
    by (simp add: request_ok_def method_of_token_def target_safe_def no_cr_def header_safe_def c_isspace_def)
qed

text \<open>
  C21: A request without a body (\<open>GET\<close>, \<open>DELETE\<close>, \<open>OPTIONS\<close>) parses to itself but for its body:
  method, path, query parameters, headers and receive time are those of the text and the bytes
  after the blank line stay in the buffer, while the body and the content length of the request
  are those the context held before \<open>reset\<close>. On a fresh connection they are empty; on a
  connection that carried a \<open>POST\<close> they are the old body, since \<open>swap\<close> leaves these members out.
\<close>

theorem parseRequest_no_body_keeps_old_body:
  assumes "net_buffer B ok" "ok b" "op_peek B b = []"
    and "request_ok m path query hdrs" "m \<noteq> ''POST''" "m \<noteq> ''PUT''"
  shows "\<exists>b'. parseRequest B t (reset c) (op_append B (show_request m path query hdrs s) b)
      = Some (Inr True, \<lparr>ctx_state = kGotAll,
          ctx_request = (parsed_request t m path query hdrs)\<lparr>req_content := req_content (ctx_request c),
            req_contentLength := req_contentLength (ctx_request c)\<rparr>\<rparr>, b') \<and> op_peek B b' = s"
  using net_buffer.parseRequest_bytes [OF assms(1,2), of "reset c" t "show_request m path query hdrs s"]
    parse_no_body [OF assms(4-6)] assms(3)
  by (auto simp: reset_request with_old_body_def)

theorem parseRequest_no_body_keeps_old_body_witness:
  "\<exists>b'. parseRequest Buffer_ops 9 (reset \<lparr>ctx_state = kGotAll, ctx_request = HttpRequest_new\<lparr>req_content := ''secret''\<rparr>\<rparr>)
      (op_append Buffer_ops (show_request ''GET'' ''/'' [(''q'', ''1'')] [(''Host'', ''h'')] []) (Buffer_new 8))
      = Some (Inr True, \<lparr>ctx_state = kGotAll,
          ctx_request = (parsed_request 9 ''GET'' ''/'' [(''q'', ''1'')] [(''Host'', ''h'')])\<lparr>req_content := ''secret'',
            req_contentLength := 0\<rparr>\<rparr>, b') \<and> readable b' = []"
  using parseRequest_no_body_keeps_old_body [OF web_buffer.net_buffer_axioms, of "Buffer_new 8" "''GET''" "''/''"
      "[(''q'', ''1'')]" "[(''Host'', ''h'')]" 9 "\<lparr>ctx_state = kGotAll, ctx_request = HttpRequest_new\<lparr>req_content := ''secret''\<rparr>\<rparr>" "[]"]
  by (simp add: request_ok_def method_of_token_def target_safe_def query_safe_def no_cr_def header_safe_def c_isspace_def HttpRequest_new_def)

section \<open>A negative length\<close>

lemma negative_length_u64:
  assumes "n < 0" "- (2 ^ 31) \<le> n"
  shows "uint (of_int n :: u64) = 2 ^ 64 + n"
proof -
  have "n mod 2 ^ 64 = (2 ^ 64 + n) mod 2 ^ 64" by simp
  also have "\<dots> = 2 ^ 64 + n" using assms by (intro mod_pos_pos_trivial) auto
  finally show ?thesis by (simp add: uint_word_of_int)
qed

text \<open>
  A negative \<open>Content-Length\<close> is accepted and makes the connection wait for ever: the blank
  line of a \<open>POST\<close> or \<open>PUT\<close> whose \<open>Content-Length\<close> reads as \<open>n < 0\<close> is taken, the length stored is
  \<open>2^64 + n\<close>, and while fewer bytes than that are in the buffer every later call reports no error
  and gets no request.
\<close>

theorem negative_content_length_waits:
  assumes "ctx_state c = kExpectHeaders" "req_method (ctx_request c) = kPost \<or> req_method (ctx_request c) = kPut"
    and "req_headers (ctx_request c) ''Content-Length'' = Some v" "v \<noteq> []" "stoi v = Inr n" "n < 0"
    and "int (length s) < 2 ^ 64 + n"
  shows "parseRequest string_ops t c (crlf @ s) =
    Some (Inr True, c\<lparr>ctx_state := kExpectBody,
      ctx_request := (ctx_request c)\<lparr>req_contentLength := of_int n\<rparr>\<rparr>, s)"
proof -
  have u: "uint (of_int n :: u64) = 2 ^ 64 + n"
    using negative_length_u64 [OF assms(6)] stoi_range [OF assms(5)] by simp
  then have "0 < (of_int n :: u64)"
    using assms(7) by (simp add: word_less_def)
  then have step: "parse_step string_ops t c (crlf @ s) = More (c\<lparr>ctx_state := kExpectBody,
      ctx_request := (ctx_request c)\<lparr>req_contentLength := of_int n\<rparr>\<rparr>) s"
    using parse_blank_line [OF assms(1), of t s] assms(2-5)
    by (auto simp: end_of_headers_def getHeader_def setContentLength_def Let_def)
  have "length s < unat (of_int n :: u64)" using u assms(7) by (simp add: unat_eq_nat_uint)
  then show ?thesis
    by (subst parseRequest.simps, subst step) (simp add: parseRequest.simps parse_step_def step_body_def Let_def)
qed

theorem negative_content_length_waits_witness:
  "parseRequest string_ops 3 \<lparr>ctx_state = kExpectHeaders,
      ctx_request = HttpRequest_new\<lparr>req_method := kPost, req_headers := [''Content-Length'' \<mapsto> ''-1'']\<rparr>\<rparr> (crlf @ ''x'')
   = Some (Inr True, \<lparr>ctx_state = kExpectBody,
      ctx_request = HttpRequest_new\<lparr>req_method := kPost, req_headers := [''Content-Length'' \<mapsto> ''-1''],
        req_contentLength := of_int (- 1)\<rparr>\<rparr>, ''x'')"
proof -
  have "stoi ''-1'' = Inr (- 1)" by code_simp
  then show ?thesis
    using negative_content_length_waits [of "\<lparr>ctx_state = kExpectHeaders,
      ctx_request = HttpRequest_new\<lparr>req_method := kPost, req_headers := [''Content-Length'' \<mapsto> ''-1'']\<rparr>\<rparr>" "''-1''" "- 1" "''x''" 3]
    by simp
qed

end
