(* ===== verification/Router.thy ===== *)
theory Router
  imports Http_Request Http_Response
begin

text \<open>
  \<open>http::router::Router\<close> (\<open>HttpServer/include/router/Router.h\<close>, \<open>HttpServer/src/router/Router.cpp\<close>):
  the table of handlers and callbacks, exact and dynamic, and the dispatch of a request. Handlers
  and callbacks are application code: functions that read the request, change the response and a
  state of their own (a type parameter), and may throw. The part of \<open>std::regex\<close> that route
  patterns use is modelled: ordinary characters, the dot, and the group \<open>([^/]+)\<close> that
  \<open>convertToRegex\<close> puts in place of a parameter, matched by backtracking with the longest run
  first; a pattern with another operator is outside the model (\<open>None\<close>). The lemmas show which
  paths a parameterised route matches and what the dispatcher passes on.
\<close>

section \<open>Handlers\<close>

datatype thrown =
    Std_Exception std_exn
  | Thrown_Response HttpResponse
  | Crash fault

text \<open>The response and the state are those at the point where the call returned or threw.\<close>

type_synonym 's handler = "HttpRequest \<Rightarrow> HttpResponse \<Rightarrow> 's \<Rightarrow> thrown option \<times> HttpResponse \<times> 's"

text \<open>
  A null \<open>shared_ptr\<close> to a handler is \<open>None\<close>, an empty \<open>std::function\<close> too: calling through
  the first is undefined, calling the second throws \<open>bad_function_call\<close>.
\<close>

definition call_handler :: "'s handler option \<Rightarrow> 's handler" where
  "call_handler h req resp s =
     (case h of Some f \<Rightarrow> f req resp s | None \<Rightarrow> (Some (Crash Undefined_Behaviour), resp, s))"

definition call_callback :: "'s handler option \<Rightarrow> 's handler" where
  "call_callback h req resp s =
     (case h of Some f \<Rightarrow> f req resp s
      | None \<Rightarrow> (Some (Std_Exception (Runtime_Error ''bad_function_call'')), resp, s))"

section \<open>Route patterns\<close>

datatype ritem = RChar char | RAny | RSeg

definition not_slash :: "char \<Rightarrow> bool" where
  "not_slash c \<longleftrightarrow> c \<noteq> CHR ''/''"

definition param_group :: string where
  "param_group = ''([^/]+)''"

text \<open>\<open>regex_replace(pathPattern, "/:([^/]+)", "/([^/]+)")\<close>: every parameter, from left to right.\<close>

function expand_params :: "string \<Rightarrow> string" where
  "expand_params [] = []"
| "expand_params (c # cs) =
     (if c = CHR ''/'' \<and> take 1 cs = '':'' \<and> takeWhile not_slash (drop 1 cs) \<noteq> []
      then CHR ''/'' # param_group @ expand_params (dropWhile not_slash (drop 1 cs))
      else c # expand_params cs)"
  by pat_completeness auto
termination
proof (relation "measure length")
  fix c :: char and cs
  have "length (dropWhile not_slash (drop 1 cs)) \<le> length (drop 1 cs)" by (rule length_dropWhile_le)
  then show "(dropWhile not_slash (drop 1 cs), c # cs) \<in> measure length" by simp
qed auto

definition regex_special :: "char \<Rightarrow> bool" where
  "regex_special c \<longleftrightarrow> c = CHR 0x5C \<or> c \<in> set ''^$*+?()[]{}|''"

fun regex_compile :: "string \<Rightarrow> ritem list option" where
  "regex_compile [] = Some []"
| "regex_compile (c # cs) =
     (if take 7 (c # cs) = param_group then map_option ((#) RSeg) (regex_compile (drop 6 cs))
      else if c = CHR ''.'' then map_option ((#) RAny) (regex_compile cs)
      else if regex_special c then None
      else map_option ((#) (RChar c)) (regex_compile cs))"

text \<open>The anchors \<open>^\<close> and \<open>$\<close> add nothing: \<open>regex_match\<close> matches the whole string.\<close>

definition convertToRegex :: "string \<Rightarrow> ritem list option" where
  "convertToRegex pathPattern = regex_compile (expand_params pathPattern)"

text \<open>\<open>std::regex_match\<close>: the captures of the first match in backtracking order.\<close>

fun first_some :: "('a \<Rightarrow> 'b option) \<Rightarrow> 'a list \<Rightarrow> 'b option" where
  "first_some f [] = None"
| "first_some f (x # xs) = (case f x of Some y \<Rightarrow> Some y | None \<Rightarrow> first_some f xs)"

primrec regex_match :: "ritem list \<Rightarrow> string \<Rightarrow> string list option" where
  "regex_match [] s = (if s = [] then Some [] else None)"
| "regex_match (r # rs) s =
     (case r of
        RChar c \<Rightarrow> (case s of x # xs \<Rightarrow> if x = c then regex_match rs xs else None | [] \<Rightarrow> None)
      | RAny \<Rightarrow> (case s of x # xs \<Rightarrow> if x \<noteq> CHR 0x0A \<and> x \<noteq> CHR 0x0D then regex_match rs xs else None
                 | [] \<Rightarrow> None)
      | RSeg \<Rightarrow>
          first_some (\<lambda>n. map_option ((#) (take n s)) (regex_match rs (drop n s)))
            (rev [1 ..< Suc (length (takeWhile not_slash s))]))"

section \<open>The table and the dispatch\<close>

type_synonym RouteKey = "Method \<times> string"

record 's Router =
  handlers :: "RouteKey \<rightharpoonup> 's handler option"
  callbacks :: "RouteKey \<rightharpoonup> 's handler option"
  regexHandlers :: "(Method \<times> ritem list \<times> 's handler option) list"
  regexCallbacks :: "(Method \<times> ritem list \<times> 's handler option) list"

definition Router_new :: "'s Router" where
  "Router_new = \<lparr>handlers = Map.empty, callbacks = Map.empty, regexHandlers = [], regexCallbacks = []\<rparr>"

definition registerHandler :: "Method \<Rightarrow> string \<Rightarrow> 's handler option \<Rightarrow> 's Router \<Rightarrow> 's Router" where
  "registerHandler m p h R = R\<lparr>handlers := (handlers R)((m, p) \<mapsto> h)\<rparr>"

definition registerCallback :: "Method \<Rightarrow> string \<Rightarrow> 's handler option \<Rightarrow> 's Router \<Rightarrow> 's Router" where
  "registerCallback m p h R = R\<lparr>callbacks := (callbacks R)((m, p) \<mapsto> h)\<rparr>"

definition addRegexHandler :: "Method \<Rightarrow> string \<Rightarrow> 's handler option \<Rightarrow> 's Router \<Rightarrow> 's Router option" where
  "addRegexHandler m p h R =
     map_option (\<lambda>re. R\<lparr>regexHandlers := regexHandlers R @ [(m, re, h)]\<rparr>) (convertToRegex p)"

definition addRegexCallback :: "Method \<Rightarrow> string \<Rightarrow> 's handler option \<Rightarrow> 's Router \<Rightarrow> 's Router option" where
  "addRegexCallback m p h R =
     map_option (\<lambda>re. R\<lparr>regexCallbacks := regexCallbacks R @ [(m, re, h)]\<rparr>) (convertToRegex p)"

text \<open>The loop over \<open>match[1]\<close>, \<open>match[2]\<close>, ...; \<open>i\<close> is the next index.\<close>

fun extract_from :: "nat \<Rightarrow> string list \<Rightarrow> HttpRequest \<Rightarrow> HttpRequest" where
  "extract_from i [] req = req"
| "extract_from i (v # vs) req =
     extract_from (Suc i) vs (setPathParameters (''param'' @ string_of_nat i) v req)"

definition extractPathParameters :: "string list \<Rightarrow> HttpRequest \<Rightarrow> HttpRequest" where
  "extractPathParameters match request = extract_from 1 match request"

text \<open>The result is \<open>true\<close> or \<open>false\<close>, or what the handler threw.\<close>

definition routed :: "thrown option \<times> HttpResponse \<times> 's \<Rightarrow> (thrown + bool) \<times> HttpResponse \<times> 's" where
  "routed r = (case r of (None, resp, s) \<Rightarrow> (Inr True, resp, s) | (Some e, resp, s) \<Rightarrow> (Inl e, resp, s))"

fun route_callbacks :: "(Method \<times> ritem list \<times> 's handler option) list \<Rightarrow> HttpRequest \<Rightarrow> HttpResponse \<Rightarrow> 's
                        \<Rightarrow> (thrown + bool) \<times> HttpResponse \<times> 's" where
  "route_callbacks [] req resp s = (Inr False, resp, s)"
| "route_callbacks ((m, re, cb) # es) req resp s =
     (if m = req_method req \<and> regex_match re (req_path req) \<noteq> None
      then routed (call_callback cb req resp s)
      else route_callbacks es req resp s)"

fun route_handlers :: "(Method \<times> ritem list \<times> 's handler option) list
                       \<Rightarrow> ((thrown + bool) \<times> HttpResponse \<times> 's)
                       \<Rightarrow> HttpRequest \<Rightarrow> HttpResponse \<Rightarrow> 's \<Rightarrow> (thrown + bool) \<times> HttpResponse \<times> 's" where
  "route_handlers [] otherwise req resp s = otherwise"
| "route_handlers ((m, re, h) # es) otherwise req resp s =
     (case (if m = req_method req then regex_match re (req_path req) else None) of
        Some match \<Rightarrow> routed (call_handler h (extractPathParameters match req) resp s)
      | None \<Rightarrow> route_handlers es otherwise req resp s)"

definition route :: "'s Router \<Rightarrow> HttpRequest \<Rightarrow> HttpResponse \<Rightarrow> 's \<Rightarrow> (thrown + bool) \<times> HttpResponse \<times> 's" where
  "route R req resp s =
     (let key = (req_method req, req_path req) in
      case handlers R key of
        Some h \<Rightarrow> routed (call_handler h req resp s)
      | None \<Rightarrow>
          (case callbacks R key of
             Some cb \<Rightarrow> routed (call_callback cb req resp s)
           | None \<Rightarrow>
               route_handlers (regexHandlers R) (route_callbacks (regexCallbacks R) req resp s) req resp s))"

section \<open>Parameters\<close>

lemma extract_from_params:
  "req_pathParameters (extract_from i vs req) (''param'' @ string_of_nat j)
     = (if i \<le> j \<and> j < i + length vs then Some (vs ! (j - i))
        else req_pathParameters req (''param'' @ string_of_nat j))"
proof (induction i vs req rule: extract_from.induct)
  case (1 i req)
  then show ?case by auto
next
  case (2 i v vs req)
  then show ?case by (cases "j = i") (auto simp: setPathParameters_def nth_Cons')
qed

lemma extract_from_rest:
  "extract_from i vs req = req\<lparr>req_pathParameters := req_pathParameters (extract_from i vs req)\<rparr>"
  by (induction i vs req rule: extract_from.induct) (simp_all add: setPathParameters_def)

section \<open>Which paths a parameterised route matches\<close>

text \<open>
  A route as its author means it: a list of segments, each a literal (\<open>Inl\<close>) or a named
  parameter (\<open>Inr\<close>); its pattern text; and the path with given values for the parameters.
\<close>

fun show_pattern :: "(string + string) list \<Rightarrow> string" where
  "show_pattern [] = []"
| "show_pattern (Inl lit # segs) = CHR ''/'' # lit @ show_pattern segs"
| "show_pattern (Inr name # segs) = CHR ''/'' # CHR '':'' # name @ show_pattern segs"

fun show_path :: "(string + string) list \<Rightarrow> string list \<Rightarrow> string option" where
  "show_path [] [] = Some []"
| "show_path (Inl lit # segs) vs = map_option (\<lambda>p. CHR ''/'' # lit @ p) (show_path segs vs)"
| "show_path (Inr name # segs) (v # vs) =
     (if v \<noteq> [] \<and> CHR ''/'' \<notin> set v then map_option (\<lambda>p. CHR ''/'' # v @ p) (show_path segs vs) else None)"
| "show_path _ _ = None"

fun seg_ok :: "string + string \<Rightarrow> bool" where
  "seg_ok (Inl lit) \<longleftrightarrow> (\<forall>c \<in> set lit. c \<noteq> CHR ''/'' \<and> c \<noteq> CHR ''.'' \<and> \<not> regex_special c) \<and> take 1 lit \<noteq> '':''"
| "seg_ok (Inr name) \<longleftrightarrow> name \<noteq> [] \<and> CHR ''/'' \<notin> set name"

fun seg_items :: "string + string \<Rightarrow> ritem list" where
  "seg_items (Inl lit) = RChar (CHR ''/'') # map RChar lit"
| "seg_items (Inr name) = [RChar (CHR ''/''), RSeg]"

lemma expand_literal:
  assumes "CHR ''/'' \<notin> set lit"
  shows "expand_params (lit @ s) = lit @ expand_params s"
  using assms by (induction lit) auto

lemma not_slash_run:
  assumes "CHR ''/'' \<notin> set v" "s = [] \<or> hd s = CHR ''/''"
  shows "takeWhile not_slash (v @ s) = v" "dropWhile not_slash (v @ s) = s"
proof -
  have *: "\<forall>c \<in> set v. not_slash c" using assms(1) by (auto simp: not_slash_def)
  have "takeWhile not_slash s = [] \<and> dropWhile not_slash s = s"
    using assms(2) by (cases s) (auto simp: not_slash_def)
  then show "takeWhile not_slash (v @ s) = v" "dropWhile not_slash (v @ s) = s"
    using * by (simp_all add: takeWhile_append2 dropWhile_append2)
qed

lemma show_pattern_hd: "show_pattern segs = [] \<or> hd (show_pattern segs) = CHR ''/''"
  by (induction segs rule: show_pattern.induct) auto

lemma expand_pattern:
  assumes "\<forall>x \<in> set segs. seg_ok x"
  shows "expand_params (show_pattern segs) =
    concat (map (\<lambda>x. CHR ''/'' # (case x of Inl lit \<Rightarrow> lit | Inr _ \<Rightarrow> param_group)) segs)"
  using assms
proof (induction segs rule: show_pattern.induct)
  case (2 lit segs)
  have "\<not> (take 1 (lit @ show_pattern segs) = '':'')"
    using 2(2) show_pattern_hd [of segs] by (cases lit; cases "show_pattern segs") auto
  moreover have "CHR ''/'' \<notin> set lit" using 2(2) by auto
  ultimately show ?case using 2 by (simp add: expand_literal)
next
  case (3 name segs)
  then show ?case using not_slash_run [of name "show_pattern segs"] show_pattern_hd [of segs] by simp
qed simp

lemma compile_literal:
  assumes "\<forall>c \<in> set lit. c \<noteq> CHR ''.'' \<and> \<not> regex_special c"
  shows "regex_compile (lit @ s) = map_option ((@) (map RChar lit)) (regex_compile s)"
  using assms
proof (induction lit)
  case (Cons c lit)
  then have "c \<noteq> CHR ''(''" by (auto simp: regex_special_def)
  then have "take 7 ((c # lit) @ s) \<noteq> param_group" by (simp add: param_group_def)
  with Cons show ?case by (simp add: option.map_comp comp_def)
next
  case Nil
  then show ?case by (cases "regex_compile s") simp_all
qed

lemma compile_slash: "regex_compile (CHR ''/'' # s) = map_option ((#) (RChar (CHR ''/''))) (regex_compile s)"
  by (simp add: param_group_def regex_special_def)

lemma compile_group: "regex_compile (param_group @ s) = map_option ((#) RSeg) (regex_compile s)"
  by (simp add: param_group_def numeral_eq_Suc)

lemma convertToRegex_pattern:
  assumes "\<forall>x \<in> set segs. seg_ok x"
  shows "convertToRegex (show_pattern segs) = Some (concat (map seg_items segs))"
proof -
  have "regex_compile (concat (map (\<lambda>x. CHR ''/'' # (case x of Inl lit \<Rightarrow> lit | Inr _ \<Rightarrow> param_group)) segs))
      = Some (concat (map seg_items segs))"
    using assms
  proof (induction segs rule: show_pattern.induct)
    case (2 lit segs)
    then show ?case by (auto simp del: regex_compile.simps(2) simp: compile_slash compile_literal)
  next
    case (3 name segs)
    then show ?case by (simp del: regex_compile.simps(2) add: compile_slash compile_group)
  qed simp
  then show ?thesis by (simp add: convertToRegex_def expand_pattern [OF assms])
qed

lemma match_literal:
  "regex_match (map RChar lit @ rs) s =
     (if take (length lit) s = lit then regex_match rs (drop (length lit) s) else None)"
  by (induction lit arbitrary: s) (auto split: list.splits)

text \<open>Before the end of the pattern or a slash, the group takes the whole run of the segment.\<close>

lemma first_some_unique:
  assumes "\<And>n. n \<in> set ns \<Longrightarrow> f n = None"
  shows "first_some f (m # ns) = f m"
proof -
  have "first_some f ns = None" using assms by (induction ns) auto
  then show ?thesis by (cases "f m") auto
qed

lemma match_group:
  assumes "rs = [] \<or> hd rs = RChar (CHR ''/'')"
  shows "regex_match (RSeg # rs) s =
    (let v = takeWhile not_slash s in
     if v = [] then None else map_option ((#) v) (regex_match rs (dropWhile not_slash s)))"
proof -
  define v where "v = takeWhile not_slash s"
  let ?f = "\<lambda>n. map_option ((#) (take n s)) (regex_match rs (drop n s))"
  have s: "s = v @ dropWhile not_slash s" by (simp add: v_def)
  have short: "?f n = None" if "n < length v" for n
  proof -
    have "drop n s = v ! n # drop (Suc n) s"
      using that s by (metis Cons_nth_drop_Suc length_append nth_append trans_less_add1)
    moreover have "not_slash (v ! n)" using that by (metis nth_mem set_takeWhileD v_def)
    ultimately show ?thesis using assms by (cases rs) (auto simp: not_slash_def)
  qed
  show ?thesis
  proof (cases "length v")
    case 0
    then show ?thesis by (simp add: v_def)
  next
    case (Suc k)
    have "first_some ?f (rev [1 ..< Suc (Suc k)]) = ?f (Suc k)"
      using short Suc by (simp only: upt_Suc_append rev_append rev.simps append.simps One_nat_def le_add1
          add_Suc) (rule first_some_unique, auto)
    moreover have "take (Suc k) s = v" "drop (Suc k) s = dropWhile not_slash s"
      using s Suc by (metis append_eq_conv_conj)+
    ultimately show ?thesis using Suc by (auto simp: v_def [symmetric] Let_def)
  qed
qed

lemma show_path_hd: "show_path segs vs = Some q \<Longrightarrow> q = [] \<or> hd q = CHR ''/''"
  by (induction segs vs arbitrary: q rule: show_path.induct) (auto split: if_splits)

lemma seg_items_hd:
  "concat (map seg_items segs) = [] \<or> hd (concat (map seg_items segs)) = RChar (CHR ''/'')"
proof (cases segs)
  case (Cons x xs)
  then show ?thesis by (cases x) auto
qed simp

lemma match_segment:
  assumes "show_path segs vs = Some q \<longleftrightarrow> regex_match (concat (map seg_items segs)) q = Some vs"
    and "v \<noteq> []" "CHR ''/'' \<notin> set v" "q = [] \<or> hd q = CHR ''/''"
  shows "regex_match (RSeg # concat (map seg_items segs)) (v @ q) = Some (v # vs) \<longleftrightarrow> show_path segs vs = Some q"
proof -
  have "regex_match (RSeg # concat (map seg_items segs)) (v @ q)
      = map_option ((#) v) (regex_match (concat (map seg_items segs)) q)"
    using match_group [OF seg_items_hd, of segs "v @ q"] not_slash_run [OF assms(3,4)] assms(2)
    by (simp only: Let_def if_False)
  then show ?thesis using assms(1) by auto
qed

lemma match_segment_shape:
  assumes "regex_match (RSeg # concat (map seg_items segs)) s = Some vs"
  obtains v vs' q where "vs = v # vs'" "s = v @ q" "v \<noteq> []" "CHR ''/'' \<notin> set v" "q = [] \<or> hd q = CHR ''/''"
proof -
  let ?v = "takeWhile not_slash s" and ?q = "dropWhile not_slash s"
  have "?v \<noteq> []" "\<exists>vs'. vs = ?v # vs'"
    using assms match_group [OF seg_items_hd, of segs s] by (auto simp: Let_def simp del: regex_match.simps split: if_splits)
  moreover have "CHR ''/'' \<notin> set ?v" by (auto simp: not_slash_def dest: set_takeWhileD)
  moreover have "?q = [] \<or> hd ?q = CHR ''/''" using hd_dropWhile [of not_slash s] by (auto simp: not_slash_def)
  ultimately show ?thesis using that [of ?v _ ?q] by (metis takeWhile_dropWhile_id)
qed

lemma regex_match_slash:
  "regex_match (RChar (CHR ''/'') # rs) p = Some vs \<longleftrightarrow> (\<exists>q. p = CHR ''/'' # q \<and> regex_match rs q = Some vs)"
  by (cases p) auto

lemma match_segs:
  "regex_match (concat (map seg_items segs)) p = Some vs \<longleftrightarrow> show_path segs vs = Some p"
proof (induction segs arbitrary: p vs)
  case Nil
  then show ?case by (cases vs) auto
next
  case (Cons x segs)
  show ?case
  proof (cases x)
    case (Inl lit)
    have "regex_match (map RChar lit @ concat (map seg_items segs)) q = Some vs
        \<longleftrightarrow> (\<exists>q'. q = lit @ q' \<and> regex_match (concat (map seg_items segs)) q' = Some vs)" for q
      by (auto simp: match_literal) (metis append_take_drop_id)
    then show ?thesis
      using Inl Cons.IH by (auto simp: regex_match_slash simp del: regex_match.simps)
  next
    case (Inr name)
    show ?thesis
    proof
      assume "regex_match (concat (map seg_items (x # segs))) p = Some vs"
      then obtain s where s: "p = CHR ''/'' # s" "regex_match (RSeg # concat (map seg_items segs)) s = Some vs"
        using Inr by (auto simp: regex_match_slash simp del: regex_match.simps)
      from match_segment_shape [OF s(2)] obtain v vs' q where v: "vs = v # vs'" "s = v @ q" "v \<noteq> []"
          "CHR ''/'' \<notin> set v" "q = [] \<or> hd q = CHR ''/''" by metis
      then have "show_path segs vs' = Some q" using match_segment [OF _ v(3-5)] Cons.IH s(2) by auto
      then show "show_path (x # segs) vs = Some p" using v s Inr by simp
    next
      assume "show_path (x # segs) vs = Some p"
      then obtain v vs' q where v: "vs = v # vs'" "v \<noteq> []" "CHR ''/'' \<notin> set v" "show_path segs vs' = Some q"
          "p = CHR ''/'' # v @ q" using Inr by (cases vs) (auto split: if_splits)
      then have "regex_match (RSeg # concat (map seg_items segs)) (v @ q) = Some vs"
        using match_segment [OF _ v(2,3) show_path_hd [OF v(4)]] Cons.IH by auto
      then show "regex_match (concat (map seg_items (x # segs))) p = Some vs"
        using v Inr by (simp add: regex_match_slash del: regex_match.simps)
    qed
  qed
qed

text \<open>
  C25: The regular expression \<open>Router::convertToRegex\<close> makes of a route pattern matches exactly the
  paths the route means: for literal segments without regex operators and named parameters, a
  path matches with captures \<open>vs\<close> if and only if it is the route with the parameters replaced, in
  order, by the values \<open>vs\<close>, each non-empty and without a slash.
\<close>

theorem convertToRegex_matches_route:
  assumes "\<forall>x \<in> set segs. seg_ok x"
  shows "\<exists>re. convertToRegex (show_pattern segs) = Some re \<and>
           (\<forall>path vs. regex_match re path = Some vs \<longleftrightarrow> show_path segs vs = Some path)"
  using convertToRegex_pattern [OF assms] match_segs by simp

theorem convertToRegex_matches_route_witness:
  "\<exists>re. convertToRegex ''/user/:id/post/:n'' = Some re \<and> regex_match re ''/user/42/post/7'' = Some [''42'', ''7'']"
  using convertToRegex_matches_route [of "[Inl ''user'', Inr ''id'', Inl ''post'', Inr ''n'']"]
  by (auto simp: regex_special_def)

section \<open>What the dispatcher passes on\<close>

lemma route_handlers_skip:
  assumes "\<forall>(m, re, h) \<in> set es. m \<noteq> req_method req \<or> regex_match re (req_path req) = None"
  shows "route_handlers (es @ es') other req resp s = route_handlers es' other req resp s"
  using assms by (induction es) auto

lemma route_callbacks_skip:
  assumes "\<forall>(m, re, h) \<in> set es. m \<noteq> req_method req \<or> regex_match re (req_path req) = None"
  shows "route_callbacks (es @ es') req resp s = route_callbacks es' req resp s"
  using assms by (induction es) auto

text \<open>
  C26: A dynamic handler gets its path parameters. When no exact route and no earlier dynamic
  handler takes the request, the handler registered last by \<open>addRegexHandler\<close> for the route is
  called on a request that differs from the received one only in its path parameters, where
  \<open>param1\<close>, \<open>param2\<close>, ... are the values the path has for the parameters of the route.
\<close>

theorem route_dynamic_handler:
  assumes "\<forall>x \<in> set segs. seg_ok x" "addRegexHandler (req_method req) (show_pattern segs) (Some h) R = Some R'"
    and "handlers R (req_method req, req_path req) = None" "callbacks R (req_method req, req_path req) = None"
    and "\<forall>(m, re, h) \<in> set (regexHandlers R). m \<noteq> req_method req \<or> regex_match re (req_path req) = None"
    and "show_path segs vs = Some (req_path req)"
  shows "\<exists>req'. route R' req resp s = routed (h req' resp s)
           \<and> req' = req\<lparr>req_pathParameters := req_pathParameters req'\<rparr>
           \<and> (\<forall>i < length vs. getPathParameters (''param'' @ string_of_nat (i + 1)) req' = vs ! i)"
proof (intro exI conjI)
  let ?req = "extractPathParameters vs req"
  have R': "R' = R\<lparr>regexHandlers := regexHandlers R @ [(req_method req, concat (map seg_items segs), Some h)]\<rparr>"
    using assms(2) convertToRegex_pattern [OF assms(1)] by (simp add: addRegexHandler_def)
  have "regex_match (concat (map seg_items segs)) (req_path req) = Some vs"
    using assms(6) by (simp add: match_segs)
  then show "route R' req resp s = routed (h ?req resp s)"
    using assms(3,4) by (simp add: route_def R' route_handlers_skip [OF assms(5)] call_handler_def)
  show "?req = req\<lparr>req_pathParameters := req_pathParameters ?req\<rparr>"
    unfolding extractPathParameters_def by (rule extract_from_rest)
  show "\<forall>i < length vs. getPathParameters (''param'' @ string_of_nat (i + 1)) ?req = vs ! i"
  proof (intro allI impI)
    fix i assume "i < length vs"
    then show "getPathParameters (''param'' @ string_of_nat (i + 1)) ?req = vs ! i"
      using extract_from_params [of 1 vs req "i + 1"]
      by (simp add: getPathParameters_def extractPathParameters_def)
  qed
qed

definition echo_param :: "unit handler" where
  "echo_param req resp s = (None, rsp_setBody (getPathParameters ''param1'' req) resp, s)"

lemma string_of_nat_1: "string_of_nat (Suc 0) = ''1''"
  by code_simp

theorem route_dynamic_handler_witness:
  "\<exists>R'. addRegexHandler kGet ''/user/:id'' (Some echo_param) Router_new = Some R' \<and>
        rsp_body (fst (snd (route R' (HttpRequest_new\<lparr>req_method := kGet, req_path := ''/user/42''\<rparr>)
          (HttpResponse_new True) ()))) = ''42''"
proof -
  let ?req = "HttpRequest_new\<lparr>req_method := kGet, req_path := ''/user/42''\<rparr>"
  have ok: "\<forall>x \<in> set [Inl ''user'', Inr ''id'']. seg_ok x" by (simp add: regex_special_def)
  obtain R' where R': "addRegexHandler kGet ''/user/:id'' (Some echo_param) Router_new = Some R'"
    using convertToRegex_pattern [OF ok] by (simp add: addRegexHandler_def)
  have "\<exists>req'. route R' ?req (HttpResponse_new True) () = routed (echo_param req' (HttpResponse_new True) ())
           \<and> req' = ?req\<lparr>req_pathParameters := req_pathParameters req'\<rparr>
           \<and> (\<forall>i < length [''42'']. getPathParameters (''param'' @ string_of_nat (i + 1)) req' = [''42''] ! i)"
    by (rule route_dynamic_handler [OF ok, where R = Router_new]) (use R' in \<open>simp_all add: Router_new_def\<close>)
  with R' show ?thesis
    by (auto simp: string_of_nat_1 routed_def echo_param_def rsp_setBody_def)
qed

text \<open>
  A dynamic callback does not get its path parameters: in the same situation, with the route
  registered by \<open>addRegexCallback\<close>, the callback is called on the request as it was received
  (the copy that \<open>extractPathParameters\<close> filled is dropped).
\<close>

theorem route_dynamic_callback_loses_parameters:
  assumes "\<forall>x \<in> set segs. seg_ok x" "addRegexCallback (req_method req) (show_pattern segs) (Some h) R = Some R'"
    and "handlers R (req_method req, req_path req) = None" "callbacks R (req_method req, req_path req) = None"
    and "\<forall>(m, re, h) \<in> set (regexHandlers R). m \<noteq> req_method req \<or> regex_match re (req_path req) = None"
    and "\<forall>(m, re, h) \<in> set (regexCallbacks R). m \<noteq> req_method req \<or> regex_match re (req_path req) = None"
    and "show_path segs vs = Some (req_path req)"
  shows "route R' req resp s = routed (h req resp s)"
proof -
  have R': "R' = R\<lparr>regexCallbacks := regexCallbacks R @ [(req_method req, concat (map seg_items segs), Some h)]\<rparr>"
    using assms(2) convertToRegex_pattern [OF assms(1)] by (simp add: addRegexCallback_def)
  have "regex_match (concat (map seg_items segs)) (req_path req) = Some vs"
    using assms(7) by (simp add: match_segs)
  then show ?thesis
    using assms(3,4) route_handlers_skip [OF assms(5), of "[]"] route_callbacks_skip [OF assms(6)]
    by (simp add: route_def R' call_callback_def)
qed

theorem route_dynamic_callback_loses_parameters_witness:
  "\<exists>R'. addRegexCallback kGet ''/user/:id'' (Some echo_param) Router_new = Some R' \<and>
        rsp_body (fst (snd (route R' (HttpRequest_new\<lparr>req_method := kGet, req_path := ''/user/42''\<rparr>)
          (HttpResponse_new True) ()))) = []"
proof -
  let ?req = "HttpRequest_new\<lparr>req_method := kGet, req_path := ''/user/42''\<rparr>"
  have ok: "\<forall>x \<in> set [Inl ''user'', Inr ''id'']. seg_ok x" by (simp add: regex_special_def)
  obtain R' where R': "addRegexCallback kGet ''/user/:id'' (Some echo_param) Router_new = Some R'"
    using convertToRegex_pattern [OF ok] by (simp add: addRegexCallback_def)
  have "route R' ?req (HttpResponse_new True) () = routed (echo_param ?req (HttpResponse_new True) ())"
    by (rule route_dynamic_callback_loses_parameters [OF ok, where R = Router_new and vs = "[''42'']"])
      (use R' in \<open>simp_all add: Router_new_def\<close>)
  with R' show ?thesis
    by (simp add: routed_def echo_param_def rsp_setBody_def getPathParameters_def HttpRequest_new_def)
qed

end
