(* ===== verification/Middleware.thy ===== *)
theory Middleware
  imports Router
begin

text \<open>
  The middleware layer: the interface \<open>Middleware\<close> (\<open>HttpServer/include/middleware/Middleware.h\<close>)
  as a record of its two virtual operations, \<open>MiddlewareChain\<close>
  (\<open>HttpServer/src/middleware/MiddlewareChain.cpp\<close>) as a list of possibly null pointers to such
  objects, and the one implementation in the repository, \<open>CorsMiddleware\<close>
  (\<open>HttpServer/src/middleware/cors/CorsMiddleware.cpp\<close>). The contract of a middleware that only
  decorates responses is the locale \<open>decorating_middleware\<close>; CORS meets it.
\<close>

section \<open>The interface and the chain\<close>

record 's middleware =
  mw_before :: "HttpRequest \<Rightarrow> 's \<Rightarrow> thrown option \<times> HttpRequest \<times> 's"
  mw_after :: "HttpResponse \<Rightarrow> 's \<Rightarrow> thrown option \<times> HttpResponse \<times> 's"

type_synonym 's MiddlewareChain = "'s middleware option list"

definition addMiddleware :: "'s middleware option \<Rightarrow> 's MiddlewareChain \<Rightarrow> 's MiddlewareChain" where
  "addMiddleware m ms = ms @ [m]"

text \<open>\<open>processBefore\<close> does not check for null pointers, \<open>processAfter\<close> does.\<close>

fun processBefore :: "'s MiddlewareChain \<Rightarrow> HttpRequest \<Rightarrow> 's \<Rightarrow> thrown option \<times> HttpRequest \<times> 's" where
  "processBefore [] request s = (None, request, s)"
| "processBefore (None # ms) request s = (Some (Crash Undefined_Behaviour), request, s)"
| "processBefore (Some m # ms) request s =
     (case mw_before m request s of
        (None, request', s') \<Rightarrow> processBefore ms request' s'
      | (Some e, request', s') \<Rightarrow> (Some e, request', s'))"

fun after_loop :: "'s MiddlewareChain \<Rightarrow> HttpResponse \<Rightarrow> 's \<Rightarrow> thrown option \<times> HttpResponse \<times> 's" where
  "after_loop [] response s = (None, response, s)"
| "after_loop (None # ms) response s = after_loop ms response s"
| "after_loop (Some m # ms) response s =
     (case mw_after m response s of
        (None, response', s') \<Rightarrow> after_loop ms response' s'
      | (Some e, response', s') \<Rightarrow> (Some e, response', s'))"

definition processAfter :: "'s MiddlewareChain \<Rightarrow> HttpResponse \<Rightarrow> 's \<Rightarrow> thrown option \<times> HttpResponse \<times> 's" where
  "processAfter ms response s =
     (case after_loop (rev ms) response s of
        (Some (Std_Exception e), response', s') \<Rightarrow> (None, response', s')
      | r \<Rightarrow> r)"

section \<open>CORS\<close>

record CorsConfig =
  allowedOrigins :: "string list"
  allowedMethods :: "string list"
  allowedHeaders :: "string list"
  allowCredentials :: bool
  maxAge :: int

definition defaultConfig :: CorsConfig where
  "defaultConfig =
     \<lparr>allowedOrigins = [''*''], allowedMethods = [''GET'', ''POST'', ''PUT'', ''DELETE'', ''OPTIONS''],
      allowedHeaders = [''Content-Type'', ''Authorization''], allowCredentials = False, maxAge = 3600\<rparr>"

fun join_from :: "nat \<Rightarrow> string list \<Rightarrow> string \<Rightarrow> string" where
  "join_from i [] delimiter = []"
| "join_from i (x # xs) delimiter = (if i > 0 then delimiter else []) @ x @ join_from (Suc i) xs delimiter"

definition join :: "string list \<Rightarrow> string \<Rightarrow> string" where
  "join strings delimiter = join_from 0 strings delimiter"

definition isOriginAllowed :: "CorsConfig \<Rightarrow> string \<Rightarrow> bool" where
  "isOriginAllowed cfg origin \<longleftrightarrow>
     allowedOrigins cfg = [] \<or> ''*'' \<in> set (allowedOrigins cfg) \<or> origin \<in> set (allowedOrigins cfg)"

definition addCorsHeaders :: "CorsConfig \<Rightarrow> string \<Rightarrow> HttpResponse \<Rightarrow> HttpResponse" where
  "addCorsHeaders cfg origin r0 =
     (let r1 = rsp_addHeader ''Access-Control-Allow-Origin'' origin r0;
          r2 = (if allowCredentials cfg
                then rsp_addHeader ''Access-Control-Allow-Credentials'' ''true'' r1 else r1);
          r3 = (if allowedMethods cfg \<noteq> []
                then rsp_addHeader ''Access-Control-Allow-Methods'' (join (allowedMethods cfg) '', '') r2 else r2);
          r4 = (if allowedHeaders cfg \<noteq> []
                then rsp_addHeader ''Access-Control-Allow-Headers'' (join (allowedHeaders cfg) '', '') r3 else r3)
      in rsp_addHeader ''Access-Control-Max-Age'' (string_of_int (maxAge cfg)) r4)"

definition handlePreflightRequest :: "CorsConfig \<Rightarrow> HttpRequest \<Rightarrow> HttpResponse \<Rightarrow> HttpResponse" where
  "handlePreflightRequest cfg request response =
     (let origin = getHeader ''Origin'' request in
      if \<not> isOriginAllowed cfg origin then setStatusCode k403Forbidden response
      else setStatusCode k204NoContent (addCorsHeaders cfg origin response))"

definition cors_before :: "CorsConfig \<Rightarrow> HttpRequest \<Rightarrow> 's \<Rightarrow> thrown option \<times> HttpRequest \<times> 's" where
  "cors_before cfg request s =
     (if req_method request = kOptions
      then (Some (Thrown_Response (handlePreflightRequest cfg request (HttpResponse_new True))), request, s)
      else (None, request, s))"

definition cors_after :: "CorsConfig \<Rightarrow> HttpResponse \<Rightarrow> 's \<Rightarrow> thrown option \<times> HttpResponse \<times> 's" where
  "cors_after cfg response s =
     (None,
      (if allowedOrigins cfg \<noteq> []
       then (if ''*'' \<in> set (allowedOrigins cfg) then addCorsHeaders cfg ''*'' response
             else addCorsHeaders cfg (allowedOrigins cfg ! 0) response)
       else response), s)"

definition CorsMiddleware :: "CorsConfig \<Rightarrow> 's middleware" where
  "CorsMiddleware cfg = \<lparr>mw_before = cors_before cfg, mw_after = cors_after cfg\<rparr>"

section \<open>Decorating middleware\<close>

definition headers_only :: "HttpResponse \<Rightarrow> HttpResponse \<Rightarrow> bool" where
  "headers_only r r' \<longleftrightarrow> (\<exists>hs. r' = r\<lparr>rsp_headers := hs\<rparr>)"

lemma headers_only_refl [simp]: "headers_only r r"
  by (auto simp: headers_only_def intro: exI [of _ "rsp_headers r"])

lemma headers_only_trans: "headers_only r r1 \<Longrightarrow> headers_only r1 r2 \<Longrightarrow> headers_only r r2"
  by (auto simp: headers_only_def)

text \<open>
  A middleware that leaves the request alone and whose \<open>after\<close> neither throws nor touches
  anything but the headers of the response.
\<close>

locale decorating_middleware =
  fixes m :: "'s middleware"
  assumes before_request: "fst (snd (mw_before m request s)) = request"
    and after_no_throw: "fst (mw_after m response s) = None"
    and after_headers: "headers_only response (fst (snd (mw_after m response s)))"
begin

lemma after_step:
  obtains response' s' where "mw_after m response s = (None, response', s')" "headers_only response response'"
  using after_no_throw [of response s] after_headers [of response s]
  by (cases "mw_after m response s") auto

lemma processBefore_request:
  "fst (snd (processBefore [Some m] request s)) = request"
  using before_request [of request s] by (auto split: prod.splits option.splits)

end

lemma after_loop_decorates:
  assumes "\<forall>m. Some m \<in> set ms \<longrightarrow> decorating_middleware m"
  shows "fst (after_loop ms response s) = None \<and> headers_only response (fst (snd (after_loop ms response s)))"
  using assms
proof (induction ms response s rule: after_loop.induct)
  case (3 m ms response s)
  obtain response' s' where a: "mw_after m response s = (None, response', s')" "headers_only response response'"
    using 3(2) by (metis decorating_middleware.after_step list.set_intros(1))
  with 3 show ?case by (auto intro: headers_only_trans)
qed simp_all

lemma headers_only_add: "headers_only r r' \<Longrightarrow> headers_only r (rsp_addHeader k v r')"
  by (auto simp: headers_only_def rsp_addHeader_def)

lemma addCorsHeaders_headers_only: "headers_only r (addCorsHeaders cfg origin r)"
  by (simp add: addCorsHeaders_def Let_def headers_only_add)

interpretation cors: decorating_middleware "CorsMiddleware cfg :: 's middleware" for cfg
  by unfold_locales
    (simp_all add: CorsMiddleware_def cors_before_def cors_after_def addCorsHeaders_headers_only)

section \<open>The chain\<close>

lemma after_loop_append:
  "after_loop (ms @ ms') response s =
     (case after_loop ms response s of
        (None, response', s') \<Rightarrow> after_loop ms' response' s'
      | (Some e, response', s') \<Rightarrow> (Some e, response', s'))"
  by (induction ms response s rule: after_loop.induct) (auto split: prod.splits option.splits)

lemma processBefore_append:
  "processBefore (ms @ ms') request s =
     (case processBefore ms request s of
        (None, request', s') \<Rightarrow> processBefore ms' request' s'
      | (Some e, request', s') \<Rightarrow> (Some e, request', s'))"
  by (induction ms request s rule: processBefore.induct) (auto split: prod.splits option.splits)

text \<open>
  \<open>MiddlewareChain::processAfter\<close> runs the chain backwards and swallows standard exceptions:
  if the middlewares registered after \<open>m\<close> finish and \<open>m\<close> throws a \<open>std::exception\<close>, the call
  returns normally with the response as \<open>m\<close> left it, and no middleware registered before \<open>m\<close>
  runs; if \<open>m\<close> throws anything else, that leaves the chain.
\<close>

theorem processAfter_exception:
  assumes "after_loop (rev post) response s = (None, response1, s1)"
    and "mw_after m response1 s1 = (Some e, response2, s2)"
  shows "processAfter (pre @ Some m # post) response s =
    ((case e of Std_Exception _ \<Rightarrow> None | _ \<Rightarrow> Some e), response2, s2)"
  using assms by (cases e) (simp_all add: processAfter_def after_loop_append)

theorem processAfter_exception_witness:
  "processAfter [Some (CorsMiddleware defaultConfig),
       Some \<lparr>mw_before = (\<lambda>r s. (None, r, s)), mw_after = (\<lambda>r s. (Some (Std_Exception (Runtime_Error ''x'')), r, s))\<rparr>]
     (HttpResponse_new True) () = (None, HttpResponse_new True, ())"
  using processAfter_exception [of "[]" "HttpResponse_new True" "()" "HttpResponse_new True" "()"
    "\<lparr>mw_before = (\<lambda>r s. (None, r, s)), mw_after = (\<lambda>r s. (Some (Std_Exception (Runtime_Error ''x'')), r, s))\<rparr>"
    "Std_Exception (Runtime_Error ''x'')" "HttpResponse_new True" "()" "[Some (CorsMiddleware defaultConfig)]"]
  by simp

lemma processAfter_headers_only:
  assumes "\<forall>m. Some m \<in> set ms \<longrightarrow> decorating_middleware m"
  shows "\<exists>hs s'. processAfter ms response s = (None, response\<lparr>rsp_headers := hs\<rparr>, s')"
proof -
  have "fst (after_loop (rev ms) response s) = None
      \<and> headers_only response (fst (snd (after_loop (rev ms) response s)))"
    by (rule after_loop_decorates) (simp add: assms)
  then show ?thesis
    by (cases "after_loop (rev ms) response s") (auto simp: processAfter_def headers_only_def)
qed

text \<open>
  A chain of decorating middlewares (null pointers included, CORS among them) never makes
  \<open>processAfter\<close> throw, and the response it leaves has the version, status, body and connection
  flag the handler set: only its headers may differ.
\<close>

theorem processAfter_decorates:
  assumes "\<forall>m. Some m \<in> set ms \<longrightarrow> decorating_middleware m"
  shows "\<exists>hs s'. processAfter ms response s = (None, response\<lparr>rsp_headers := hs\<rparr>, s')"
  using assms by (rule processAfter_headers_only)

theorem processAfter_decorates_witness:
  "\<exists>hs s'. processAfter [None, Some (CorsMiddleware defaultConfig)] (HttpResponse_new False) (0 :: nat)
     = (None, (HttpResponse_new False)\<lparr>rsp_headers := hs\<rparr>, s')"
  by (rule processAfter_decorates) (simp add: cors.decorating_middleware_axioms)

section \<open>Preflight\<close>

lemma map_of_addHeader [simp]: "map_of (rsp_headers (rsp_addHeader k v r)) = (map_of (rsp_headers r))(k \<mapsto> v)"
  by (simp add: rsp_addHeader_def)

lemma addCorsHeaders_origin:
  "map_of (rsp_headers (addCorsHeaders cfg origin r)) ''Access-Control-Allow-Origin'' = Some origin"
  by (simp add: addCorsHeaders_def Let_def)

text \<open>
  A CORS preflight never reaches the application: in a chain with \<open>CorsMiddleware\<close>, once the
  middlewares before it have finished, an \<open>OPTIONS\<close> request leaves \<open>processBefore\<close> by a thrown
  response, whatever comes later in the chain. For an allowed origin that response has status 204
  and names exactly the origin of the request; otherwise it has status 403 and no headers at all.
\<close>

theorem cors_preflight:
  assumes "processBefore pre request s = (None, request', s')" "req_method request' = kOptions"
  shows "\<exists>response. processBefore (pre @ Some (CorsMiddleware cfg) # post) request s
             = (Some (Thrown_Response response), request', s')
           \<and> (if isOriginAllowed cfg (getHeader ''Origin'' request')
              then rsp_statusCode response = k204NoContent
                   \<and> map_of (rsp_headers response) ''Access-Control-Allow-Origin'' = Some (getHeader ''Origin'' request')
              else rsp_statusCode response = k403Forbidden \<and> rsp_headers response = [])"
  using assms addCorsHeaders_origin [of cfg]
  by (simp add: processBefore_append CorsMiddleware_def cors_before_def handlePreflightRequest_def Let_def
      setStatusCode_def HttpResponse_new_def)

theorem cors_preflight_witness:
  "\<exists>response. processBefore [Some (CorsMiddleware (defaultConfig\<lparr>allowedOrigins := [''http://a'']\<rparr>))]
       (HttpRequest_new\<lparr>req_method := kOptions, req_headers := [''Origin'' \<mapsto> ''http://evil'']\<rparr>) ()
     = (Some (Thrown_Response response),
        HttpRequest_new\<lparr>req_method := kOptions, req_headers := [''Origin'' \<mapsto> ''http://evil'']\<rparr>, ())
     \<and> rsp_statusCode response = k403Forbidden \<and> rsp_headers response = []"
  using cors_preflight [of "[]" "HttpRequest_new\<lparr>req_method := kOptions, req_headers := [''Origin'' \<mapsto> ''http://evil'']\<rparr>"
      "()" "HttpRequest_new\<lparr>req_method := kOptions, req_headers := [''Origin'' \<mapsto> ''http://evil'']\<rparr>" "()"
      "defaultConfig\<lparr>allowedOrigins := [''http://a'']\<rparr>" "[]"]
  by (simp add: isOriginAllowed_def defaultConfig_def getHeader_def)

end
