(* ===== verification/Ssl.thy ===== *)
theory Ssl
  imports Router
begin

text \<open>
  The TLS layer (\<open>HttpServer/src/ssl\<close>): \<open>SslConfig\<close>, \<open>SslContext\<close> and the connection state machine
  \<open>SslConnection\<close>. OpenSSL is not part of the repository: its objects are type parameters and the
  functions the sources call are the fields of two records, \<open>ssl_ctx_api\<close> and \<open>ssl_api\<close>. An
  option mask is the set of its flags. What a connection does to its TCP connection is a list of
  actions. A null \<open>SSL*\<close> is \<open>None\<close>, and using it is undefined.
\<close>

section \<open>Configuration and context\<close>

datatype SSLVersion = TLS_1_0 | TLS_1_1 | TLS_1_2 | TLS_1_3

datatype SSLError = NONE | WANT_READ | WANT_WRITE | SYSCALL | SSL | UNKNOWN

datatype SSLState = HANDSHAKE | ESTABLISHED | SHUTDOWN | ERROR

record SslConfig =
  certFile :: string
  keyFile :: string
  chainFile :: string
  cfg_version :: SSLVersion
  cipherList :: string
  verifyClient :: bool
  verifyDepth :: int
  sessionTimeout :: int
  sessionCacheSize :: int

definition SslConfig_new :: SslConfig where
  "SslConfig_new =
     \<lparr>certFile = [], keyFile = [], chainFile = [], cfg_version = TLS_1_2, cipherList = ''HIGH:!aNULL:!MDS'',
      verifyClient = False, verifyDepth = 4, sessionTimeout = 300, sessionCacheSize = 20480\<rparr>"

datatype ssl_op =
    OP_NO_SSLv2 | OP_NO_SSLv3 | OP_NO_COMPRESSION | OP_CIPHER_SERVER_PREFERENCE
  | OP_NO_TLSv1 | OP_NO_TLSv1_1 | OP_NO_TLSv1_2 | OP_NO_TLSv1_3

record 'c ssl_ctx_api =
  CTX_new :: "'c option"
  CTX_set_options :: "ssl_op set \<Rightarrow> 'c \<Rightarrow> 'c"
  CTX_use_certificate_file :: "string \<Rightarrow> 'c \<Rightarrow> int \<times> 'c"
  CTX_use_PrivateKey_file :: "string \<Rightarrow> 'c \<Rightarrow> int \<times> 'c"
  CTX_check_private_key :: "'c \<Rightarrow> int"
  CTX_use_certificate_chain_file :: "string \<Rightarrow> 'c \<Rightarrow> int \<times> 'c"
  CTX_set_cipher_list :: "string \<Rightarrow> 'c \<Rightarrow> int \<times> 'c"
  CTX_set_session_cache_mode :: "'c \<Rightarrow> 'c"
  CTX_sess_set_cache_size :: "int \<Rightarrow> 'c \<Rightarrow> 'c"
  CTX_set_timeout :: "int \<Rightarrow> 'c \<Rightarrow> 'c"

definition loadCertificates :: "'c ssl_ctx_api \<Rightarrow> SslConfig \<Rightarrow> 'c \<Rightarrow> bool \<times> 'c" where
  "loadCertificates A config c0 =
     (let (r1, c1) = CTX_use_certificate_file A (certFile config) c0 in
      if r1 \<le> 0 then (False, c1)
      else let (r2, c2) = CTX_use_PrivateKey_file A (keyFile config) c1 in
      if r2 \<le> 0 then (False, c2)
      else if CTX_check_private_key A c2 = 0 then (False, c2)
      else if chainFile config \<noteq> []
      then let (r3, c3) = CTX_use_certificate_chain_file A (chainFile config) c2 in (\<not> r3 \<le> 0, c3)
      else (True, c2))"

definition protocol_options :: "SSLVersion \<Rightarrow> ssl_op set" where
  "protocol_options v =
     {OP_NO_SSLv2, OP_NO_SSLv3} \<union>
     (case v of TLS_1_0 \<Rightarrow> {OP_NO_TLSv1} | TLS_1_1 \<Rightarrow> {OP_NO_TLSv1_1}
      | TLS_1_2 \<Rightarrow> {OP_NO_TLSv1_2} | TLS_1_3 \<Rightarrow> {OP_NO_TLSv1_3})"

definition setupProtocol :: "'c ssl_ctx_api \<Rightarrow> SslConfig \<Rightarrow> 'c \<Rightarrow> bool \<times> 'c" where
  "setupProtocol A config c0 =
     (let c1 = CTX_set_options A (protocol_options (cfg_version config)) c0 in
      if cipherList config \<noteq> []
      then let (r, c2) = CTX_set_cipher_list A (cipherList config) c1 in (\<not> r \<le> 0, c2)
      else (True, c1))"

definition setupSessionCache :: "'c ssl_ctx_api \<Rightarrow> SslConfig \<Rightarrow> 'c \<Rightarrow> 'c" where
  "setupSessionCache A config c =
     CTX_set_timeout A (sessionTimeout config)
       (CTX_sess_set_cache_size A (sessionCacheSize config) (CTX_set_session_cache_mode A c))"

text \<open>\<open>SslContext::initialize\<close>: the result and the context (\<open>ctx_\<close>, null before).\<close>

definition initialize :: "'c ssl_ctx_api \<Rightarrow> SslConfig \<Rightarrow> bool \<times> 'c option" where
  "initialize A config =
     (case CTX_new A of
        None \<Rightarrow> (False, None)
      | Some c0 \<Rightarrow>
          let c1 = CTX_set_options A {OP_NO_SSLv2, OP_NO_SSLv3, OP_NO_COMPRESSION, OP_CIPHER_SERVER_PREFERENCE} c0;
              (ok, c2) = loadCertificates A config c1
          in if \<not> ok then (False, Some c2)
             else let (ok', c3) = setupProtocol A config c2 in
             if \<not> ok' then (False, Some c3)
             else (True, Some (setupSessionCache A config c3)))"

section \<open>The connection\<close>

datatype action = Send string | Shutdown_Conn

datatype ossl_error =
    SSL_ERROR_NONE | SSL_ERROR_WANT_READ | SSL_ERROR_WANT_WRITE | SSL_ERROR_SYSCALL | SSL_ERROR_SSL
  | SSL_ERROR_OTHER

text \<open>
  The calls on one \<open>SSL\<close> object with its two memory BIOs. \<open>SSL_new\<close> with the creation of the
  BIOs is one field; \<open>ossl_read\<close> returns the code of \<open>SSL_read\<close> and the bytes it stored.
\<close>

record 'o ssl_api =
  ossl_new :: "'o option"
  ossl_do_handshake :: "'o \<Rightarrow> int \<times> 'o"
  ossl_get_error :: "'o \<Rightarrow> int \<Rightarrow> ossl_error"
  ossl_read :: "nat \<Rightarrow> 'o \<Rightarrow> (int \<times> string) \<times> 'o"
  ossl_write :: "string \<Rightarrow> 'o \<Rightarrow> int \<times> 'o"
  bio_write :: "string \<Rightarrow> 'o \<Rightarrow> 'o"
  bio_pending :: "'o \<Rightarrow> nat"
  bio_read :: "nat \<Rightarrow> 'o \<Rightarrow> string \<times> 'o"

record 'o SslConnection =
  ssl_obj :: "'o option"
  ssl_state :: SSLState
  ssl_readBuffer :: string
  ssl_writeBuffer :: string
  ssl_decryptedBuffer :: string
  ssl_hasCallback :: bool

definition SslConnection_new :: "'o ssl_api \<Rightarrow> 'o SslConnection" where
  "SslConnection_new A =
     \<lparr>ssl_obj = ossl_new A, ssl_state = HANDSHAKE, ssl_readBuffer = [], ssl_writeBuffer = [], ssl_decryptedBuffer = [],
      ssl_hasCallback = False\<rparr>"

definition setMessageCallback :: "'o SslConnection \<Rightarrow> 'o SslConnection" where
  "setMessageCallback sc = sc\<lparr>ssl_hasCallback := True\<rparr>"

definition isHandshakeCompleted :: "'o SslConnection \<Rightarrow> bool" where
  "isHandshakeCompleted sc \<longleftrightarrow> ssl_state sc = ESTABLISHED"

text \<open>What the object and its TCP connection are after a call, and what the call threw.\<close>

definition handleHandshake :: "'o ssl_api \<Rightarrow> 'o SslConnection \<Rightarrow> action list \<Rightarrow> thrown option \<times> 'o SslConnection \<times> action list" where
  "handleHandshake A sc acts =
     (case ssl_obj sc of
        None \<Rightarrow> (Some (Crash Undefined_Behaviour), sc, acts)
      | Some obj \<Rightarrow>
          let (ret, obj1) = ossl_do_handshake A obj;
              sc1 = sc\<lparr>ssl_obj := Some obj1\<rparr>
          in if ret = 1 then (None, sc1\<lparr>ssl_state := ESTABLISHED\<rparr>, acts)
             else (case ossl_get_error A obj1 ret of
                     SSL_ERROR_WANT_READ \<Rightarrow> (None, sc1, acts)
                   | SSL_ERROR_WANT_WRITE \<Rightarrow> (None, sc1, acts)
                   | _ \<Rightarrow> (None, sc1, acts @ [Shutdown_Conn])))"

definition startHandshake :: "'o ssl_api \<Rightarrow> 'o SslConnection \<Rightarrow> action list \<Rightarrow> thrown option \<times> 'o SslConnection \<times> action list" where
  "startHandshake A sc acts = handleHandshake A sc acts"

text \<open>The loop of \<open>send\<close> that moves the encrypted bytes from the write BIO to the TCP connection.\<close>

partial_function (option)
  drain :: "'o ssl_api \<Rightarrow> 'o \<Rightarrow> action list \<Rightarrow> ('o \<times> action list) option"
where
  "drain A obj acts =
     (if bio_pending A obj > 0
      then (case bio_read A (min (bio_pending A obj) 4096) obj of
              (bytes, obj') \<Rightarrow> drain A obj' (if bytes \<noteq> [] then acts @ [Send bytes] else acts))
      else Some (obj, acts))"

definition ssl_send :: "'o ssl_api \<Rightarrow> string \<Rightarrow> 'o SslConnection \<Rightarrow> action list
                        \<Rightarrow> (thrown option \<times> 'o SslConnection \<times> action list) option" where
  "ssl_send A data sc acts =
     (if ssl_state sc \<noteq> ESTABLISHED then Some (None, sc, acts)
      else (case ssl_obj sc of
              None \<Rightarrow> Some (Some (Crash Undefined_Behaviour), sc, acts)
            | Some obj \<Rightarrow>
                let (written, obj1) = ossl_write A data obj in
                if written \<le> 0 then Some (None, sc\<lparr>ssl_obj := Some obj1\<rparr>, acts)
                else (case drain A obj1 acts of
                        None \<Rightarrow> None
                      | Some (obj2, acts2) \<Rightarrow> Some (None, sc\<lparr>ssl_obj := Some obj2\<rparr>, acts2))))"

text \<open>
  \<open>onRead\<close>: \<open>bytes\<close> are the readable bytes of the buffer it is given, returned as it leaves them;
  \<open>cb\<close> is the message callback, which runs on the same connection (\<open>x\<close> is all the state that is
  not the connection's own) and may not return.
\<close>

definition onRead ::
  "'o ssl_api \<Rightarrow> (string \<Rightarrow> 'o SslConnection \<Rightarrow> action list \<Rightarrow> 'x
                   \<Rightarrow> (thrown option \<times> 'o SslConnection \<times> action list \<times> 'x) option)
   \<Rightarrow> string \<Rightarrow> 'o SslConnection \<Rightarrow> action list \<Rightarrow> 'x
   \<Rightarrow> (thrown option \<times> string \<times> 'o SslConnection \<times> action list \<times> 'x) option" where
  "onRead A cb bytes sc acts x =
     (case ssl_state sc of
        HANDSHAKE \<Rightarrow>
          (case ssl_obj sc of
             None \<Rightarrow> Some (Some (Crash Undefined_Behaviour), bytes, sc, acts, x)
           | Some obj \<Rightarrow>
               let (e, sc', acts') = handleHandshake A (sc\<lparr>ssl_obj := Some (bio_write A bytes obj)\<rparr>) acts
               in Some (e, [], sc', acts', x))
      | ESTABLISHED \<Rightarrow>
          (case ssl_obj sc of
             None \<Rightarrow> Some (Some (Crash Undefined_Behaviour), bytes, sc, acts, x)
           | Some obj \<Rightarrow>
               (case ossl_read A 4096 obj of
                  ((ret, decryptedData), obj') \<Rightarrow>
                    let sc' = sc\<lparr>ssl_obj := Some obj'\<rparr> in
                    if ret > 0 \<and> ssl_hasCallback sc'
                    then (case cb decryptedData sc' acts x of
                            None \<Rightarrow> None
                          | Some (e, sc'', acts'', x'') \<Rightarrow> Some (e, bytes, sc'', acts'', x''))
                    else Some (None, bytes, sc', acts, x)))
      | _ \<Rightarrow> Some (None, bytes, sc, acts, x))"

definition onEncrypted :: "string \<Rightarrow> 'o SslConnection \<Rightarrow> action list \<Rightarrow> 'o SslConnection \<times> action list" where
  "onEncrypted data sc acts =
     (sc\<lparr>ssl_writeBuffer := []\<rparr>, acts @ [Send (ssl_writeBuffer sc @ data)])"

definition onDecrypted :: "string \<Rightarrow> 'o SslConnection \<Rightarrow> 'o SslConnection" where
  "onDecrypted data sc = sc\<lparr>ssl_decryptedBuffer := ssl_decryptedBuffer sc @ data\<rparr>"

fun getLastError :: "ossl_error \<Rightarrow> SSLError" where
  "getLastError SSL_ERROR_NONE = NONE"
| "getLastError SSL_ERROR_WANT_READ = WANT_READ"
| "getLastError SSL_ERROR_WANT_WRITE = WANT_WRITE"
| "getLastError SSL_ERROR_SYSCALL = SYSCALL"
| "getLastError SSL_ERROR_SSL = SSL"
| "getLastError _ = UNKNOWN"

definition handleError :: "SSLError \<Rightarrow> 'o SslConnection \<Rightarrow> action list \<Rightarrow> 'o SslConnection \<times> action list" where
  "handleError err sc acts =
     (if err \<in> {SSL, SYSCALL, UNKNOWN} then (sc\<lparr>ssl_state := ERROR\<rparr>, acts @ [Shutdown_Conn])
      else (sc, acts))"

text \<open>
  The callbacks for a BIO of the class's own, which nothing installs: the data of the BIO is the connection or null. \<open>bioRead\<close> gives
  at most \<open>len\<close> bytes of the read buffer.
\<close>

definition bioWrite :: "string \<Rightarrow> 'o SslConnection option \<Rightarrow> action list \<Rightarrow> int \<times> action list" where
  "bioWrite data conn acts = (case conn of None \<Rightarrow> (- 1, acts) | Some _ \<Rightarrow> (int (length data), acts @ [Send data]))"

definition bioRead :: "nat \<Rightarrow> 'o SslConnection option \<Rightarrow> int \<times> string \<times> 'o SslConnection option" where
  "bioRead len conn =
     (case conn of
        None \<Rightarrow> (- 1, [], None)
      | Some sc \<Rightarrow>
          let avail = length (ssl_readBuffer sc) in
          if avail = 0 then (- 1, [], conn)
          else let toRead = min len avail
               in (int toRead, take toRead (ssl_readBuffer sc), Some (sc\<lparr>ssl_readBuffer := drop toRead (ssl_readBuffer sc)\<rparr>)))"

definition BIO_CTRL_FLUSH :: int where
  "BIO_CTRL_FLUSH = 11"

definition bioCtrl :: "int \<Rightarrow> int" where
  "bioCtrl cmd = (if cmd = BIO_CTRL_FLUSH then 1 else 0)"

text \<open>A sequence of reads hands out the buffer in order, without loss, whatever the sizes asked for.\<close>

fun bio_reads :: "nat list \<Rightarrow> 'o SslConnection \<Rightarrow> string \<times> 'o SslConnection" where
  "bio_reads [] sc = ([], sc)"
| "bio_reads (n # ns) sc =
     (case bioRead n (Some sc) of
        (_, bytes, Some sc') \<Rightarrow> (case bio_reads ns sc' of (later, sc'') \<Rightarrow> (bytes @ later, sc''))
      | (_, bytes, None) \<Rightarrow> (bytes, sc))"

lemma bio_reads_in_order:
  "bio_reads ns sc = (take (sum_list ns) (ssl_readBuffer sc), sc\<lparr>ssl_readBuffer := drop (sum_list ns) (ssl_readBuffer sc)\<rparr>)"
proof (induction ns arbitrary: sc)
  case (Cons n ns)
  show ?case
  proof (cases "ssl_readBuffer sc = []")
    case True
    then show ?thesis using Cons.IH [of sc] by (simp add: bioRead_def Let_def)
  next
    case False
    let ?k = "min n (length (ssl_readBuffer sc))"
    have k: "take ?k (ssl_readBuffer sc) = take n (ssl_readBuffer sc)" "drop ?k (ssl_readBuffer sc) = drop n (ssl_readBuffer sc)"
      by (simp_all add: min_def)
    show ?thesis using False Cons.IH [of "sc\<lparr>ssl_readBuffer := drop n (ssl_readBuffer sc)\<rparr>"] k
      by (simp add: bioRead_def Let_def take_add add.commute)
  qed
qed simp

section \<open>The protocol version that is left\<close>

fun no_flag :: "SSLVersion \<Rightarrow> ssl_op" where
  "no_flag TLS_1_0 = OP_NO_TLSv1"
| "no_flag TLS_1_1 = OP_NO_TLSv1_1"
| "no_flag TLS_1_2 = OP_NO_TLSv1_2"
| "no_flag TLS_1_3 = OP_NO_TLSv1_3"

text \<open>
  What OpenSSL documents of a context, \<open>enabled\<close> being the versions it may negotiate: setting
  options adds to those set, a \<open>NO\<close> flag disables its version, and the other calls do not change
  which versions are enabled.
\<close>

definition documented_ctx :: "'c ssl_ctx_api \<Rightarrow> ('c \<Rightarrow> SSLVersion set) \<Rightarrow> bool" where
  "documented_ctx A enabled \<longleftrightarrow>
     (\<forall>ops c. enabled (CTX_set_options A ops c) = enabled c - {v. no_flag v \<in> ops})
     \<and> (\<forall>f c. enabled (snd (CTX_use_certificate_file A f c)) = enabled c)
     \<and> (\<forall>f c. enabled (snd (CTX_use_PrivateKey_file A f c)) = enabled c)
     \<and> (\<forall>f c. enabled (snd (CTX_use_certificate_chain_file A f c)) = enabled c)
     \<and> (\<forall>f c. enabled (snd (CTX_set_cipher_list A f c)) = enabled c)
     \<and> (\<forall>c. enabled (CTX_set_session_cache_mode A c) = enabled c)
     \<and> (\<forall>n c. enabled (CTX_sess_set_cache_size A n c) = enabled c)
     \<and> (\<forall>n c. enabled (CTX_set_timeout A n c) = enabled c)"

lemma loadCertificates_enabled:
  "documented_ctx A enabled \<Longrightarrow> enabled (snd (loadCertificates A config c)) = enabled c"
  by (simp add: documented_ctx_def loadCertificates_def Let_def case_prod_beta)

lemma protocol_options_flag: "no_flag v \<in> protocol_options w \<longleftrightarrow> v = w"
  by (cases v; cases w) (simp_all add: protocol_options_def)

lemma setupProtocol_enabled:
  "documented_ctx A enabled \<Longrightarrow>
   enabled (snd (setupProtocol A config c)) = enabled c - {cfg_version config}"
  by (simp add: documented_ctx_def setupProtocol_def Let_def case_prod_beta protocol_options_flag)

text \<open>
  \<open>SslContext::initialize\<close> disables the configured protocol version and no other: with
  OpenSSL behaving as documented, a context it has set up successfully can negotiate every
  version a new context can, except the one that \<open>SslConfig::setProtocolVersion\<close> asked for.
\<close>

theorem initialize_disables_configured_version:
  assumes "documented_ctx A enabled" "CTX_new A = Some c0" "initialize A config = (True, Some c)"
  shows "enabled c = enabled c0 - {cfg_version config}"
proof -
  let ?c1 = "CTX_set_options A {OP_NO_SSLv2, OP_NO_SSLv3, OP_NO_COMPRESSION, OP_CIPHER_SERVER_PREFERENCE} c0"
  have c1: "enabled ?c1 = enabled c0"
  proof -
    have "no_flag v \<notin> {OP_NO_SSLv2, OP_NO_SSLv3, OP_NO_COMPRESSION, OP_CIPHER_SERVER_PREFERENCE}" for v
      by (cases v) simp_all
    then show ?thesis using assms(1) by (simp add: documented_ctx_def)
  qed
  have "c = setupSessionCache A config (snd (setupProtocol A config (snd (loadCertificates A config ?c1))))"
    using assms(2,3) by (auto simp: initialize_def Let_def case_prod_beta split: if_splits)
  moreover have "enabled (setupSessionCache A config c') = enabled c'" for c'
    using assms(1) by (simp add: documented_ctx_def setupSessionCache_def)
  ultimately show ?thesis
    using c1 by (simp add: setupProtocol_enabled [OF assms(1)] loadCertificates_enabled [OF assms(1)])
qed

definition flags_ctx :: "ssl_op set ssl_ctx_api" where
  "flags_ctx =
     \<lparr>CTX_new = Some {}, CTX_set_options = (\<union>), CTX_use_certificate_file = (\<lambda>f c. (1, c)),
      CTX_use_PrivateKey_file = (\<lambda>f c. (1, c)), CTX_check_private_key = (\<lambda>c. 1),
      CTX_use_certificate_chain_file = (\<lambda>f c. (1, c)), CTX_set_cipher_list = (\<lambda>f c. (1, c)),
      CTX_set_session_cache_mode = (\<lambda>c. c), CTX_sess_set_cache_size = (\<lambda>n c. c),
      CTX_set_timeout = (\<lambda>n c. c)\<rparr>"

theorem initialize_disables_configured_version_witness:
  "\<exists>c. initialize flags_ctx SslConfig_new = (True, Some c)
     \<and> {v. no_flag v \<notin> c} = {v. no_flag v \<notin> {}} - {TLS_1_2}"
proof -
  have doc: "documented_ctx flags_ctx (\<lambda>c. {v. no_flag v \<notin> c})"
    by (auto simp: documented_ctx_def flags_ctx_def)
  obtain c where "initialize flags_ctx SslConfig_new = (True, Some c)"
    by (simp add: initialize_def flags_ctx_def loadCertificates_def setupProtocol_def SslConfig_new_def)
  with initialize_disables_configured_version [OF doc _ this, of "{}"] show ?thesis
    by (simp add: flags_ctx_def SslConfig_new_def)
qed

section \<open>Sending\<close>

text \<open>
  What OpenSSL documents of the memory BIO the encrypted bytes are written to, \<open>wbio\<close> being the
  bytes in it: \<open>BIO_pending\<close> counts them and \<open>BIO_read\<close> takes as many as asked for from the front.
\<close>

definition documented_bio :: "'o ssl_api \<Rightarrow> ('o \<Rightarrow> string) \<Rightarrow> bool" where
  "documented_bio A wbio \<longleftrightarrow>
     (\<forall>obj. bio_pending A obj = length (wbio obj))
     \<and> (\<forall>n obj. fst (bio_read A n obj) = take n (wbio obj) \<and> wbio (snd (bio_read A n obj)) = drop n (wbio obj))"

lemma drain_all:
  assumes "documented_bio A wbio"
  shows "\<exists>obj' chunks. drain A obj acts = Some (obj', acts @ map Send chunks)
           \<and> concat chunks = wbio obj \<and> wbio obj' = [] \<and> (\<forall>c \<in> set chunks. length c \<le> 4096)"
proof (induction "length (wbio obj)" arbitrary: obj acts rule: less_induct)
  case less
  have pend: "bio_pending A obj = length (wbio obj)" using assms by (simp add: documented_bio_def)
  show ?case
  proof (cases "wbio obj = []")
    case True
    then have "drain A obj acts = Some (obj, acts @ map Send [])" using pend by (subst drain.simps) simp
    with True show ?thesis by (intro exI [of _ obj] exI [of _ "[]"]) simp
  next
    case False
    let ?n = "min (length (wbio obj)) 4096"
    obtain obj1 where r: "bio_read A ?n obj = (take ?n (wbio obj), obj1)" "wbio obj1 = drop ?n (wbio obj)"
      using assms by (cases "bio_read A ?n obj") (auto simp: documented_bio_def dest!: spec [of _ ?n] spec [of _ obj])
    have "length (wbio obj1) < length (wbio obj)" using False r(2) by simp
    from less [OF this, of "acts @ [Send (take ?n (wbio obj))]"] obtain obj' chunks where
      ih: "drain A obj1 (acts @ [Send (take ?n (wbio obj))])
             = Some (obj', (acts @ [Send (take ?n (wbio obj))]) @ map Send chunks)"
        "concat chunks = wbio obj1" "wbio obj' = []" "\<forall>c \<in> set chunks. length c \<le> 4096" by blast
    have "drain A obj acts = Some (obj', acts @ map Send (take ?n (wbio obj) # chunks))"
      using False pend r(1) ih(1) by (subst drain.simps) simp
    moreover have "concat (take ?n (wbio obj) # chunks) = wbio obj" using ih(2) r(2) by simp
    moreover have "\<forall>c \<in> set (take ?n (wbio obj) # chunks). length c \<le> 4096" using ih(4) by simp
    ultimately show ?thesis using ih(3) by blast
  qed
qed

text \<open>
  The flushing loop of \<open>SslConnection::send\<close> ends and loses nothing: with the write BIO
  behaving as documented, a successful \<open>SSL_write\<close> on an established connection is followed by
  sends to the TCP connection, each of at most 4096 bytes, whose concatenation is everything in
  the BIO, which is left empty.
\<close>

theorem ssl_send_flushes:
  assumes "documented_bio A wbio" "ssl_state sc = ESTABLISHED" "ssl_obj sc = Some obj"
    and "ossl_write A data obj = (written, obj1)" "0 < written"
  shows "\<exists>obj2 chunks. ssl_send A data sc acts = Some (None, sc\<lparr>ssl_obj := Some obj2\<rparr>, acts @ map Send chunks)
           \<and> concat chunks = wbio obj1 \<and> wbio obj2 = [] \<and> (\<forall>c \<in> set chunks. length c \<le> 4096)"
proof -
  obtain obj2 chunks where d: "drain A obj1 acts = Some (obj2, acts @ map Send chunks)" "concat chunks = wbio obj1"
      "wbio obj2 = []" "\<forall>c \<in> set chunks. length c \<le> 4096" using drain_all [OF assms(1)] by blast
  moreover have "ssl_send A data sc acts = Some (None, sc\<lparr>ssl_obj := Some obj2\<rparr>, acts @ map Send chunks)"
    using d(1) assms(2-5) by (simp add: ssl_send_def)
  ultimately show ?thesis by blast
qed

definition plain_ssl :: "string ssl_api" where
  "plain_ssl =
     \<lparr>ossl_new = Some [], ossl_do_handshake = (\<lambda>obj. (1, obj)), ossl_get_error = (\<lambda>obj n. SSL_ERROR_NONE),
      ossl_read = (\<lambda>n obj. ((0, []), obj)), ossl_write = (\<lambda>d obj. (int (length d), obj @ d)),
      bio_write = (\<lambda>d obj. obj), bio_pending = length, bio_read = (\<lambda>n obj. (take n obj, drop n obj))\<rparr>"

theorem ssl_send_flushes_witness:
  "\<exists>obj2 chunks. ssl_send plain_ssl ''abc'' ((SslConnection_new plain_ssl)\<lparr>ssl_state := ESTABLISHED\<rparr>) []
     = Some (None, (SslConnection_new plain_ssl)\<lparr>ssl_state := ESTABLISHED, ssl_obj := Some obj2\<rparr>, [] @ map Send chunks)
     \<and> concat chunks = ''abc''"
  using ssl_send_flushes [of plain_ssl "\<lambda>obj. obj" "(SslConnection_new plain_ssl)\<lparr>ssl_state := ESTABLISHED\<rparr>" "[]" "''abc''" 3 "''abc''" "[]"]
  by (auto simp: documented_bio_def plain_ssl_def SslConnection_new_def)

end
