(* ===== verification/Http_Server.thy ===== *)
theory Http_Server
  imports Http_Context Middleware Ssl
begin

text \<open>
  \<open>http::HttpServer\<close> (\<open>HttpServer/include/http/HttpServer.h\<close>, \<open>HttpServer/src/http/HttpServer.cpp\<close>):
  the callbacks \<open>muduo\<close> calls for a connection, down to the handler and back to the bytes sent. A
  connection is its \<open>HttpContext\<close>, the actions taken on it (\<open>send\<close>, \<open>shutdown\<close>) in order, and the
  entry \<open>sslConns_\<close> has for it. The input buffer is any that meets the \<open>net_buffer\<close> contract.
  Because \<open>onMessage\<close> and \<open>SslConnection::onRead\<close> call each other, \<open>onMessage\<close> takes the
  depth of calls it may use; without TLS one is enough. \<open>None\<close> is a call that does not return.
\<close>

text \<open>
  What the server tells \<open>muduo::net::TcpServer\<close>: the arguments of its constructor, the number of I/O threads, whether
  the two callbacks are those of the \<open>HttpServer\<close>, and whether it listens.
\<close>

datatype tcp_option = kNoReusePort | kReusePort

record TcpServer =
  tcp_port :: int
  tcp_name :: string
  tcp_option :: tcp_option
  tcp_threadNum :: int
  tcp_connectionCallback :: bool
  tcp_messageCallback :: bool
  tcp_started :: bool

text \<open>
  The session manager that the server owns is part of the application state \<open>'s\<close>, which the handlers work on.
\<close>

record 's HttpServer =
  srv_httpCallback :: "'s handler option"
  srv_router :: "'s Router"
  srv_chain :: "'s MiddlewareChain"
  srv_useSSL :: bool
  srv_sslCtx :: bool
  srv_tcp :: TcpServer

record 'o Connection =
  cn_context :: HttpContext
  cn_acts :: "action list"
  cn_ssl :: "'o SslConnection option"

definition TcpServer_new :: "int \<Rightarrow> string \<Rightarrow> tcp_option \<Rightarrow> TcpServer" where
  "TcpServer_new port name option =
     \<lparr>tcp_port = port, tcp_name = name, tcp_option = option, tcp_threadNum = 0,
      tcp_connectionCallback = False, tcp_messageCallback = False, tcp_started = False\<rparr>"

definition HttpServer_initialize :: "'s HttpServer \<Rightarrow> 's HttpServer" where
  "HttpServer_initialize srv =
     srv\<lparr>srv_tcp := (srv_tcp srv)\<lparr>tcp_connectionCallback := True, tcp_messageCallback := True\<rparr>\<rparr>"

definition HttpServer_new :: "int \<Rightarrow> string \<Rightarrow> bool \<Rightarrow> tcp_option \<Rightarrow> 's HttpServer" where
  "HttpServer_new port name useSSL option =
     HttpServer_initialize
       \<lparr>srv_httpCallback = None, srv_router = Router_new, srv_chain = [], srv_useSSL = useSSL, srv_sslCtx = False,
        srv_tcp = TcpServer_new port name option\<rparr>"

lemma HttpServer_new_fields [simp]:
  "srv_httpCallback (HttpServer_new port name ssl opt) = None"
  "srv_router (HttpServer_new port name ssl opt) = Router_new"
  "srv_chain (HttpServer_new port name ssl opt) = []"
  "srv_useSSL (HttpServer_new port name ssl opt) = ssl"
  "srv_sslCtx (HttpServer_new port name ssl opt) = False"
  by (simp_all add: HttpServer_new_def HttpServer_initialize_def)

section \<open>Configuration\<close>

definition setThreadNum :: "int \<Rightarrow> 's HttpServer \<Rightarrow> 's HttpServer" where
  "setThreadNum numThreads srv = srv\<lparr>srv_tcp := (srv_tcp srv)\<lparr>tcp_threadNum := numThreads\<rparr>\<rparr>"

text \<open>\<open>start\<close> up to the loop, which then calls back for as long as the process runs.\<close>

definition HttpServer_start :: "'s HttpServer \<Rightarrow> 's HttpServer" where
  "HttpServer_start srv = srv\<lparr>srv_tcp := (srv_tcp srv)\<lparr>tcp_started := True\<rparr>\<rparr>"

definition setHttpCallback :: "'s handler \<Rightarrow> 's HttpServer \<Rightarrow> 's HttpServer" where
  "setHttpCallback cb srv = srv\<lparr>srv_httpCallback := Some cb\<rparr>"

definition Get_callback :: "string \<Rightarrow> 's handler option \<Rightarrow> 's HttpServer \<Rightarrow> 's HttpServer" where
  "Get_callback path cb srv = srv\<lparr>srv_router := registerCallback kGet path cb (srv_router srv)\<rparr>"

definition Get_handler :: "string \<Rightarrow> 's handler option \<Rightarrow> 's HttpServer \<Rightarrow> 's HttpServer" where
  "Get_handler path h srv = srv\<lparr>srv_router := registerHandler kGet path h (srv_router srv)\<rparr>"

definition Post_callback :: "string \<Rightarrow> 's handler option \<Rightarrow> 's HttpServer \<Rightarrow> 's HttpServer" where
  "Post_callback path cb srv = srv\<lparr>srv_router := registerCallback kPost path cb (srv_router srv)\<rparr>"

definition Post_handler :: "string \<Rightarrow> 's handler option \<Rightarrow> 's HttpServer \<Rightarrow> 's HttpServer" where
  "Post_handler path h srv = srv\<lparr>srv_router := registerHandler kPost path h (srv_router srv)\<rparr>"

definition addRoute_handler :: "Method \<Rightarrow> string \<Rightarrow> 's handler option \<Rightarrow> 's HttpServer \<Rightarrow> 's HttpServer option" where
  "addRoute_handler m path h srv =
     map_option (\<lambda>R. srv\<lparr>srv_router := R\<rparr>) (addRegexHandler m path h (srv_router srv))"

definition addRoute_callback :: "Method \<Rightarrow> string \<Rightarrow> 's handler option \<Rightarrow> 's HttpServer \<Rightarrow> 's HttpServer option" where
  "addRoute_callback m path cb srv =
     map_option (\<lambda>R. srv\<lparr>srv_router := R\<rparr>) (addRegexCallback m path cb (srv_router srv))"

definition srv_addMiddleware :: "'s middleware option \<Rightarrow> 's HttpServer \<Rightarrow> 's HttpServer" where
  "srv_addMiddleware m srv = srv\<lparr>srv_chain := addMiddleware m (srv_chain srv)\<rparr>"

definition enableSSL :: "bool \<Rightarrow> 's HttpServer \<Rightarrow> 's HttpServer" where
  "enableSSL enable srv = srv\<lparr>srv_useSSL := enable\<rparr>"

text \<open>A failed \<open>initialize\<close> makes \<open>setSslConfig\<close> call \<open>abort()\<close>.\<close>

definition setSslConfig :: "'c ssl_ctx_api \<Rightarrow> SslConfig \<Rightarrow> 's HttpServer \<Rightarrow> 's HttpServer res" where
  "setSslConfig A config srv =
     (if srv_useSSL srv
      then (if fst (initialize A config) then Inr (srv\<lparr>srv_sslCtx := True\<rparr>) else Inl Assertion_Failure)
      else Inr srv)"

section \<open>From the request to the response\<close>

definition set_not_found :: "HttpResponse \<Rightarrow> HttpResponse" where
  "set_not_found resp = setCloseConnection True (setStatusMessage ''Not Found'' (setStatusCode k404NotFound resp))"

definition defaultHttpCallback :: "'s handler" where
  "defaultHttpCallback req resp s = (None, set_not_found resp, s)"

text \<open>The two \<open>catch\<close> clauses of \<open>handleRequest\<close>.\<close>

fun handle_thrown :: "thrown \<Rightarrow> HttpResponse \<Rightarrow> thrown option \<times> HttpResponse" where
  "handle_thrown (Thrown_Response res) resp = (None, res)"
| "handle_thrown (Std_Exception e) resp =
     (None, rsp_setBody (what e) (setStatusCode k500InternalServerError resp))"
| "handle_thrown (Crash f) resp = (Some (Crash f), resp)"

definition handleRequest :: "'s HttpServer \<Rightarrow> 's handler" where
  "handleRequest srv req resp s =
     (case processBefore (srv_chain srv) req s of
        (Some e, _, s1) \<Rightarrow> (let (e', resp') = handle_thrown e resp in (e', resp', s1))
      | (None, mutableReq, s1) \<Rightarrow>
          (case route (srv_router srv) mutableReq resp s1 of
             (Inl e, resp1, s2) \<Rightarrow> (let (e', resp') = handle_thrown e resp1 in (e', resp', s2))
           | (Inr found, resp1, s2) \<Rightarrow>
               (case processAfter (srv_chain srv) (if found then resp1 else set_not_found resp1) s2 of
                  (Some e, resp2, s3) \<Rightarrow> (let (e', resp') = handle_thrown e resp2 in (e', resp', s3))
                | (None, resp2, s3) \<Rightarrow> (None, resp2, s3))))"

definition httpCallback :: "'s HttpServer \<Rightarrow> 's handler" where
  "httpCallback srv = (case srv_httpCallback srv of None \<Rightarrow> handleRequest srv | Some cb \<Rightarrow> cb)"

definition wants_close :: "HttpRequest \<Rightarrow> bool" where
  "wants_close req =
     (let connection = getHeader ''Connection'' req
      in connection = ''close'' \<or> (req_version req = ''HTTP/1.0'' \<and> connection \<noteq> ''Keep-Alive''))"

definition onRequest :: "'b buffer_ops \<Rightarrow> 's HttpServer \<Rightarrow> HttpRequest \<Rightarrow> action list \<Rightarrow> 's
                         \<Rightarrow> thrown option \<times> action list \<times> 's" where
  "onRequest B srv req acts s =
     (case httpCallback srv req (HttpResponse_new (wants_close req)) s of
        (Some e, _, s') \<Rightarrow> (Some e, acts, s')
      | (None, response, s') \<Rightarrow>
          let buf = appendToBuffer B response (op_new B);
              acts1 = acts @ [Send (op_peek B buf)]
          in (None, if rsp_closeConnection response then acts1 @ [Shutdown_Conn] else acts1, s'))"

section \<open>From the bytes to the request\<close>

definition bad_request :: "action list" where
  "bad_request = [Send (''HTTP/1.1 400 Bad Request'' @ crlf @ crlf), Shutdown_Conn]"

text \<open>The \<open>catch\<close> clause of \<open>onMessage\<close>.\<close>

fun catch_std :: "thrown option \<Rightarrow> 'o Connection \<Rightarrow> thrown option \<times> 'o Connection" where
  "catch_std (Some (Std_Exception e)) conn = (None, conn\<lparr>cn_acts := cn_acts conn @ bad_request\<rparr>)"
| "catch_std e conn = (e, conn)"

fun thrown_of_fault :: "fault \<Rightarrow> thrown" where
  "thrown_of_fault (Exception e) = Std_Exception e"
| "thrown_of_fault f = Crash f"

text \<open>Lines 122 to 134: parse, answer, reset; an exception is what leaves the block.\<close>

definition message_http :: "'b buffer_ops \<Rightarrow> 's HttpServer \<Rightarrow> Timestamp \<Rightarrow> 'b \<Rightarrow> 'o Connection \<Rightarrow> 's
                            \<Rightarrow> (thrown option \<times> 'b \<times> 'o Connection \<times> 's) option" where
  "message_http B srv t buf conn s =
     (case parseRequest B t (cn_context conn) buf of
        None \<Rightarrow> None
      | Some (Inl f, c, buf') \<Rightarrow> Some (Some (thrown_of_fault f), buf', conn\<lparr>cn_context := c\<rparr>, s)
      | Some (Inr parsed, c, buf') \<Rightarrow>
          let conn1 = conn\<lparr>cn_context := c, cn_acts := cn_acts conn @ (if parsed then [] else bad_request)\<rparr>
          in if gotAll c
             then (case onRequest B srv (ctx_request c) (cn_acts conn1) s of
                     (Some e, acts, s') \<Rightarrow> Some (Some e, buf', conn1\<lparr>cn_acts := acts\<rparr>, s')
                   | (None, acts, s') \<Rightarrow>
                       Some (None, buf', conn1\<lparr>cn_acts := acts, cn_context := reset c\<rparr>, s'))
             else Some (None, buf', conn1, s))"

definition finish :: "(thrown option \<times> 'b \<times> 'o Connection \<times> 's) option
                      \<Rightarrow> (thrown option \<times> 'b \<times> 'o Connection \<times> 's) option" where
  "finish r = map_option (\<lambda>(e, buf, conn, s). case catch_std e conn of (e', conn') \<Rightarrow> (e', buf, conn', s)) r"

text \<open>
  \<open>onMessage\<close> as the message callback of an \<open>SslConnection\<close>: it is given a local buffer with the
  decrypted bytes and acts on the same connection, context and application state.
\<close>

definition ssl_callback ::
  "'b buffer_ops \<Rightarrow> ('b \<Rightarrow> 'o Connection \<Rightarrow> 's \<Rightarrow> (thrown option \<times> 'b \<times> 'o Connection \<times> 's) option)
   \<Rightarrow> string \<Rightarrow> 'o SslConnection \<Rightarrow> action list \<Rightarrow> HttpContext \<times> 's
   \<Rightarrow> (thrown option \<times> 'o SslConnection \<times> action list \<times> HttpContext \<times> 's) option" where
  "ssl_callback B message data sc acts x =
     (case message (op_append B data (op_new B)) \<lparr>cn_context = fst x, cn_acts = acts, cn_ssl = Some sc\<rparr> (snd x) of
        None \<Rightarrow> None
      | Some (e, _, conn', s') \<Rightarrow>
          Some (e, case cn_ssl conn' of Some sc' \<Rightarrow> sc' | None \<Rightarrow> sc, cn_acts conn', (cn_context conn', s')))"

fun onMessage :: "nat \<Rightarrow> 'o ssl_api \<Rightarrow> 'b buffer_ops \<Rightarrow> 's HttpServer \<Rightarrow> Timestamp \<Rightarrow> 'b \<Rightarrow> 'o Connection \<Rightarrow> 's
                  \<Rightarrow> (thrown option \<times> 'b \<times> 'o Connection \<times> 's) option" where
  "onMessage 0 A B srv t buf conn s = None"
| "onMessage (Suc n) A B srv t buf conn s =
     finish
      (case (if srv_useSSL srv then cn_ssl conn else None) of
         None \<Rightarrow> message_http B srv t buf conn s
       | Some sc \<Rightarrow>
           (case onRead A (ssl_callback B (onMessage n A B srv t))
                   (op_peek B buf) sc (cn_acts conn) (cn_context conn, s) of
              None \<Rightarrow> None
            | Some (e, rest, sc', acts', (c', s')) \<Rightarrow>
                let buf' = op_retrieve B (length (op_peek B buf) - length rest) buf;
                    conn' = \<lparr>cn_context = c', cn_acts = acts', cn_ssl = Some sc'\<rparr>
                in if e \<noteq> None \<or> \<not> isHandshakeCompleted sc' \<or> ssl_decryptedBuffer sc' = []
                   then Some (e, buf', conn', s')
                   else map_option
                          (\<lambda>(e2, dbuf, conn2, s2).
                             (e2, buf', conn2\<lparr>cn_ssl := Some (sc'\<lparr>ssl_decryptedBuffer := op_peek B dbuf\<rparr>)\<rparr>, s2))
                          (message_http B srv t (op_append B (ssl_decryptedBuffer sc') (op_new B)) conn' s')))"

declare onMessage.simps [simp del]

text \<open>\<open>onConnection\<close>; with no SSL context set, the constructor of \<open>SslConnection\<close> uses a null pointer.\<close>

definition onConnection :: "'o ssl_api \<Rightarrow> 's HttpServer \<Rightarrow> bool \<Rightarrow> 'o Connection \<Rightarrow> thrown option \<times> 'o Connection" where
  "onConnection A srv connected conn =
     (if connected
      then (if srv_useSSL srv
            then (if srv_sslCtx srv
                  then (case startHandshake A (setMessageCallback (SslConnection_new A)) (cn_acts conn) of
                          (None, sc, acts) \<Rightarrow>
                            (None, conn\<lparr>cn_ssl := Some sc, cn_acts := acts, cn_context := HttpContext_new\<rparr>)
                        | (Some e, sc, acts) \<Rightarrow> (Some e, conn\<lparr>cn_ssl := Some sc, cn_acts := acts\<rparr>))
                  else (Some (Crash Undefined_Behaviour), conn))
            else (None, conn\<lparr>cn_context := HttpContext_new\<rparr>))
      else (None, if srv_useSSL srv then conn\<lparr>cn_ssl := None\<rparr> else conn))"

section \<open>What leaves \<open>handleRequest\<close>\<close>

lemma handle_thrown_crash: "fst (handle_thrown e resp) = Some e' \<Longrightarrow> \<exists>f. e' = Crash f"
  by (cases e) auto

text \<open>
  \<open>HttpServer::handleRequest\<close> contains what handlers and middlewares throw: whatever they are,
  no \<open>std::exception\<close> and no thrown response leaves it; the only way out other than returning is
  a failure that ends the process (an assertion, undefined behaviour).
\<close>

theorem handleRequest_contains_exceptions:
  "fst (handleRequest srv req resp s) = None \<or> (\<exists>f. fst (handleRequest srv req resp s) = Some (Crash f))"
proof -
  have "fst (case handle_thrown e r of (e', r') \<Rightarrow> (e', r', x)) = None
      \<or> (\<exists>f. fst (case handle_thrown e r of (e', r') \<Rightarrow> (e', r', x)) = Some (Crash f))" for e r and x :: 'a
    by (cases e) auto
  then show ?thesis
    unfolding handleRequest_def Let_def by (auto split: prod.split option.split sum.split)
qed

section \<open>Messages without TLS\<close>

lemma onMessage_plain:
  "\<not> srv_useSSL srv \<Longrightarrow> onMessage (Suc n) A B srv t buf conn s = finish (message_http B srv t buf conn s)"
  by (simp add: onMessage.simps)

lemma finish_simps [simp]:
  "finish None = None"
  "finish (Some (None, buf, conn, s)) = Some (None, buf, conn, s)"
  "finish (Some (Some (Std_Exception e), buf, conn, s)) = Some (None, buf, conn\<lparr>cn_acts := cn_acts conn @ bad_request\<rparr>, s)"
  "finish (Some (Some (Crash f), buf, conn, s)) = Some (Some (Crash f), buf, conn, s)"
  by (simp_all add: finish_def)

definition answer :: "HttpResponse \<Rightarrow> action list" where
  "answer resp = Send (response_bytes resp) # (if rsp_closeConnection resp then [Shutdown_Conn] else [])"

context net_buffer
begin

lemma onRequest_answer:
  assumes "httpCallback srv req (HttpResponse_new (wants_close req)) s = (None, resp, s')"
  shows "onRequest B srv req acts s = (None, acts @ answer resp, s')"
  using assms appendToBuffer_peek(1) [OF new(1), of resp] new(2) by (simp add: onRequest_def answer_def Let_def)

lemma message_http_bytes:
  assumes "ok buf" "\<not> gotAll (cn_context conn)"
    and "parseRequest string_ops t (cn_context conn) (op_peek B buf) = Some (x, c, rest)"
  obtains buf' where "parseRequest B t (cn_context conn) buf = Some (x, c, buf')" "ok buf'" "op_peek B buf' = rest"
  using parseRequest_returns [OF assms(1), of "cn_context conn" t] assms(2,3) by (auto simp: gotAll_def)

lemma onMessage_request:
  assumes "ok buf" "\<not> srv_useSSL srv" "\<not> gotAll (cn_context conn)"
    and "parseRequest string_ops t (cn_context conn) (op_peek B buf) = Some (Inr True, c, rest)" "gotAll c"
    and "httpCallback srv (ctx_request c) (HttpResponse_new (wants_close (ctx_request c))) s = (None, resp, s')"
  shows "\<exists>buf'. onMessage (Suc n) A B srv t buf conn s
           = Some (None, buf', conn\<lparr>cn_context := reset c, cn_acts := cn_acts conn @ answer resp\<rparr>, s')
         \<and> ok buf' \<and> op_peek B buf' = rest"
proof -
  obtain buf' where "parseRequest B t (cn_context conn) buf = Some (Inr True, c, buf')" "ok buf'" "op_peek B buf' = rest"
    using message_http_bytes [OF assms(1,3,4)] .
  then show ?thesis
    using assms(5) onRequest_answer [OF assms(6)]
    by (simp add: onMessage_plain [OF assms(2)] message_http_def Let_def)
qed

lemma onMessage_malformed:
  assumes "ok buf" "\<not> srv_useSSL srv" "\<not> gotAll (cn_context conn)"
    and "parseRequest string_ops t (cn_context conn) (op_peek B buf) = Some (Inr False, c, rest)" "\<not> gotAll c"
  shows "\<exists>buf'. onMessage (Suc n) A B srv t buf conn s
           = Some (None, buf', conn\<lparr>cn_context := c, cn_acts := cn_acts conn @ bad_request\<rparr>, s)
         \<and> ok buf' \<and> op_peek B buf' = rest"
proof -
  obtain buf' where "parseRequest B t (cn_context conn) buf = Some (Inr False, c, buf')" "ok buf'" "op_peek B buf' = rest"
    using message_http_bytes [OF assms(1,3,4)] .
  then show ?thesis
    using assms(5) by (simp add: onMessage_plain [OF assms(2)] message_http_def Let_def)
qed

lemma onMessage_fault:
  assumes "ok buf" "\<not> srv_useSSL srv" "\<not> gotAll (cn_context conn)"
    and "parseRequest string_ops t (cn_context conn) (op_peek B buf) = Some (Inl f, c, rest)"
  shows "\<exists>buf'. onMessage (Suc n) A B srv t buf conn s
           = finish (Some (Some (thrown_of_fault f), buf', conn\<lparr>cn_context := c\<rparr>, s))
         \<and> ok buf' \<and> op_peek B buf' = rest"
proof -
  obtain buf' where "parseRequest B t (cn_context conn) buf = Some (Inl f, c, buf')" "ok buf'" "op_peek B buf' = rest"
    using message_http_bytes [OF assms(1,3,4)] .
  then show ?thesis
    by (intro exI [of _ buf']) (simp add: onMessage_plain [OF assms(2)] message_http_def del: finish_simps)
qed

end

text \<open>
  One message, one response. Without TLS, when the bytes in the buffer complete a request
  and the request callback returns a response, \<open>HttpServer::onMessage\<close> sends exactly the bytes of
  that response, once, shuts the connection down exactly when the response says so, and resets
  the context. Bytes after the request stay in the buffer: a further request already there is
  not looked at until another message arrives.
\<close>

theorem onMessage_answers_once:
  assumes "net_buffer B ok" "ok buf" "\<not> srv_useSSL srv" "\<not> gotAll (cn_context conn)"
    and "parseRequest string_ops t (cn_context conn) (op_peek B buf) = Some (Inr True, c, rest)" "gotAll c"
    and "httpCallback srv (ctx_request c) (HttpResponse_new (wants_close (ctx_request c))) s = (None, resp, s')"
  shows "\<exists>buf'. onMessage (Suc n) A B srv t buf conn s
           = Some (None, buf', conn\<lparr>cn_context := reset c, cn_acts := cn_acts conn @ answer resp\<rparr>, s')
         \<and> ok buf' \<and> op_peek B buf' = rest"
  using assms by (rule net_buffer.onMessage_request)

definition plain_conn :: "string Connection" where
  "plain_conn = \<lparr>cn_context = HttpContext_new, cn_acts = [], cn_ssl = None\<rparr>"

lemma reset_new: "reset HttpContext_new = HttpContext_new"
  by (simp add: reset_def HttpContext_new_def swap_def HttpRequest_new_def)

lemma with_old_body_new: "with_old_body HttpContext_new (parsed_request t m p q h) = parsed_request t m p q h"
  by (simp add: with_old_body_def parsed_request_def HttpContext_new_def HttpRequest_new_def)

theorem onMessage_answers_once_witness:
  "\<exists>buf'. onMessage 1 plain_ssl string_ops (HttpServer_new 80 ''s'' False kNoReusePort) 7
       (show_request ''GET'' ''/none'' [] [] ''GET /x'') plain_conn ()
     = Some (None, buf', plain_conn\<lparr>cn_context := reset \<lparr>ctx_state = kGotAll,
           ctx_request = parsed_request 7 ''GET'' ''/none'' [] []\<rparr>,
         cn_acts := answer (set_not_found (HttpResponse_new False))\<rparr>, ()) \<and> buf' = ''GET /x''"
proof -
  let ?c = "\<lparr>ctx_state = kGotAll, ctx_request = parsed_request 7 ''GET'' ''/none'' [] []\<rparr>"
  have p: "parseRequest string_ops 7 HttpContext_new (show_request ''GET'' ''/none'' [] [] ''GET /x'') = Some (Inr True, ?c, ''GET /x'')"
    using parse_no_body [of "''GET''" "''/none''" "[]" "[]" 7 HttpContext_new "''GET /x''"]
    by (simp add: request_ok_def method_of_token_def target_safe_def no_cr_def reset_new with_old_body_new)
  have "httpCallback (HttpServer_new 80 ''s'' False kNoReusePort) (ctx_request ?c) (HttpResponse_new (wants_close (ctx_request ?c))) ()
      = (None, set_not_found (HttpResponse_new False), ())"
    by (simp add: httpCallback_def handleRequest_def route_def Router_new_def processAfter_def
        wants_close_def parsed_request_def getHeader_def)
  with p show ?thesis
    using onMessage_answers_once [OF byte_string.net_buffer_axioms, of "HttpServer_new 80 ''s'' False kNoReusePort" plain_conn 7
        "show_request ''GET'' ''/none'' [] [] ''GET /x''" ?c "''GET /x''" "()" "set_not_found (HttpResponse_new False)" "()" 0 plain_ssl]
    by (simp add: plain_conn_def gotAll_def HttpContext_new_def)
qed

section \<open>A malformed request line\<close>

lemma request_line_twice:
  assumes "processRequestLine line r = Inr (False, r')" "req_method r = kInvalid" "req_method r' \<noteq> kInvalid"
  shows "processRequestLine line r' = Inl Assertion_Failure"
proof (cases "find_char (CHR '' '') line")
  case None
  then show ?thesis using assms by (simp add: processRequestLine_def)
next
  case (Some i)
  then show ?thesis using setMethod_twice [OF assms(3)] by (simp add: processRequestLine_def)
qed

lemma parse_bad_line:
  assumes "CHR 0x0D \<notin> set line" "ctx_state c = kExpectRequestLine"
  shows "processRequestLine line (ctx_request c) = Inr (False, r) \<Longrightarrow>
      parseRequest string_ops t c (line @ crlf @ u) = Some (Inr False, c\<lparr>ctx_request := r\<rparr>, line @ crlf @ u)"
    and "processRequestLine line (ctx_request c) = Inl e \<Longrightarrow>
      parseRequest string_ops t c (line @ crlf @ u) = Some (Inl e, c, line @ crlf @ u)"
  using assms by (simp_all add: parseRequest.simps parse_step_def step_request_line_def)

text \<open>
  A request line with a known method and anything wrong after it, such as an unsupported
  version, is answered with 400, but the line stays in the buffer and the method in the context:
  the next message on the connection, whatever it holds, fails the assertion in
  \<open>HttpRequest::setMethod\<close> and ends the server process.
\<close>

theorem message_after_bad_line_aborts:
  assumes "net_buffer B ok" "ok buf" "\<not> srv_useSSL srv" "ctx_state (cn_context conn) = kExpectRequestLine"
    and "req_method (ctx_request (cn_context conn)) = kInvalid"
    and "op_peek B buf = line @ crlf @ u" "no_cr line"
    and "processRequestLine line (ctx_request (cn_context conn)) = Inr (False, r)" "req_method r \<noteq> kInvalid"
  shows "\<exists>buf' conn'. onMessage (Suc n) A B srv t buf conn s = Some (None, buf', conn', s)
           \<and> cn_acts conn' = cn_acts conn @ bad_request
           \<and> (\<forall>t' more. \<exists>buf'' conn''. onMessage (Suc m) A B srv t' (op_append B more buf') conn' s
                = Some (Some (Crash Assertion_Failure), buf'', conn'', s))"
proof -
  let ?c = "(cn_context conn)\<lparr>ctx_request := r\<rparr>"
  let ?conn = "conn\<lparr>cn_context := ?c, cn_acts := cn_acts conn @ bad_request\<rparr>"
  obtain buf' where b: "onMessage (Suc n) A B srv t buf conn s = Some (None, buf', ?conn, s)" "ok buf'"
      "op_peek B buf' = line @ crlf @ u"
    using net_buffer.onMessage_malformed [OF assms(1-3), of conn t ?c "line @ crlf @ u" n A s]
      parse_bad_line(1) [of line "cn_context conn" r t u] assms(4-8) by (auto simp: gotAll_def no_cr_def)
  have "\<exists>buf'' conn''. onMessage (Suc m) A B srv t' (op_append B more buf') ?conn s
                = Some (Some (Crash Assertion_Failure), buf'', conn'', s)" for t' more
  proof -
    have ok': "ok (op_append B more buf')" "op_peek B (op_append B more buf') = line @ crlf @ u @ more"
      using b net_buffer.ok_append [OF assms(1)] net_buffer.append [OF assms(1)] by simp_all
    have "parseRequest string_ops t' (cn_context ?conn) (op_peek B (op_append B more buf'))
        = Some (Inl Assertion_Failure, ?c, line @ crlf @ u @ more)"
      using parse_bad_line(2) [of line ?c Assertion_Failure t' "u @ more"] request_line_twice [OF assms(8,5,9)]
        assms(4,7) ok'(2) by (simp add: no_cr_def)
    from net_buffer.onMessage_fault [OF assms(1) ok'(1) assms(3) _ this, of m A s] show ?thesis
      using assms(4) by (auto simp: gotAll_def)
  qed
  with b show ?thesis by (intro exI [of _ buf'] exI [of _ ?conn]) simp
qed

theorem message_after_bad_line_aborts_witness:
  "\<exists>buf' conn'. onMessage 1 plain_ssl string_ops (HttpServer_new 80 ''s'' False kNoReusePort) 7 (''GET / HTTP/2.0'' @ crlf) plain_conn ()
       = Some (None, buf', conn', ()) \<and> cn_acts conn' = bad_request
     \<and> (\<exists>buf'' conn''. onMessage 1 plain_ssl string_ops (HttpServer_new 80 ''s'' False kNoReusePort) 8 (buf' @ ''x'') conn' ()
          = Some (Some (Crash Assertion_Failure), buf'', conn'', ()))"
proof -
  let ?r = "HttpRequest_new\<lparr>req_method := kGet, req_path := ''/''\<rparr>"
  have "processRequestLine ''GET / HTTP/2.0'' HttpRequest_new = Inr (False, ?r)"
    by (simp add: processRequestLine_def find_char_def setMethod_def method_of_token_def HttpRequest_new_def setPath_def)
  then show ?thesis
    using message_after_bad_line_aborts [OF byte_string.net_buffer_axioms, of "HttpServer_new 80 ''s'' False kNoReusePort" plain_conn
        "''GET / HTTP/2.0'' @ crlf" "''GET / HTTP/2.0''" "[]" ?r 0 plain_ssl 7 "()" 0]
    by (auto simp: plain_conn_def HttpContext_new_def HttpRequest_new_def no_cr_def dest: spec [of _ 8])
qed

section \<open>A callback that throws\<close>

text \<open>
  A request callback set with \<open>setHttpCallback\<close> that throws a \<open>std::exception\<close> leaves the
  connection stuck: the client gets 400, but the context is not reset and still holds the whole
  request, so the next message on the connection, whatever it holds, enters the parse loop in
  state \<open>kGotAll\<close> and never returns.
\<close>

theorem throwing_callback_stalls:
  assumes "net_buffer B ok" "ok buf" "\<not> srv_useSSL srv" "\<not> gotAll (cn_context conn)"
    and "parseRequest string_ops t (cn_context conn) (op_peek B buf) = Some (Inr True, c, rest)" "gotAll c"
    and "srv_httpCallback srv = Some cb"
    and "cb (ctx_request c) (HttpResponse_new (wants_close (ctx_request c))) s = (Some (Std_Exception e), resp, s')"
  shows "\<exists>buf' conn'. onMessage (Suc n) A B srv t buf conn s = Some (None, buf', conn', s')
           \<and> cn_acts conn' = cn_acts conn @ bad_request
           \<and> (\<forall>t' more s''. onMessage (Suc m) A B srv t' (op_append B more buf') conn' s'' = None)"
proof -
  obtain buf' where "parseRequest B t (cn_context conn) buf = Some (Inr True, c, buf')"
    using net_buffer.message_http_bytes [OF assms(1,2,4,5)] .
  then have "onMessage (Suc n) A B srv t buf conn s
      = Some (None, buf', conn\<lparr>cn_context := c, cn_acts := cn_acts conn @ bad_request\<rparr>, s')"
    using assms(6-8) by (simp add: onMessage_plain [OF assms(3)] message_http_def onRequest_def httpCallback_def Let_def)
  moreover have "onMessage (Suc m) A B srv t' b (conn\<lparr>cn_context := c, cn_acts := cn_acts conn @ bad_request\<rparr>) s'' = None"
    for t' b s''
    using assms(6) parseRequest_None [of c B t' b]
    by (simp add: onMessage_plain [OF assms(3)] message_http_def gotAll_def)
  ultimately show ?thesis by (intro exI [of _ buf'] exI [of _ "conn\<lparr>cn_context := c, cn_acts := cn_acts conn @ bad_request\<rparr>"]) simp
qed

theorem throwing_callback_stalls_witness:
  "\<exists>buf' conn'. onMessage 1 plain_ssl string_ops
       (setHttpCallback (\<lambda>req resp s. (Some (Std_Exception (Runtime_Error ''x'')), resp, s)) (HttpServer_new 80 ''s'' False kNoReusePort)) 7
       (show_request ''GET'' ''/'' [] [] []) plain_conn () = Some (None, buf', conn', ())
     \<and> onMessage 1 plain_ssl string_ops
       (setHttpCallback (\<lambda>req resp s. (Some (Std_Exception (Runtime_Error ''x'')), resp, s)) (HttpServer_new 80 ''s'' False kNoReusePort)) 8
       (buf' @ ''G'') conn' () = None"
proof -
  let ?cb = "(\<lambda>req resp s. (Some (Std_Exception (Runtime_Error ''x'')), resp, s)) :: unit handler"
  let ?c = "\<lparr>ctx_state = kGotAll, ctx_request = parsed_request 7 ''GET'' ''/'' [] []\<rparr>"
  have p: "parseRequest string_ops 7 HttpContext_new (show_request ''GET'' ''/'' [] [] []) = Some (Inr True, ?c, [])"
    using parse_no_body [of "''GET''" "''/''" "[]" "[]" 7 HttpContext_new "[]"]
    by (simp add: request_ok_def method_of_token_def target_safe_def no_cr_def reset_new with_old_body_new)
  have "\<exists>buf' conn'. onMessage (Suc 0) plain_ssl string_ops (setHttpCallback ?cb (HttpServer_new 80 ''s'' False kNoReusePort)) 7
        (show_request ''GET'' ''/'' [] [] []) plain_conn () = Some (None, buf', conn', ())
      \<and> cn_acts conn' = cn_acts plain_conn @ bad_request
      \<and> (\<forall>t' more s''. onMessage (Suc 0) plain_ssl string_ops (setHttpCallback ?cb (HttpServer_new 80 ''s'' False kNoReusePort)) t'
          (op_append string_ops more buf') conn' s'' = None)"
    by (rule throwing_callback_stalls [OF byte_string.net_buffer_axioms, where c = ?c and rest = "[]" and cb = ?cb
          and e = "Runtime_Error ''x''" and resp = "HttpResponse_new (wants_close (ctx_request ?c))"])
      (use p in \<open>simp_all add: setHttpCallback_def plain_conn_def gotAll_def HttpContext_new_def\<close>)
  then show ?thesis by auto
qed

section \<open>Not found\<close>

text \<open>
  The 404 response has no HTTP version. When no route takes a request and the middlewares
  only decorate, the response sent by the server starts with \<open>" 404 Not Found"\<close>, a status line
  whose version is empty: \<open>handleRequest\<close> sets code and message but never the version.
\<close>

theorem not_found_without_version:
  assumes "net_buffer B ok" "srv_httpCallback srv = None"
    and "processBefore (srv_chain srv) req s = (None, req', s1)"
    and "route (srv_router srv) req' (HttpResponse_new (wants_close req)) s1
           = (Inr False, HttpResponse_new (wants_close req), s2)"
    and "\<forall>m. Some m \<in> set (srv_chain srv) \<longrightarrow> decorating_middleware m"
  shows "\<exists>rest s'. onRequest B srv req acts s
           = (None, acts @ [Send ('' 404 Not Found'' @ crlf @ rest), Shutdown_Conn], s')"
proof -
  obtain hs s' where pa: "processAfter (srv_chain srv) (set_not_found (HttpResponse_new (wants_close req))) s2
      = (None, (set_not_found (HttpResponse_new (wants_close req)))\<lparr>rsp_headers := hs\<rparr>, s')"
    using processAfter_headers_only [OF assms(5)] by blast
  let ?resp = "(set_not_found (HttpResponse_new (wants_close req)))\<lparr>rsp_headers := hs\<rparr>"
  have "httpCallback srv req (HttpResponse_new (wants_close req)) s = (None, ?resp, s')"
    using assms(2-4) pa by (simp add: httpCallback_def handleRequest_def)
  from net_buffer.onRequest_answer [OF assms(1) this, of acts]
  have "onRequest B srv req acts s = (None, acts @ answer ?resp, s')" .
  moreover have "string_of_nat 404 = ''404''" by code_simp
  then have "\<exists>rest. answer ?resp = [Send ('' 404 Not Found'' @ crlf @ rest), Shutdown_Conn]"
    by (simp add: answer_def response_bytes_def status_buf_def c_str_def set_not_found_def rsp_setters HttpResponse_new_def)
  ultimately show ?thesis by auto
qed

theorem not_found_without_version_witness:
  "\<exists>rest s'. onRequest string_ops (srv_addMiddleware (Some (CorsMiddleware defaultConfig)) (HttpServer_new 80 ''s'' False kNoReusePort))
      (parsed_request 7 ''GET'' ''/none'' [] []) [] ()
    = (None, [] @ [Send ('' 404 Not Found'' @ crlf @ rest), Shutdown_Conn], s')"
  by (rule not_found_without_version [OF byte_string.net_buffer_axioms, where req' = "parsed_request 7 ''GET'' ''/none'' [] []" and ?s1.0 = "()" and ?s2.0 = "()"])
    (simp_all add: srv_addMiddleware_def addMiddleware_def CorsMiddleware_def cors_before_def
      parsed_request_def method_of_token_def route_def Router_new_def cors.decorating_middleware_axioms [unfolded CorsMiddleware_def])

section \<open>Messages with TLS\<close>

text \<open>What a TLS connection can do to the TCP connection and the rest of the state: shut it down.\<close>

definition only_shutdowns :: "action list \<Rightarrow> action list \<Rightarrow> bool" where
  "only_shutdowns acts acts' \<longleftrightarrow> (\<exists>k. acts' = acts @ replicate k Shutdown_Conn)"

lemma only_shutdowns_refl [simp]: "only_shutdowns acts acts"
  by (auto simp: only_shutdowns_def intro: exI [of _ 0])

lemma only_shutdowns_one [simp]: "only_shutdowns acts (acts @ [Shutdown_Conn])"
  by (auto simp: only_shutdowns_def intro: exI [of _ 1])

lemma only_shutdowns_trans: "only_shutdowns a b \<Longrightarrow> only_shutdowns b c \<Longrightarrow> only_shutdowns a c"
  by (auto simp: only_shutdowns_def replicate_add [symmetric])

fun not_caught :: "thrown option \<Rightarrow> bool" where
  "not_caught (Some (Std_Exception e)) \<longleftrightarrow> False"
| "not_caught _ \<longleftrightarrow> True"

lemma handleHandshake_quiet:
  assumes "handleHandshake A sc acts = (e, sc', acts')"
  shows "only_shutdowns acts acts' \<and> ssl_decryptedBuffer sc' = ssl_decryptedBuffer sc \<and> not_caught e"
  using assms by (auto simp: handleHandshake_def Let_def split: option.splits prod.splits if_splits ossl_error.splits)

lemma onRead_quiet:
  assumes "onRead A cb bytes sc acts x = Some (e, rest, sc', acts', x')" "ssl_decryptedBuffer sc = []"
    and "\<And>data sc1 acts1 x1 e2 sc2 acts2 x2. cb data sc1 acts1 x1 = Some (e2, sc2, acts2, x2) \<Longrightarrow>
      ssl_decryptedBuffer sc1 = [] \<Longrightarrow>
      x2 = x1 \<and> only_shutdowns acts1 acts2 \<and> ssl_decryptedBuffer sc2 = [] \<and> not_caught e2"
  shows "x' = x \<and> only_shutdowns acts acts' \<and> ssl_decryptedBuffer sc' = [] \<and> not_caught e"
proof (cases "ssl_obj sc")
  case None
  then show ?thesis using assms(1,2) by (auto simp: onRead_def split: SSLState.splits)
next
  case (Some obj)
  show ?thesis
  proof (cases "ssl_state sc")
    case HANDSHAKE
    then show ?thesis
      using assms(1,2) Some
        handleHandshake_quiet [of A "sc\<lparr>ssl_obj := Some (bio_write A bytes obj)\<rparr>" acts e sc' acts']
      by (auto simp: onRead_def Let_def split: prod.splits)
  next
    case ESTABLISHED
    obtain ret data obj' where r: "ossl_read A 4096 obj = ((ret, data), obj')" by (metis surj_pair)
    show ?thesis
      using assms(1,2) Some ESTABLISHED r assms(3) [of data "sc\<lparr>ssl_obj := Some obj'\<rparr>" acts x]
      by (auto simp: onRead_def Let_def split: if_splits option.splits)
  qed (use assms(1,2) Some in \<open>auto simp: onRead_def\<close>)
qed

lemma catch_std_not_caught: "not_caught e \<Longrightarrow> catch_std e conn = (e, conn)"
  by (cases "(e, conn)" rule: catch_std.cases) auto

lemma ssl_callback_quiet:
  assumes "ssl_callback B message data sc acts x = Some (e, sc', acts', x')" "ssl_decryptedBuffer sc = []"
    and "\<And>buf conn s e buf' conn' s' sc. message buf conn s = Some (e, buf', conn', s') \<Longrightarrow>
      cn_ssl conn = Some sc \<Longrightarrow> ssl_decryptedBuffer sc = [] \<Longrightarrow>
      s' = s \<and> cn_context conn' = cn_context conn \<and> only_shutdowns (cn_acts conn) (cn_acts conn')
      \<and> (\<exists>sc'. cn_ssl conn' = Some sc' \<and> ssl_decryptedBuffer sc' = []) \<and> not_caught e"
  shows "x' = x \<and> only_shutdowns acts acts' \<and> ssl_decryptedBuffer sc' = [] \<and> not_caught e"
proof -
  obtain b' conn' s' where m: "message (op_append B data (op_new B)) \<lparr>cn_context = fst x, cn_acts = acts, cn_ssl = Some sc\<rparr> (snd x)
      = Some (e, b', conn', s')" "acts' = cn_acts conn'" "x' = (cn_context conn', s')"
      "sc' = (case cn_ssl conn' of Some sc' \<Rightarrow> sc' | None \<Rightarrow> sc)"
    using assms(1) by (auto simp: ssl_callback_def split: option.splits)
  from assms(3) [OF m(1) _ assms(2)] show ?thesis using m(2-4) by auto
qed

lemma onMessage_ssl_quiet:
  assumes "srv_useSSL srv"
  shows "onMessage n A B srv t buf conn s = Some (e, buf', conn', s') \<Longrightarrow>
     cn_ssl conn = Some sc \<Longrightarrow> ssl_decryptedBuffer sc = [] \<Longrightarrow>
     s' = s \<and> cn_context conn' = cn_context conn \<and> only_shutdowns (cn_acts conn) (cn_acts conn')
     \<and> (\<exists>sc'. cn_ssl conn' = Some sc' \<and> ssl_decryptedBuffer sc' = []) \<and> not_caught e"
proof (induction n arbitrary: buf conn s e buf' conn' s' sc)
  case 0
  then show ?case by (simp add: onMessage.simps)
next
  case (Suc n)
  let ?cb = "ssl_callback B (onMessage n A B srv t)"
  have cb: "x2 = x1 \<and> only_shutdowns acts1 acts2 \<and> ssl_decryptedBuffer sc2 = [] \<and> not_caught e2"
    if "?cb data sc1 acts1 x1 = Some (e2, sc2, acts2, x2)" "ssl_decryptedBuffer sc1 = []"
    for data sc1 acts1 x1 e2 sc2 acts2 x2
    by (rule ssl_callback_quiet [OF that]) (rule Suc.IH)
  obtain e1 rest sc' acts' c1 s1 where r: "onRead A ?cb (op_peek B buf) sc (cn_acts conn) (cn_context conn, s)
      = Some (e1, rest, sc', acts', (c1, s1))"
    using Suc.prems assms by (auto simp: onMessage.simps finish_def split: option.splits)
  note q = onRead_quiet [OF r Suc.prems(3) cb]
  have "onMessage (Suc n) A B srv t buf conn s = finish (Some (e1,
      op_retrieve B (length (op_peek B buf) - length rest) buf, \<lparr>cn_context = c1, cn_acts = acts', cn_ssl = Some sc'\<rparr>, s1))"
    using Suc.prems(2) assms r q by (simp add: onMessage.simps Let_def)
  then show ?case
    using Suc.prems(1) q by (auto simp: finish_def catch_std_not_caught)
qed

text \<open>
  A TLS connection from its start: \<open>onConnection\<close> makes the \<open>SslConnection\<close>, whose constructor
  makes its own \<open>onRead\<close> the message callback of the TCP connection; then segments arrive.
\<close>

definition tls_message :: "nat \<Rightarrow> 'o ssl_api \<Rightarrow> 'b buffer_ops \<Rightarrow> 's HttpServer \<Rightarrow> Timestamp \<Rightarrow> 'b \<Rightarrow> 'o Connection \<Rightarrow> 's
                           \<Rightarrow> (thrown option \<times> 'b \<times> 'o Connection \<times> 's) option" where
  "tls_message n A B srv t buf conn s =
     (case cn_ssl conn of
        None \<Rightarrow> Some (None, buf, conn, s)
      | Some sc \<Rightarrow>
          (case onRead A (ssl_callback B (onMessage n A B srv t)) (op_peek B buf) sc (cn_acts conn) (cn_context conn, s) of
             None \<Rightarrow> None
           | Some (e, rest, sc', acts', (c', s')) \<Rightarrow>
               Some (e, op_retrieve B (length (op_peek B buf) - length rest) buf,
                     \<lparr>cn_context = c', cn_acts = acts', cn_ssl = Some sc'\<rparr>, s')))"

fun tls_run :: "nat \<Rightarrow> 'o ssl_api \<Rightarrow> 'b buffer_ops \<Rightarrow> 's HttpServer \<Rightarrow> (Timestamp \<times> string) list \<Rightarrow> 'b \<Rightarrow> 'o Connection \<Rightarrow> 's
                \<Rightarrow> (thrown option \<times> 'b \<times> 'o Connection \<times> 's) option" where
  "tls_run n A B srv [] buf conn s = Some (None, buf, conn, s)"
| "tls_run n A B srv ((t, bytes) # ms) buf conn s =
     (case tls_message n A B srv t (op_append B bytes buf) conn s of
        None \<Rightarrow> None
      | Some (Some e, buf', conn', s') \<Rightarrow> Some (Some e, buf', conn', s')
      | Some (None, buf', conn', s') \<Rightarrow> tls_run n A B srv ms buf' conn' s')"

lemma tls_message_quiet:
  assumes "srv_useSSL srv" "tls_message n A B srv t buf conn s = Some (e, buf', conn', s')"
    and "cn_ssl conn = Some sc" "ssl_decryptedBuffer sc = []"
  shows "s' = s \<and> only_shutdowns (cn_acts conn) (cn_acts conn')
    \<and> (\<exists>sc'. cn_ssl conn' = Some sc' \<and> ssl_decryptedBuffer sc' = [])"
proof -
  obtain e1 rest sc' acts' c1 s1 where r: "onRead A (ssl_callback B (onMessage n A B srv t)) (op_peek B buf) sc
      (cn_acts conn) (cn_context conn, s) = Some (e1, rest, sc', acts', (c1, s1))"
      "conn' = \<lparr>cn_context = c1, cn_acts = acts', cn_ssl = Some sc'\<rparr>" "s' = s1"
    using assms(2,3) by (auto simp: tls_message_def split: option.splits)
  have "(c1, s1) = (cn_context conn, s) \<and> only_shutdowns (cn_acts conn) acts' \<and> ssl_decryptedBuffer sc' = [] \<and> not_caught e1"
    by (rule onRead_quiet [OF r(1) assms(4)], rule ssl_callback_quiet, assumption, assumption)
      (rule onMessage_ssl_quiet [OF assms(1)])
  with r(2,3) show ?thesis by simp
qed

lemma tls_run_quiet:
  assumes "srv_useSSL srv"
  shows "tls_run n A B srv ms buf conn s = Some (e, buf', conn', s') \<Longrightarrow>
    cn_ssl conn = Some sc \<Longrightarrow> ssl_decryptedBuffer sc = [] \<Longrightarrow>
    s' = s \<and> only_shutdowns (cn_acts conn) (cn_acts conn')"
proof (induction ms arbitrary: buf conn s sc)
  case Nil
  then show ?case by simp
next
  case (Cons m ms)
  obtain t bytes where m: "m = (t, bytes)" by (cases m)
  obtain e1 b1 conn1 s1 where d: "tls_message n A B srv t (op_append B bytes buf) conn s = Some (e1, b1, conn1, s1)"
    using Cons.prems(1) m by (auto split: option.splits)
  from tls_message_quiet [OF assms d Cons.prems(2,3)] obtain sc1 where
    q: "s1 = s" "only_shutdowns (cn_acts conn) (cn_acts conn1)" "cn_ssl conn1 = Some sc1" "ssl_decryptedBuffer sc1 = []"
    by blast
  show ?case
  proof (cases e1)
    case None
    then have "tls_run n A B srv ms b1 conn1 s1 = Some (e, buf', conn', s')" using Cons.prems(1) m d by simp
    from Cons.IH [OF this q(3,4)] q(1,2) show ?thesis by (auto intro: only_shutdowns_trans)
  next
    case (Some x)
    then show ?thesis using Cons.prems(1) m d q by simp
  qed
qed

text \<open>
  C38: A server with TLS never answers. Whatever OpenSSL does, from the acceptance of a connection
  and for every sequence of segments arriving on it, no byte is ever sent to the client (not even
  those of the handshake, which stay in the write BIO) and the application is never called; the
  only thing that can happen to the TCP connection is that it is shut down. Decrypted bytes go to
  a local buffer, while the server looks at the member \<open>decryptedBuffer_\<close>, which nothing fills.
\<close>

theorem https_never_answers:
  assumes "srv_useSSL srv" "onConnection A srv True conn0 = (None, conn)" "cn_acts conn0 = []"
    and "tls_run n A B srv ms buf conn s = Some (e, buf', conn', s')"
  shows "s' = s \<and> (\<forall>a \<in> set (cn_acts conn'). a = Shutdown_Conn)"
proof -
  obtain sc acts where h: "startHandshake A (setMessageCallback (SslConnection_new A)) [] = (None, sc, acts)"
      "conn = conn0\<lparr>cn_ssl := Some sc, cn_acts := acts, cn_context := HttpContext_new\<rparr>"
    using assms(1-3) by (auto simp: onConnection_def split: if_splits prod.splits option.splits)
  have q: "only_shutdowns [] acts" "ssl_decryptedBuffer sc = []"
    using handleHandshake_quiet [of A "setMessageCallback (SslConnection_new A)" "[]" None sc acts] h(1)
    by (simp_all add: startHandshake_def setMessageCallback_def SslConnection_new_def)
  have "s' = s \<and> only_shutdowns (cn_acts conn) (cn_acts conn')"
    by (rule tls_run_quiet [OF assms(1,4)]) (use h q in simp_all)
  then show ?thesis using q(1) h(2) by (auto simp: only_shutdowns_def)
qed

theorem https_never_answers_witness:
  "\<exists>e buf' conn' s'. tls_run 1 plain_ssl string_ops ((HttpServer_new 443 ''s'' True kNoReusePort)\<lparr>srv_sslCtx := True\<rparr>) [(1, ''GET'')] []
      (snd (onConnection plain_ssl ((HttpServer_new 443 ''s'' True kNoReusePort)\<lparr>srv_sslCtx := True\<rparr> :: nat HttpServer) True plain_conn)) (5 :: nat)
        = Some (e, buf', conn', s')
    \<and> s' = 5 \<and> (\<forall>a \<in> set (cn_acts conn'). a = Shutdown_Conn)"
proof -
  let ?srv = "(HttpServer_new 443 ''s'' True kNoReusePort)\<lparr>srv_sslCtx := True\<rparr> :: nat HttpServer"
  have c: "onConnection plain_ssl ?srv True plain_conn = (None, snd (onConnection plain_ssl ?srv True plain_conn))"
    by (simp add: onConnection_def startHandshake_def handleHandshake_def setMessageCallback_def
        SslConnection_new_def plain_ssl_def)
  obtain e buf' conn' s' where r: "tls_run 1 plain_ssl string_ops ?srv [(1, ''GET'')] []
      (snd (onConnection plain_ssl ?srv True plain_conn)) (5 :: nat) = Some (e, buf', conn', s')"
    by (simp add: onConnection_def startHandshake_def handleHandshake_def setMessageCallback_def
        SslConnection_new_def plain_ssl_def tls_message_def onRead_def)
  have "s' = 5 \<and> (\<forall>a \<in> set (cn_acts conn'). a = Shutdown_Conn)"
    by (rule https_never_answers [OF _ c _ r]) (simp_all add: plain_conn_def)
  with r show ?thesis by blast
qed

end
