(* ===== verification/Session.thy ===== *)
theory Session
  imports Http_Request Http_Response
begin

text \<open>
  Sessions (\<open>HttpServer/src/session\<close>): \<open>Session\<close>, the abstract \<open>SessionStorage\<close> with its in-memory
  implementation, and \<open>SessionManager\<close>. A \<open>shared_ptr<Session>\<close> is an address in a heap of session
  objects (a list that only grows), because the storage and the handlers share the object: what
  a handler writes through its pointer is in the storage at once. \<open>system_clock::now()\<close> is read
  several times in one call; the readings are an input, \<open>clk 0\<close>, \<open>clk 1\<close>, ..., in nanoseconds.
  The random source is a parameter, a function from its state to a draw and the next state. The
  contract of a storage is the locale \<open>session_storage\<close>; the manager is verified against it.
\<close>

type_synonym time = int
type_synonym addr = nat

definition ticks :: "int \<Rightarrow> time" where
  "ticks seconds = seconds * 1000000000"

section \<open>Session\<close>

record Session =
  ses_id :: string
  ses_data :: "string \<rightharpoonup> string"
  ses_expiryTime :: time
  ses_maxAge :: int
  ses_manager :: bool

definition isExpired :: "time \<Rightarrow> Session \<Rightarrow> bool" where
  "isExpired now x \<longleftrightarrow> ses_expiryTime x < now"

definition refresh :: "time \<Rightarrow> Session \<Rightarrow> Session" where
  "refresh now x = x\<lparr>ses_expiryTime := now + ticks (ses_maxAge x)\<rparr>"

definition Session_new :: "time \<Rightarrow> string \<Rightarrow> bool \<Rightarrow> int \<Rightarrow> Session" where
  "Session_new now sessionId manager maxAge =
     refresh now \<lparr>ses_id = sessionId, ses_data = Map.empty, ses_expiryTime = 0, ses_maxAge = maxAge,
                  ses_manager = manager\<rparr>"

definition setManager :: "bool \<Rightarrow> Session \<Rightarrow> Session" where
  "setManager m x = x\<lparr>ses_manager := m\<rparr>"

definition getValue :: "string \<Rightarrow> Session \<Rightarrow> string" where
  "getValue key x = (case ses_data x key of Some v \<Rightarrow> v | None \<Rightarrow> [])"

definition remove :: "string \<Rightarrow> Session \<Rightarrow> Session" where
  "remove key x = x\<lparr>ses_data := (ses_data x)(key := None)\<rparr>"

definition clear :: "Session \<Rightarrow> Session" where
  "clear x = x\<lparr>ses_data := Map.empty\<rparr>"

section \<open>Storage\<close>

type_synonym heap = "Session list"

record 'st storage_ops =
  st_save :: "heap \<Rightarrow> addr \<Rightarrow> 'st \<Rightarrow> 'st"
  st_load :: "time \<Rightarrow> heap \<Rightarrow> string \<Rightarrow> 'st \<Rightarrow> addr option \<times> 'st"
  st_remove :: "string \<Rightarrow> 'st \<Rightarrow> 'st"

text \<open>\<open>MemorySessionStorage\<close>: \<open>sessions_\<close>, from session ids to pointers.\<close>

type_synonym MemorySessionStorage = "string \<rightharpoonup> addr"

definition mem_save :: "heap \<Rightarrow> addr \<Rightarrow> MemorySessionStorage \<Rightarrow> MemorySessionStorage" where
  "mem_save h a st = st(ses_id (h ! a) \<mapsto> a)"

definition mem_load :: "time \<Rightarrow> heap \<Rightarrow> string \<Rightarrow> MemorySessionStorage \<Rightarrow> addr option \<times> MemorySessionStorage" where
  "mem_load now h sessionId st =
     (case st sessionId of
        Some a \<Rightarrow> if \<not> isExpired now (h ! a) then (Some a, st) else (None, st(sessionId := None))
      | None \<Rightarrow> (None, st))"

definition mem_remove :: "string \<Rightarrow> MemorySessionStorage \<Rightarrow> MemorySessionStorage" where
  "mem_remove sessionId st = st(sessionId := None)"

definition memory_storage :: "MemorySessionStorage storage_ops" where
  "memory_storage = \<lparr>st_save = mem_save, st_load = mem_load, st_remove = mem_remove\<rparr>"

section \<open>Manager\<close>

record ('st, 'g) SessionManager =
  mgr_storage :: 'st
  mgr_rng :: 'g

definition SessionManager_new :: "'st \<Rightarrow> 'g \<Rightarrow> ('st, 'g) SessionManager" where
  "SessionManager_new storage rng = \<lparr>mgr_storage = storage, mgr_rng = rng\<rparr>"

definition updateSession :: "'st storage_ops \<Rightarrow> heap \<Rightarrow> addr \<Rightarrow> ('st, 'g) SessionManager \<Rightarrow> ('st, 'g) SessionManager" where
  "updateSession S h a M = M\<lparr>mgr_storage := st_save S h a (mgr_storage M)\<rparr>"

definition setValue :: "'st storage_ops \<Rightarrow> addr \<Rightarrow> string \<Rightarrow> string \<Rightarrow> heap \<Rightarrow> ('st, 'g) SessionManager
                        \<Rightarrow> heap \<times> ('st, 'g) SessionManager" where
  "setValue S a key value h M =
     (let h' = h[a := (h ! a)\<lparr>ses_data := (ses_data (h ! a))(key \<mapsto> value)\<rparr>]
      in (h', if ses_manager (h' ! a) then updateSession S h' a M else M))"

text \<open>\<open>ss << std::hex << d\<close> for a draw \<open>d\<close> of 0 to 15.\<close>

definition hex_digit :: "nat \<Rightarrow> char" where
  "hex_digit d = ''0123456789abcdef'' ! d"

fun draw_digits :: "('g \<Rightarrow> nat \<times> 'g) \<Rightarrow> nat \<Rightarrow> 'g \<Rightarrow> string \<times> 'g" where
  "draw_digits dist 0 g = ([], g)"
| "draw_digits dist (Suc n) g =
     (let (d, g1) = dist g; (s, g2) = draw_digits dist n g1 in (hex_digit d # s, g2))"

definition generateSessionId :: "('g \<Rightarrow> nat \<times> 'g) \<Rightarrow> 'g \<Rightarrow> string \<times> 'g" where
  "generateSessionId dist g = draw_digits dist 32 g"

definition getSessionIdFromCookie :: "HttpRequest \<Rightarrow> string" where
  "getSessionIdFromCookie req =
     (let cookie = getHeader ''Cookie'' req in
      if cookie \<noteq> []
      then (case find_str ''sessionId='' cookie of
              Some pos0 \<Rightarrow>
                let pos = pos0 + 10 in
                (case find_char (CHR '';'') (drop pos cookie) of
                   Some n \<Rightarrow> substr cookie pos n
                 | None \<Rightarrow> drop pos cookie)
            | None \<Rightarrow> [])
      else [])"

definition setSessionCookie :: "string \<Rightarrow> HttpResponse \<Rightarrow> HttpResponse" where
  "setSessionCookie sessionId resp =
     rsp_addHeader ''Set-Cookie'' (''sessionId='' @ sessionId @ ''; Path=/; HttpOnly'') resp"

definition getSession ::
  "'st storage_ops \<Rightarrow> ('g \<Rightarrow> nat \<times> 'g) \<Rightarrow> (nat \<Rightarrow> time) \<Rightarrow> HttpRequest \<Rightarrow> HttpResponse \<Rightarrow> heap
   \<Rightarrow> ('st, 'g) SessionManager \<Rightarrow> addr \<times> HttpResponse \<times> heap \<times> ('st, 'g) SessionManager" where
  "getSession S dist clk req resp h M =
     (let sessionId = getSessionIdFromCookie req;
          (session, st1) = (if sessionId \<noteq> [] then st_load S (clk 0) h sessionId (mgr_storage M)
                            else (None, mgr_storage M));
          M1 = M\<lparr>mgr_storage := st1\<rparr>;
          found = (case session of None \<Rightarrow> None | Some a \<Rightarrow> if isExpired (clk 1) (h ! a) then None else Some a);
          (a, resp1, h1, M2) =
            (case found of
               None \<Rightarrow>
                 let (newId, g) = generateSessionId dist (mgr_rng M1)
                 in (length h, setSessionCookie newId resp, h @ [Session_new (clk 2) newId True 3600],
                     M1\<lparr>mgr_rng := g\<rparr>)
             | Some a \<Rightarrow> (a, resp, h[a := setManager True (h ! a)], M1));
          h2 = h1[a := refresh (clk 3) (h1 ! a)]
      in (a, resp1, h2, updateSession S h2 a M2))"

definition destroySession :: "'st storage_ops \<Rightarrow> string \<Rightarrow> ('st, 'g) SessionManager \<Rightarrow> ('st, 'g) SessionManager" where
  "destroySession S sessionId M = M\<lparr>mgr_storage := st_remove S sessionId (mgr_storage M)\<rparr>"

definition cleanExpiredSessions :: "('st, 'g) SessionManager \<Rightarrow> ('st, 'g) SessionManager" where
  "cleanExpiredSessions M = M"

section \<open>The contract of a storage\<close>

text \<open>
  \<open>peek\<close> is what the storage holds: the pointer stored under each id. Loading gives the pointer
  exactly when one is stored and its session has not expired; otherwise the entry is gone.
\<close>

text \<open>Every stored pointer is to a session of the heap with the id it is stored under.\<close>

definition store_ok :: "heap \<Rightarrow> (string \<rightharpoonup> addr) \<Rightarrow> bool" where
  "store_ok h m \<longleftrightarrow> (\<forall>sid a. m sid = Some a \<longrightarrow> a < length h \<and> ses_id (h ! a) = sid)"

lemma store_ok_mono:
  assumes "store_ok h m" "m' \<subseteq>\<^sub>m m"
    and "length h \<le> length h'" "\<And>a. a < length h \<Longrightarrow> ses_id (h' ! a) = ses_id (h ! a)"
  shows "store_ok h' m'"
  unfolding store_ok_def
proof (intro allI impI)
  fix sid a assume "m' sid = Some a"
  then have "m sid = Some a" using assms(2) by (metis domI map_le_def)
  then have "a < length h" "ses_id (h ! a) = sid" using assms(1) by (auto simp: store_ok_def)
  then show "a < length h' \<and> ses_id (h' ! a) = sid" using assms(3,4) by auto
qed

lemma store_ok_put: "store_ok h m \<Longrightarrow> a < length h \<Longrightarrow> store_ok h (m(ses_id (h ! a) \<mapsto> a))"
  by (auto simp: store_ok_def)

lemma store_ok_drop: "store_ok h m \<Longrightarrow> store_ok h (m(sid := None))"
  by (auto simp: store_ok_def)

locale session_storage =
  fixes S :: "'st storage_ops"
    and peek :: "'st \<Rightarrow> string \<rightharpoonup> addr"
  assumes save: "peek (st_save S h a st) = (peek st)(ses_id (h ! a) \<mapsto> a)"
    and load_hit: "peek st sid = Some a \<Longrightarrow> \<not> isExpired now (h ! a) \<Longrightarrow>
          fst (st_load S now h sid st) = Some a \<and> peek (snd (st_load S now h sid st)) = peek st"
    and load_miss: "(\<forall>a. peek st sid = Some a \<longrightarrow> isExpired now (h ! a)) \<Longrightarrow>
          fst (st_load S now h sid st) = None \<and> peek (snd (st_load S now h sid st)) = (peek st)(sid := None)"
    and remove: "peek (st_remove S sid st) = (peek st)(sid := None)"
begin

lemma load_cases:
  obtains (hit) a st' where "st_load S now h sid st = (Some a, st')" "peek st sid = Some a"
      "\<not> isExpired now (h ! a)" "peek st' = peek st"
    | (miss) st' where "st_load S now h sid st = (None, st')" "peek st' = (peek st)(sid := None)"
proof (cases "\<exists>a. peek st sid = Some a \<and> \<not> isExpired now (h ! a)")
  case True
  then obtain a where a: "peek st sid = Some a" "\<not> isExpired now (h ! a)" by blast
  from load_hit [OF a] show ?thesis by (metis a hit prod.collapse)
next
  case False
  then have "\<forall>a. peek st sid = Some a \<longrightarrow> isExpired now (h ! a)" by blast
  from load_miss [OF this] show ?thesis by (metis miss prod.collapse)
qed

end

interpretation mem: session_storage memory_storage "\<lambda>st. st"
  by unfold_locales
    (auto simp: memory_storage_def mem_save_def mem_load_def mem_remove_def fun_upd_idem split: option.splits)

section \<open>Cookies and ids\<close>

lemma draw_digits_length: "length (fst (draw_digits dist n g)) = n"
  by (induction n arbitrary: g) (simp_all add: Let_def case_prod_beta)

definition hex_alphabet :: "char set" where
  "hex_alphabet = set ''0123456789abcdef''"

lemma hex_digit_in: "d < 16 \<Longrightarrow> hex_digit d \<in> hex_alphabet"
  unfolding hex_digit_def hex_alphabet_def by (rule nth_mem) simp

lemma draw_digits_hex:
  assumes "\<forall>g. fst (dist g) < 16"
  shows "set (fst (draw_digits dist n g)) \<subseteq> hex_alphabet"
  using assms by (induction n arbitrary: g) (simp_all add: Let_def case_prod_beta hex_digit_in)

lemma getSessionId_no_semicolon: "CHR '';'' \<notin> set (getSessionIdFromCookie req)"
proof (cases "find_str ''sessionId='' (getHeader ''Cookie'' req)")
  case None
  then have "getSessionIdFromCookie req = []" by (simp add: getSessionIdFromCookie_def Let_def)
  then show ?thesis by simp
next
  case pos: (Some pos)
  let ?s = "drop (pos + 10) (getHeader ''Cookie'' req)"
  have "getHeader ''Cookie'' req \<noteq> []" using pos by auto
  with pos have eq: "getSessionIdFromCookie req
      = (case find_char (CHR '';'') ?s of Some n \<Rightarrow> substr (getHeader ''Cookie'' req) (pos + 10) n | None \<Rightarrow> ?s)"
    by (simp add: getSessionIdFromCookie_def Let_def)
  show ?thesis
  proof (cases "find_char (CHR '';'') ?s")
    case None
    from find_char_None [THEN iffD1, OF this] show ?thesis unfolding eq None option.case .
  next
    case (Some n)
    from find_char_split(3) [OF this] show ?thesis unfolding eq Some option.case substr_def .
  qed
qed

definition cookie_tail :: "string \<Rightarrow> bool" where
  "cookie_tail s \<longleftrightarrow> s = [] \<or> hd s = CHR '';''"

lemma getSessionId_of_cookie:
  assumes "getHeader ''Cookie'' req = ''sessionId='' @ sid @ post" "CHR '';'' \<notin> set sid" "cookie_tail post"
  shows "getSessionIdFromCookie req = sid"
proof (cases post)
  case Nil
  then show ?thesis using assms by (simp add: getSessionIdFromCookie_def)
next
  case (Cons c cs)
  then have "find_char (CHR '';'') (sid @ post) = Some (length sid)"
    using assms(2,3) by (simp add: cookie_tail_def)
  then show ?thesis using assms Cons by (simp add: getSessionIdFromCookie_def substr_def)
qed

section \<open>What the manager does\<close>

lemma refresh_simps [simp]:
  "ses_id (refresh t x) = ses_id x" "ses_data (refresh t x) = ses_data x"
  "ses_maxAge (refresh t x) = ses_maxAge x" "ses_manager (refresh t x) = ses_manager x"
  "ses_expiryTime (refresh t x) = t + ticks (ses_maxAge x)"
  by (simp_all add: refresh_def)

lemma setManager_simps [simp]:
  "ses_id (setManager m x) = ses_id x" "ses_data (setManager m x) = ses_data x"
  "ses_maxAge (setManager m x) = ses_maxAge x" "ses_manager (setManager m x) = m"
  by (simp_all add: setManager_def)

lemma Session_new_simps [simp]:
  "ses_id (Session_new t i m n) = i" "ses_manager (Session_new t i m n) = m"
  "ses_data (Session_new t i m n) = Map.empty" "ses_maxAge (Session_new t i m n) = n"
  "refresh t' (Session_new t i m n) = Session_new t' i m n"
  by (simp_all add: Session_new_def refresh_def)

text \<open>The session a request carries, when it is stored and alive at both readings of the clock.\<close>

definition live :: "(string \<rightharpoonup> addr) \<Rightarrow> (nat \<Rightarrow> time) \<Rightarrow> heap \<Rightarrow> HttpRequest \<Rightarrow> addr option" where
  "live m clk h req =
     (let sid = getSessionIdFromCookie req in
      if sid = [] then None
      else (case m sid of
              Some a \<Rightarrow> if isExpired (clk 0) (h ! a) \<or> isExpired (clk 1) (h ! a) then None else Some a
            | None \<Rightarrow> None))"

lemma updateSession_simps [simp]:
  "mgr_rng (updateSession S h a M) = mgr_rng M"
  "mgr_storage (updateSession S h a M) = st_save S h a (mgr_storage M)"
  by (simp_all add: updateSession_def)

context session_storage
begin

lemma getSession_existing:
  assumes "live (peek (mgr_storage M)) clk h req = Some a" "a < length h"
  shows "\<exists>M'. getSession S dist clk req resp h M = (a, resp, h[a := refresh (clk 3) (setManager True (h ! a))], M')
           \<and> mgr_rng M' = mgr_rng M
           \<and> peek (mgr_storage M') = (peek (mgr_storage M))(ses_id (h ! a) \<mapsto> a)"
proof -
  let ?sid = "getSessionIdFromCookie req"
  have l: "?sid \<noteq> []" "peek (mgr_storage M) ?sid = Some a" "\<not> isExpired (clk 0) (h ! a)" "\<not> isExpired (clk 1) (h ! a)"
    using assms(1) by (auto simp: live_def Let_def split: if_splits option.splits)
  obtain st' where st': "st_load S (clk 0) h ?sid (mgr_storage M) = (Some a, st')" "peek st' = peek (mgr_storage M)"
    using load_hit [OF l(2,3)] by (metis prod.collapse)
  let ?h = "h[a := refresh (clk 3) (setManager True (h ! a))]"
  have "getSession S dist clk req resp h M = (a, resp, ?h, updateSession S ?h a (M\<lparr>mgr_storage := st'\<rparr>))"
    using l st' assms(2) by (simp add: getSession_def Let_def)
  then show ?thesis using st'(2) assms(2) by (simp add: save)
qed

lemma getSession_fresh:
  assumes "live (peek (mgr_storage M)) clk h req = None" "generateSessionId dist (mgr_rng M) = (newId, g)"
  shows "\<exists>M' m. getSession S dist clk req resp h M
             = (length h, setSessionCookie newId resp, h @ [Session_new (clk 3) newId True 3600], M')
           \<and> mgr_rng M' = g \<and> m \<subseteq>\<^sub>m peek (mgr_storage M)
           \<and> peek (mgr_storage M') = m(newId \<mapsto> length h)"
proof -
  let ?sid = "getSessionIdFromCookie req"
  let ?h = "h @ [Session_new (clk 3) newId True 3600]"
  obtain o' st' where ld: "(if ?sid \<noteq> [] then st_load S (clk 0) h ?sid (mgr_storage M) else (None, mgr_storage M)) = (o', st')"
    by (metis surj_pair)
  have "peek st' \<subseteq>\<^sub>m peek (mgr_storage M) \<and>
      (case o' of None \<Rightarrow> None | Some a \<Rightarrow> if isExpired (clk 1) (h ! a) then None else Some a) = None"
  proof (cases "?sid = []")
    case False
    show ?thesis
      by (rule load_cases [of "clk 0" h ?sid "mgr_storage M"])
        (use ld assms(1) False in \<open>auto simp: live_def Let_def map_le_def split: if_splits option.splits\<close>)
  qed (use ld in simp)
  moreover from this have "getSession S dist clk req resp h M
      = (length h, setSessionCookie newId resp, ?h, updateSession S ?h (length h) (M\<lparr>mgr_storage := st', mgr_rng := g\<rparr>))"
    using assms(2) ld by (simp add: getSession_def Let_def)
  ultimately show ?thesis by (auto simp: save)
qed

lemma getSession_store_ok:
  assumes "store_ok h (peek (mgr_storage M))" "getSession S dist clk req resp h M = (a, resp', h', M')"
  shows "a < length h' \<and> peek (mgr_storage M') (ses_id (h' ! a)) = Some a \<and> store_ok h' (peek (mgr_storage M'))
    \<and> ses_expiryTime (h' ! a) = clk 3 + ticks (ses_maxAge (h' ! a)) \<and> ses_manager (h' ! a)"
proof (cases "live (peek (mgr_storage M)) clk h req")
  case (Some b)
  then have b: "b < length h"
    using assms(1) by (auto simp: live_def Let_def store_ok_def split: if_splits option.splits)
  let ?h = "h[b := refresh (clk 3) (setManager True (h ! b))]"
  have "store_ok ?h (peek (mgr_storage M))"
    by (rule store_ok_mono [OF assms(1)]) (use b in \<open>auto simp: nth_list_update\<close>)
  from store_ok_put [OF this, of b] show ?thesis
    using getSession_existing [OF Some b, of dist resp] assms(2) b by auto
next
  case None
  obtain i g where i: "generateSessionId dist (mgr_rng M) = (i, g)" by (metis surj_pair)
  let ?h = "h @ [Session_new (clk 3) i True 3600]"
  obtain m where m: "a = length h" "h' = ?h" "m \<subseteq>\<^sub>m peek (mgr_storage M)" "peek (mgr_storage M') = m(i \<mapsto> length h)"
    using getSession_fresh [OF None i, of resp] assms(2) by auto
  have "store_ok ?h m" by (rule store_ok_mono [OF assms(1) m(3)]) (auto simp: nth_append)
  from store_ok_put [OF this, of "length h"] show ?thesis
    using m by (simp add: Session_new_def refresh_def)
qed

lemma getSession_id:
  assumes "store_ok h (peek (mgr_storage M))" "\<forall>g. fst (dist g) < 16"
    and "getSession S dist clk req resp h M = (a, resp', h', M')"
  shows "ses_id (h' ! a) \<noteq> [] \<and> CHR '';'' \<notin> set (ses_id (h' ! a))"
proof (cases "live (peek (mgr_storage M)) clk h req")
  case (Some b)
  then have b: "b < length h" "ses_id (h ! b) = getSessionIdFromCookie req" "getSessionIdFromCookie req \<noteq> []"
    using assms(1) by (auto simp: live_def Let_def store_ok_def split: if_splits option.splits)
  then show ?thesis
    using getSession_existing [OF Some b(1), of dist resp] assms(3) getSessionId_no_semicolon [of req] by auto
next
  case None
  obtain i g where i: "generateSessionId dist (mgr_rng M) = (i, g)" by (metis surj_pair)
  then have "length i = 32" "set i \<subseteq> hex_alphabet"
    using draw_digits_length [of dist 32 "mgr_rng M"] draw_digits_hex [OF assms(2), of 32 "mgr_rng M"]
    by (simp_all add: generateSessionId_def)
  then have "i \<noteq> []" "CHR '';'' \<notin> set i" by (auto simp: hex_alphabet_def)
  then show ?thesis using getSession_fresh [OF None i, of resp] assms(3) by auto
qed

lemma setValue_store_ok:
  assumes "store_ok h (peek (mgr_storage M))" "a < length h" "setValue S a k v h M = (h', M')"
  shows "store_ok h' (peek (mgr_storage M')) \<and> h' = h[a := (h ! a)\<lparr>ses_data := (ses_data (h ! a))(k \<mapsto> v)\<rparr>]
    \<and> (peek (mgr_storage M) (ses_id (h ! a)) = Some a \<longrightarrow> peek (mgr_storage M') (ses_id (h ! a)) = Some a)"
proof -
  let ?h = "h[a := (h ! a)\<lparr>ses_data := (ses_data (h ! a))(k \<mapsto> v)\<rparr>]"
  have "store_ok ?h (peek (mgr_storage M))"
    by (rule store_ok_mono [OF assms(1)]) (use assms(2) in \<open>auto simp: nth_list_update\<close>)
  from this store_ok_put [OF this, of a] show ?thesis
    using assms(2,3) by (auto simp: setValue_def Let_def save)
qed

lemma session_returns:
  assumes "store_ok h (peek (mgr_storage M))" "\<forall>g. fst (dist g) < 16"
    and get: "getSession S dist clk req resp h M = (a, resp1, h1, M1)"
    and set: "setValue S a k v h1 M1 = (h2, M2)"
    and cookie: "getHeader ''Cookie'' req2 = ''sessionId='' @ ses_id (h1 ! a) @ post" "cookie_tail post"
    and time: "clk2 0 \<le> clk 3 + ticks (ses_maxAge (h1 ! a))" "clk2 1 \<le> clk 3 + ticks (ses_maxAge (h1 ! a))"
  shows "\<exists>h3 M3. getSession S dist clk2 req2 resp2 h2 M2 = (a, resp2, h3, M3) \<and> getValue k (h3 ! a) = v"
proof -
  note g = getSession_store_ok [OF assms(1) get]
  then have a: "a < length h1" by simp
  note sv = setValue_store_ok [OF _ a set] and h2 = conjunct1 [OF conjunct2 [OF setValue_store_ok [OF _ a set]]]
  have h2a: "h2 ! a = (h1 ! a)\<lparr>ses_data := (ses_data (h1 ! a))(k \<mapsto> v)\<rparr>" "a < length h2"
    using h2 g a by simp_all
  have "live (peek (mgr_storage M2)) clk2 h2 req2 = Some a"
  proof -
    have id: "ses_id (h1 ! a) \<noteq> [] \<and> CHR '';'' \<notin> set (ses_id (h1 ! a))"
      by (rule getSession_id [OF assms(1,2) get])
    then have "getSessionIdFromCookie req2 = ses_id (h1 ! a)"
      using getSessionId_of_cookie [OF cookie(1) _ cookie(2)] by simp
    then show ?thesis
      using id sv g h2a time by (simp add: live_def isExpired_def)
  qed
  from getSession_existing [OF this h2a(2), of dist resp2] show ?thesis
    using h2a by (auto simp: getValue_def)
qed

end

text \<open>
  C27: A session comes back. When \<open>SessionManager::getSession\<close> has handed a session to a handler
  (found by the cookie or newly made) and the handler has stored a value in it, a later request
  whose cookie starts with \<open>sessionId=\<close> and the id of that session, arriving no later than its
  \<open>maxAge\<close> after the refresh, gets the very same session object, without a new cookie, and reads
  the value back; the store is the in-memory one, started in any consistent state.
\<close>

theorem session_comes_back:
  assumes "store_ok h (mgr_storage M)" "\<forall>g. fst (dist g) < 16"
    and "getSession memory_storage dist clk req resp h M = (a, resp1, h1, M1)"
    and "setValue memory_storage a k v h1 M1 = (h2, M2)"
    and "getHeader ''Cookie'' req2 = ''sessionId='' @ ses_id (h1 ! a) @ post" "cookie_tail post"
    and "clk2 0 \<le> clk 3 + ticks (ses_maxAge (h1 ! a))" "clk2 1 \<le> clk 3 + ticks (ses_maxAge (h1 ! a))"
  shows "\<exists>h3 M3. getSession memory_storage dist clk2 req2 resp2 h2 M2 = (a, resp2, h3, M3)
           \<and> getValue k (h3 ! a) = v"
  using assms by (rule mem.session_returns)

definition zero_rng :: "unit \<Rightarrow> nat \<times> unit" where
  "zero_rng g = (0, ())"

theorem session_comes_back_witness:
  "\<exists>h3 M3. getSession memory_storage zero_rng (\<lambda>_. 5)
      (HttpRequest_new\<lparr>req_headers := [''Cookie'' \<mapsto> ''sessionId='' @ replicate 32 (CHR ''0'') @ ''; a=b'']\<rparr>)
      (HttpResponse_new True)
      (fst (setValue memory_storage 0 ''user'' ''7'' [Session_new 1 (replicate 32 (CHR ''0'')) True 3600]
        \<lparr>mgr_storage = [replicate 32 (CHR ''0'') \<mapsto> 0], mgr_rng = ()\<rparr>))
      (snd (setValue memory_storage 0 ''user'' ''7'' [Session_new 1 (replicate 32 (CHR ''0'')) True 3600]
        \<lparr>mgr_storage = [replicate 32 (CHR ''0'') \<mapsto> 0], mgr_rng = ()\<rparr>))
    = (0, HttpResponse_new True, h3, M3) \<and> getValue ''user'' (h3 ! 0) = ''7''"
proof (rule session_comes_back [where h = "[]" and M = "\<lparr>mgr_storage = Map.empty, mgr_rng = ()\<rparr>"
      and dist = zero_rng and clk = "\<lambda>_. 1" and req = HttpRequest_new and resp = "HttpResponse_new True"
      and post = "''; a=b''" and ?resp1.0 = "setSessionCookie (replicate 32 (CHR ''0'')) (HttpResponse_new True)"
      and ?h1.0 = "[Session_new 1 (replicate 32 (CHR ''0'')) True 3600]"
      and ?M1.0 = "\<lparr>mgr_storage = [replicate 32 (CHR ''0'') \<mapsto> 0], mgr_rng = ()\<rparr>"])
  have "generateSessionId zero_rng () = (replicate 32 (CHR ''0''), ())" by code_simp
  then show "getSession memory_storage zero_rng (\<lambda>_. 1) HttpRequest_new (HttpResponse_new True) []
      \<lparr>mgr_storage = Map.empty, mgr_rng = ()\<rparr>
    = (0, setSessionCookie (replicate 32 (CHR ''0'')) (HttpResponse_new True),
       [Session_new 1 (replicate 32 (CHR ''0'')) True 3600],
       \<lparr>mgr_storage = [replicate 32 (CHR ''0'') \<mapsto> 0], mgr_rng = ()\<rparr>)"
    by (simp add: getSession_def getSessionIdFromCookie_def getHeader_def HttpRequest_new_def
        updateSession_def memory_storage_def mem_save_def)
qed (simp_all add: store_ok_def zero_rng_def getHeader_def cookie_tail_def ticks_def)

text \<open>
  The in-memory store stays consistent under every operation of the session layer: each
  pointer in it is to a session kept under its own id, after \<open>getSession\<close> (which also leaves the
  session it returns stored and refreshed), \<open>setValue\<close> through a session pointer, and
  \<open>destroySession\<close>, which removes exactly the named session.
\<close>

theorem session_store_invariant:
  assumes "store_ok h (mgr_storage M)" "b < length h"
  shows "(case getSession memory_storage dist clk req resp h M of (a, resp', h', M') \<Rightarrow>
            store_ok h' (mgr_storage M') \<and> mgr_storage M' (ses_id (h' ! a)) = Some a
            \<and> ses_expiryTime (h' ! a) = clk 3 + ticks (ses_maxAge (h' ! a)))
         \<and> (case setValue memory_storage b k v h M of (h', M') \<Rightarrow> store_ok h' (mgr_storage M'))
         \<and> store_ok h (mgr_storage (destroySession memory_storage sid M))
         \<and> mgr_storage (destroySession memory_storage sid M) = (mgr_storage M)(sid := None)"
proof (intro conjI)
  show "case getSession memory_storage dist clk req resp h M of (a, resp', h', M') \<Rightarrow>
            store_ok h' (mgr_storage M') \<and> mgr_storage M' (ses_id (h' ! a)) = Some a
            \<and> ses_expiryTime (h' ! a) = clk 3 + ticks (ses_maxAge (h' ! a))"
    using mem.getSession_store_ok [OF assms(1), of dist clk req resp] by (auto split: prod.split)
  show "case setValue memory_storage b k v h M of (h', M') \<Rightarrow> store_ok h' (mgr_storage M')"
    using mem.setValue_store_ok [OF assms, of k v] by (auto split: prod.split)
  show "store_ok h (mgr_storage (destroySession memory_storage sid M))"
    "mgr_storage (destroySession memory_storage sid M) = (mgr_storage M)(sid := None)"
    using store_ok_drop [OF assms(1), of sid] by (simp_all add: destroySession_def memory_storage_def mem_remove_def)
qed

theorem session_store_invariant_witness:
  "mgr_storage (destroySession memory_storage ''s'' \<lparr>mgr_storage = [''s'' \<mapsto> 0], mgr_rng = ()\<rparr>) = Map.empty"
proof -
  let ?M = "\<lparr>mgr_storage = [''s'' \<mapsto> 0], mgr_rng = ()\<rparr> :: (MemorySessionStorage, unit) SessionManager"
  have "store_ok [Session_new 1 ''s'' True 3600] (mgr_storage ?M)" "0 < length [Session_new 1 ''s'' True 3600]"
    by (simp_all add: store_ok_def)
  from conjunct2 [OF conjunct2 [OF conjunct2 [OF session_store_invariant [OF this]]]]
  have "mgr_storage (destroySession memory_storage ''s'' ?M) = (mgr_storage ?M)(''s'' := None)" .
  then show ?thesis by simp
qed

end
