(* ===== verification/Ai_Game.thy ===== *)
theory Ai_Game
  imports Prelude
begin

text \<open>
  \<open>AiGame\<close> (\<open>GomokuServer/include/AiGame.h\<close>, \<open>GomokuServer/src/AiGame.cpp\<close>): a game of five in a
  row on a 15 by 15 board between a human and the server. The three strings a cell can hold are
  the constructors of \<open>stone\<close>. A loop with \<open>break\<close> over the distances 1 to 4 is a \<open>takeWhile\<close>;
  the loops over the board follow the list of its cells, row by row. \<open>rand()\<close> is an input. The
  delay of half a second in \<open>aiMove\<close> and the mutex have no effect on the state.
\<close>

definition BOARD_SIZE :: nat where
  "BOARD_SIZE = 15"

datatype stone = EMPTY | AI_PLAYER | HUMAN_PLAYER

type_synonym board = "stone list list"

record AiGame =
  gameOver :: bool
  userId :: int
  moveCount :: int
  winner :: string
  lastMove :: "int \<times> int"
  game_board :: board

definition AiGame_new :: "int \<Rightarrow> AiGame" where
  "AiGame_new user =
     \<lparr>gameOver = False, userId = user, moveCount = 0, winner = ''none'', lastMove = (-1, -1),
      game_board = replicate BOARD_SIZE (replicate BOARD_SIZE EMPTY)\<rparr>"

definition isInBoard :: "int \<Rightarrow> int \<Rightarrow> bool" where
  "isInBoard x y \<longleftrightarrow> x \<ge> 0 \<and> x < int BOARD_SIZE \<and> y \<ge> 0 \<and> y < int BOARD_SIZE"

text \<open>\<open>board_[x][y]\<close>, read and written; every use in the code is within the board.\<close>

definition cell :: "board \<Rightarrow> int \<Rightarrow> int \<Rightarrow> stone" where
  "cell b x y = b ! nat x ! nat y"

definition put :: "board \<Rightarrow> int \<Rightarrow> int \<Rightarrow> stone \<Rightarrow> board" where
  "put b x y v = b[nat x := (b ! nat x)[nat y := v]]"

definition isDraw :: "AiGame \<Rightarrow> bool" where
  "isDraw g \<longleftrightarrow> moveCount g \<ge> int (BOARD_SIZE * BOARD_SIZE)"

definition isValidMove :: "AiGame \<Rightarrow> int \<Rightarrow> int \<Rightarrow> bool" where
  "isValidMove g x y =
     (if x < 0 \<or> x \<ge> int BOARD_SIZE \<or> y < 0 \<or> y \<ge> int BOARD_SIZE then False
      else if cell (game_board g) x y \<noteq> EMPTY then False
      else if gameOver g \<or> isDraw g then False
      else True)"

definition run_length :: "board \<Rightarrow> stone \<Rightarrow> int \<Rightarrow> int \<Rightarrow> int \<Rightarrow> int \<Rightarrow> nat" where
  "run_length b player x y dx dy =
     length (takeWhile (\<lambda>i. isInBoard (x + dx * i) (y + dy * i) \<and> cell b (x + dx * i) (y + dy * i) = player)
       [1, 2, 3, 4])"

definition win_directions :: "(int \<times> int) list" where
  "win_directions = [(1, 0), (0, 1), (1, 1), (1, -1)]"

definition checkWin :: "board \<Rightarrow> int \<Rightarrow> int \<Rightarrow> stone \<Rightarrow> bool" where
  "checkWin b x y player =
     list_ex (\<lambda>(dx, dy). 1 + run_length b player x y dx dy + run_length b player x y (- dx) (- dy) \<ge> 5)
       win_directions"

definition place :: "stone \<Rightarrow> string \<Rightarrow> int \<Rightarrow> int \<Rightarrow> AiGame \<Rightarrow> AiGame" where
  "place player name x y g =
     (let g1 = g\<lparr>game_board := put (game_board g) x y player, moveCount := moveCount g + 1, lastMove := (x, y)\<rparr>
      in if checkWin (game_board g1) x y player then g1\<lparr>gameOver := True, winner := name\<rparr> else g1)"

definition humanMove :: "int \<Rightarrow> int \<Rightarrow> AiGame \<Rightarrow> bool \<times> AiGame" where
  "humanMove x y g =
     (if \<not> isValidMove g x y then (False, g) else (True, place HUMAN_PLAYER ''human'' x y g))"

definition evaluateThreat :: "board \<Rightarrow> int \<Rightarrow> int \<Rightarrow> int" where
  "evaluateThreat b r c =
     sum_list (map (\<lambda>(dx, dy).
         1 + int (length (filter (\<lambda>i. isInBoard (r + i * dx) (c + i * dy) \<and> cell b (r + i * dx) (c + i * dy) = HUMAN_PLAYER)
           [1, 2])))
       [(1, 0), (0, 1), (1, 1), (1, -1)])"

definition isNearOccupied :: "board \<Rightarrow> int \<Rightarrow> int \<Rightarrow> bool" where
  "isNearOccupied b r c =
     list_ex (\<lambda>(dx, dy). isInBoard (r + dx) (c + dy) \<and> cell b (r + dx) (c + dy) \<noteq> EMPTY)
       [(1, 0), (-1, 0), (0, 1), (0, -1), (1, 1), (-1, -1), (1, -1), (-1, 1)]"

definition all_cells :: "(int \<times> int) list" where
  "all_cells = concat (map (\<lambda>r. map (\<lambda>c. (int r, int c)) [0 ..< BOARD_SIZE]) [0 ..< BOARD_SIZE])"

text \<open>Stage 1: try each empty cell for a win, then for a win of the human; the board as left.\<close>

fun win_or_block :: "(int \<times> int) list \<Rightarrow> board \<Rightarrow> ((int \<times> int) \<times> board) option" where
  "win_or_block [] b = None"
| "win_or_block ((r, c) # cs) b =
     (if cell b r c \<noteq> EMPTY then win_or_block cs b
      else
        let b1 = put b r c AI_PLAYER in
        if checkWin b1 r c AI_PLAYER then Some ((r, c), b1)
        else
          let b2 = put (put b1 r c EMPTY) r c HUMAN_PLAYER in
          if checkWin b2 r c HUMAN_PLAYER then Some ((r, c), put b2 r c AI_PLAYER)
          else win_or_block cs (put b2 r c EMPTY))"

text \<open>Stage 2: the first cell with the largest threat.\<close>

fun best_threat :: "(int \<times> int) list \<Rightarrow> board \<Rightarrow> int \<times> (int \<times> int) \<Rightarrow> int \<times> (int \<times> int)" where
  "best_threat [] b m = m"
| "best_threat ((r, c) # cs) b (maxThreat, bestMove) =
     (if cell b r c \<noteq> EMPTY then best_threat cs b (maxThreat, bestMove)
      else
        let threatLevel = evaluateThreat b r c in
        best_threat cs b (if threatLevel > maxThreat then (threatLevel, (r, c)) else (maxThreat, bestMove)))"

text \<open>The last write, through \<open>bestMove\<close>, is out of the board if no cell was found.\<close>

definition getBestMove :: "nat \<Rightarrow> board \<Rightarrow> ((int \<times> int) \<times> board) res" where
  "getBestMove num b =
     (case win_or_block all_cells b of
        Some r \<Rightarrow> Inr r
      | None \<Rightarrow>
          let bestMove = snd (best_threat all_cells b (-1, (-1, -1))) in
          if fst bestMove = -1
          then
            let nearCells = filter (\<lambda>(r, c). cell b r c = EMPTY \<and> isNearOccupied b r c) all_cells in
            if nearCells \<noteq> []
            then let (r, c) = nearCells ! (num mod length nearCells) in Inr ((r, c), put b r c AI_PLAYER)
            else (case filter (\<lambda>(r, c). cell b r c = EMPTY) all_cells of
                    (r, c) # _ \<Rightarrow> Inr ((r, c), put b r c AI_PLAYER)
                  | [] \<Rightarrow> Inl Undefined_Behaviour)
          else Inr (bestMove, put b (fst bestMove) (snd bestMove) AI_PLAYER))"

definition aiMove :: "nat \<Rightarrow> AiGame \<Rightarrow> AiGame res" where
  "aiMove num g =
     (if gameOver g \<or> isDraw g then Inr g
      else
        bind_res (getBestMove num (game_board g)) (\<lambda>((x, y), b).
          Inr (place AI_PLAYER ''ai'' x y (g\<lparr>game_board := b\<rparr>))))"

section \<open>The board\<close>

definition board_ok :: "board \<Rightarrow> bool" where
  "board_ok b \<longleftrightarrow> length b = BOARD_SIZE \<and> (\<forall>row \<in> set b. length row = BOARD_SIZE)"

lemma board_ok_row: "board_ok b \<Longrightarrow> x < BOARD_SIZE \<Longrightarrow> length (b ! x) = BOARD_SIZE"
  by (simp add: board_ok_def)

lemma put_ok [simp]: "board_ok b \<Longrightarrow> board_ok (put b x y v)"
  by (cases "nat x < length b")
    (auto simp: board_ok_def put_def list_update_beyond dest!: set_update_subset_insert [THEN subsetD])

lemma in_boardD: "isInBoard x y \<Longrightarrow> nat x < BOARD_SIZE \<and> nat y < BOARD_SIZE \<and> 0 \<le> x \<and> 0 \<le> y"
  by (auto simp: isInBoard_def)

lemma cell_put:
  assumes "board_ok b" "isInBoard x y" "isInBoard x' y'"
  shows "cell (put b x y v) x' y' = (if x' = x \<and> y' = y then v else cell b x' y')"
proof -
  note d = in_boardD [OF assms(2)] in_boardD [OF assms(3)]
  have len: "length b = BOARD_SIZE" using assms(1) by (simp add: board_ok_def)
  show ?thesis
  proof (cases "x' = x")
    case True
    then show ?thesis
      using d len board_ok_row [OF assms(1), of "nat x"] by (auto simp: cell_def put_def nth_list_update)
  next
    case False
    then have "nat x' \<noteq> nat x" using d by auto
    then show ?thesis using False by (simp add: cell_def put_def)
  qed
qed

lemma put_restore:
  assumes "board_ok b" "isInBoard r c" "cell b r c = EMPTY"
  shows "put (put (put (put b r c v) r c EMPTY) r c w) r c EMPTY = b"
    and "put (put (put b r c v) r c EMPTY) r c w = put b r c w"
proof -
  have len: "length b = BOARD_SIZE" using assms(1) by (simp add: board_ok_def)
  have self: "put b r c EMPTY = b" using assms(3) by (simp add: put_def cell_def) (metis list_update_id)
  have over: "put (put b r c a) r c a' = put b r c a'" for a a'
    using in_boardD [OF assms(2)] len by (simp add: put_def)
  show "put (put (put (put b r c v) r c EMPTY) r c w) r c EMPTY = b"
    "put (put (put b r c v) r c EMPTY) r c w = put b r c w"
    by (simp_all add: over self)
qed

lemma all_cells_iff: "(x, y) \<in> set all_cells \<longleftrightarrow> isInBoard x y"
proof
  assume "isInBoard x y"
  then have "x = int (nat x)" "y = int (nat y)" "nat x < BOARD_SIZE" "nat y < BOARD_SIZE"
    by (auto simp: isInBoard_def)
  then show "(x, y) \<in> set all_cells" by (force simp: all_cells_def)
qed (auto simp: all_cells_def isInBoard_def)

lemma cells_finite: "{(x, y). isInBoard x y} = {0 ..< 15} \<times> {0 ..< 15}"
  by (auto simp: isInBoard_def BOARD_SIZE_def)

definition occupied :: "board \<Rightarrow> (int \<times> int) set" where
  "occupied b = {(x, y). isInBoard x y \<and> cell b x y \<noteq> EMPTY}"

lemma occupied_sub: "occupied b \<subseteq> {0 ..< 15} \<times> {0 ..< 15}"
  using cells_finite by (auto simp: occupied_def)

lemma occupied_finite: "finite (occupied b)"
  by (rule finite_subset [OF occupied_sub]) simp

lemma card_occupied_put:
  assumes "board_ok b" "isInBoard x y" "cell b x y = EMPTY" "v \<noteq> EMPTY"
  shows "card (occupied (put b x y v)) = card (occupied b) + 1"
proof -
  have "occupied (put b x y v) = insert (x, y) (occupied b)"
    using assms by (auto simp: occupied_def cell_put split: if_splits)
  moreover have "(x, y) \<notin> occupied b" using assms(3) by (simp add: occupied_def)
  ultimately show ?thesis using occupied_finite by simp
qed

lemma empty_cell_exists:
  assumes "card (occupied b) < 225"
  shows "\<exists>x y. isInBoard x y \<and> cell b x y = EMPTY"
proof (rule ccontr)
  assume "\<not> ?thesis"
  then have "occupied b = {(x, y). isInBoard x y}" by (auto simp: occupied_def)
  then have "card (occupied b) = 225" by (simp add: cells_finite card_cartesian_product)
  with assms show False by simp
qed

section \<open>Winning\<close>

text \<open>Five stones of the player in a row in some direction, one of them at the given cell.\<close>

definition five_in_row :: "board \<Rightarrow> int \<Rightarrow> int \<Rightarrow> stone \<Rightarrow> bool" where
  "five_in_row b x y player \<longleftrightarrow>
     (\<exists>(dx, dy) \<in> {(1, 0), (0, 1), (1, 1), (1, -1)}. \<exists>k \<in> {0 .. 4}. \<forall>j \<in> {0 .. 4}.
        isInBoard (x + (j - k) * dx) (y + (j - k) * dy) \<and> cell b (x + (j - k) * dx) (y + (j - k) * dy) = player)"

lemma run_ge_iff:
  "n \<le> length (takeWhile P [1, 2, 3, 4 :: int]) \<longleftrightarrow> n \<le> 4 \<and> (\<forall>i. 1 \<le> i \<and> i \<le> int n \<longrightarrow> P i)"
proof
  assume n: "n \<le> length (takeWhile P [1, 2, 3, 4])"
  then have "n \<le> 4" using length_takeWhile_le [of P "[1, 2, 3, 4]"] by simp
  moreover have "P i" if "1 \<le> i" "i \<le> int n" for i
  proof -
    have "nat (i - 1) < length (takeWhile P [1, 2, 3, 4])" using that n by auto
    then have "P ([1, 2, 3, 4] ! nat (i - 1))" by (metis nth_mem set_takeWhileD takeWhile_nth)
    moreover have "i = 1 \<or> i = 2 \<or> i = 3 \<or> i = 4" using that \<open>n \<le> 4\<close> by auto
    ultimately show ?thesis by (auto simp: numeral_eq_Suc)
  qed
  ultimately show "n \<le> 4 \<and> (\<forall>i. 1 \<le> i \<and> i \<le> int n \<longrightarrow> P i)" by blast
next
  assume n: "n \<le> 4 \<and> (\<forall>i. 1 \<le> i \<and> i \<le> int n \<longrightarrow> P i)"
  then consider "n = 0" | "n = 1" | "n = 2" | "n = 3" | "n = 4" by linarith
  then show "n \<le> length (takeWhile P [1, 2, 3, 4])" using n by cases auto
qed

lemma five_in_line:
  assumes "P 0"
  shows "5 \<le> 1 + length (takeWhile P [1, 2, 3, 4 :: int]) + length (takeWhile (\<lambda>i. P (- i)) [1, 2, 3, 4])
    \<longleftrightarrow> (\<exists>k \<in> {0 .. 4}. \<forall>j \<in> {0 .. 4}. P (j - k))"
proof
  let ?f = "length (takeWhile P [1, 2, 3, 4])" and ?g = "length (takeWhile (\<lambda>i. P (- i)) [1, 2, 3, 4])"
  assume five: "5 \<le> 1 + ?f + ?g"
  have g4: "?g \<le> 4" using length_takeWhile_le [of "\<lambda>i. P (- i)" "[1, 2, 3, 4]"] by simp
  have f: "P i" if "1 \<le> i" "i \<le> int ?f" for i using run_ge_iff [of ?f P] that by blast
  have g: "P (- i)" if "1 \<le> i" "i \<le> int ?g" for i using run_ge_iff [of ?g "\<lambda>i. P (- i)"] that by blast
  have "P (j - int ?g)" if "j \<in> {0 .. 4}" for j
  proof (cases "j - int ?g" "0 :: int" rule: linorder_cases)
    case less
    then show ?thesis using g [of "int ?g - j"] that by auto
  next
    case greater
    then show ?thesis using f [of "j - int ?g"] that five by auto
  qed (use assms in simp)
  then show "\<exists>k \<in> {0 .. 4}. \<forall>j \<in> {0 .. 4}. P (j - k)" using g4 by (intro bexI [of _ "int ?g"]) auto
next
  assume "\<exists>k \<in> {0 .. 4}. \<forall>j \<in> {0 .. 4}. P (j - k)"
  then obtain k where k: "k \<in> {0 .. 4}" "\<And>j. j \<in> {0 .. 4} \<Longrightarrow> P (j - k)" by blast
  have "nat (4 - k) \<le> length (takeWhile P [1, 2, 3, 4])"
    unfolding run_ge_iff
  proof (intro conjI allI impI)
    fix i :: int assume "1 \<le> i \<and> i \<le> int (nat (4 - k))"
    then show "P i" using k(2) [of "i + k"] k(1) by auto
  qed (use k in auto)
  moreover have "nat k \<le> length (takeWhile (\<lambda>i. P (- i)) [1, 2, 3, 4])"
    unfolding run_ge_iff
  proof (intro conjI allI impI)
    fix i :: int assume "1 \<le> i \<and> i \<le> int (nat k)"
    then show "P (- i)" using k(2) [of "k - i"] k(1) by auto
  qed (use k in auto)
  ultimately show "5 \<le> 1 + length (takeWhile P [1, 2, 3, 4 :: int]) + length (takeWhile (\<lambda>i. P (- i)) [1, 2, 3, 4])"
    using k(1) by auto
qed

lemma checkWin_iff:
  assumes "isInBoard x y" "cell b x y = player"
  shows "checkWin b x y player \<longleftrightarrow> five_in_row b x y player"
proof -
  have line: "5 \<le> 1 + run_length b player x y dx dy + run_length b player x y (- dx) (- dy) \<longleftrightarrow>
      (\<exists>k \<in> {0 .. 4}. \<forall>j \<in> {0 .. 4}. isInBoard (x + (j - k) * dx) (y + (j - k) * dy)
        \<and> cell b (x + (j - k) * dx) (y + (j - k) * dy) = player)" for dx dy
    using five_in_line [of "\<lambda>i. isInBoard (x + i * dx) (y + i * dy) \<and> cell b (x + i * dx) (y + i * dy) = player"] assms
    by (simp add: run_length_def mult.commute)
  show ?thesis
    using line [of 1 0] line [of 0 1] line [of 1 1] line [of 1 "- 1"]
    by (simp add: checkWin_def win_directions_def five_in_row_def)
qed

text \<open>
  C28: \<open>AiGame::checkWin\<close> is right: at a cell of the board that holds a stone of the player, the
  bounded walks in the four directions report a win if and only if five stones of the player
  stand in a row, horizontally, vertically or diagonally, with that cell among them.
\<close>

theorem checkWin_five_in_row:
  assumes "isInBoard x y" "cell b x y = player"
  shows "checkWin b x y player \<longleftrightarrow> five_in_row b x y player"
  using assms by (rule checkWin_iff)

theorem checkWin_five_in_row_witness:
  "checkWin (replicate 15 (replicate 15 HUMAN_PLAYER)) 7 7 HUMAN_PLAYER
     \<longleftrightarrow> five_in_row (replicate 15 (replicate 15 HUMAN_PLAYER)) 7 7 HUMAN_PLAYER"
  using checkWin_five_in_row [of 7 7 "replicate 15 (replicate 15 HUMAN_PLAYER)" HUMAN_PLAYER]
  by (simp add: isInBoard_def BOARD_SIZE_def cell_def)

section \<open>The move of the server\<close>

text \<open>The player would win by a stone at an empty cell.\<close>

definition winning_cell :: "board \<Rightarrow> stone \<Rightarrow> int \<times> int \<Rightarrow> bool" where
  "winning_cell b player p \<longleftrightarrow>
     (case p of (x, y) \<Rightarrow> isInBoard x y \<and> cell b x y = EMPTY \<and> five_in_row (put b x y player) x y player)"

lemma winning_cell_check:
  assumes "board_ok b" "isInBoard x y" "cell b x y = EMPTY"
  shows "winning_cell b player (x, y) \<longleftrightarrow> checkWin (put b x y player) x y player"
  using assms by (simp add: winning_cell_def checkWin_iff cell_put)

lemma win_or_block_cases:
  assumes "board_ok b" "\<forall>(x, y) \<in> set cs. isInBoard x y"
  shows "case win_or_block cs b of
     None \<Rightarrow> (\<forall>p \<in> set cs. \<not> winning_cell b AI_PLAYER p \<and> \<not> winning_cell b HUMAN_PLAYER p)
   | Some ((x, y), b') \<Rightarrow> isInBoard x y \<and> cell b x y = EMPTY \<and> b' = put b x y AI_PLAYER
       \<and> (winning_cell b AI_PLAYER (x, y) \<or> winning_cell b HUMAN_PLAYER (x, y))"
  using assms(2)
proof (induction cs)
  case Nil
  then show ?case by simp
next
  case (Cons p cs)
  obtain x y where p: "p = (x, y)" by (cases p)
  then have xy: "isInBoard x y" using Cons.prems by simp
  show ?case
  proof (cases "cell b x y = EMPTY")
    case True
    note w = winning_cell_check [OF assms(1) xy True]
    note r = put_restore [OF assms(1) xy True]
    have over: "put (put b x y HUMAN_PLAYER) x y AI_PLAYER = put b x y AI_PLAYER"
      using in_boardD [OF xy] assms(1) by (simp add: put_def board_ok_def)
    have "put (put b x y HUMAN_PLAYER) x y EMPTY = b" using r(1) [of AI_PLAYER HUMAN_PLAYER] r(2) [of AI_PLAYER HUMAN_PLAYER] by simp
    then show ?thesis
      using Cons p xy True w r(2) [of AI_PLAYER HUMAN_PLAYER] over by (auto simp: Let_def split: option.splits)
  next
    case False
    then have "\<not> winning_cell b q (x, y)" for q by (simp add: winning_cell_def)
    then show ?thesis using Cons p False by (auto split: option.splits)
  qed
qed

lemma all_cells_in: "\<forall>(x, y) \<in> set all_cells. isInBoard x y"
  by (auto simp: all_cells_iff)

lemma winning_cell_in: "winning_cell b player p \<Longrightarrow> p \<in> set all_cells"
  by (cases p) (simp add: winning_cell_def all_cells_iff)

lemma evaluateThreat_pos: "4 \<le> evaluateThreat b r c"
  by (simp add: evaluateThreat_def)

lemma best_threat_cell:
  "(case best_threat cs b (m, p) of (m', p') \<Rightarrow>
      (p' = p \<and> m' = m \<or> p' \<in> {q \<in> set cs. cell b (fst q) (snd q) = EMPTY})
      \<and> ((\<exists>q \<in> set cs. cell b (fst q) (snd q) = EMPTY) \<and> m < 4 \<longrightarrow> p' \<in> {q \<in> set cs. cell b (fst q) (snd q) = EMPTY}))"
proof (induction cs arbitrary: m p)
  case Nil
  then show ?case by simp
next
  case (Cons q cs)
  obtain r c where q: "q = (r, c)" by (cases q)
  have t: "4 \<le> evaluateThreat b r c" by (rule evaluateThreat_pos)
  show ?case
  proof (cases "cell b r c = EMPTY")
    case True
    show ?thesis
    proof (cases "m < evaluateThreat b r c")
      case True
      then show ?thesis
        using Cons.IH [where m = "evaluateThreat b r c" and p = "(r, c)"] q \<open>cell b r c = EMPTY\<close>
        by (auto simp: Let_def split: prod.splits)
    next
      case False
      then show ?thesis using Cons.IH [where m = m and p = p] q t \<open>cell b r c = EMPTY\<close> by (auto simp: Let_def split: prod.splits)
    qed
  next
    case False
    then show ?thesis using Cons.IH [where m = m and p = p] q by (auto split: prod.splits)
  qed
qed

lemma getBestMove_ok:
  assumes "board_ok b" "isInBoard x0 y0" "cell b x0 y0 = EMPTY"
  shows "\<exists>x y. getBestMove num b = Inr ((x, y), put b x y AI_PLAYER) \<and> isInBoard x y \<and> cell b x y = EMPTY
    \<and> ((\<exists>p. winning_cell b AI_PLAYER p \<or> winning_cell b HUMAN_PLAYER p) \<longrightarrow>
         winning_cell b AI_PLAYER (x, y) \<or> winning_cell b HUMAN_PLAYER (x, y))
    \<and> (\<forall>num'. getBestMove num' b = getBestMove num b)"
proof (cases "win_or_block all_cells b")
  case None
  have none: "\<not> winning_cell b AI_PLAYER p \<and> \<not> winning_cell b HUMAN_PLAYER p" for p
    using win_or_block_cases [OF assms(1) all_cells_in] None winning_cell_in [of b _ p] by auto
  obtain m x y where bt: "best_threat all_cells b (-1, (-1, -1)) = (m, (x, y))" by (metis surj_pair)
  have "\<exists>q \<in> set all_cells. cell b (fst q) (snd q) = EMPTY" using assms(2,3) by (force simp: all_cells_iff [symmetric])
  then have xy: "isInBoard x y" "cell b x y = EMPTY"
    using best_threat_cell [where cs = all_cells and b = b and m = "-1" and p = "(-1, -1)"] bt by (auto simp: all_cells_iff)
  then have "x \<noteq> -1" by (auto simp: isInBoard_def)
  then have "getBestMove n b = Inr ((x, y), put b x y AI_PLAYER)" for n
    using None bt by (simp add: getBestMove_def)
  with xy none show ?thesis by (intro exI [of _ x] exI [of _ y]) simp
next
  case (Some r)
  obtain x y b' where r: "r = ((x, y), b')" by (metis surj_pair)
  have "isInBoard x y" "cell b x y = EMPTY" "b' = put b x y AI_PLAYER"
      "winning_cell b AI_PLAYER (x, y) \<or> winning_cell b HUMAN_PLAYER (x, y)"
    using win_or_block_cases [OF assms(1) all_cells_in] Some r by auto
  moreover have "getBestMove n b = Inr ((x, y), b')" for n using Some r by (simp add: getBestMove_def)
  ultimately show ?thesis by (intro exI [of _ x] exI [of _ y]) simp
qed

section \<open>The game\<close>

definition game_ok :: "AiGame \<Rightarrow> bool" where
  "game_ok g \<longleftrightarrow> board_ok (game_board g) \<and> moveCount g = int (card (occupied (game_board g)))
     \<and> (if gameOver g then winner g = ''human'' \<or> winner g = ''ai'' else winner g = ''none'')"

lemma AiGame_new_ok: "game_ok (AiGame_new user)"
proof -
  have "occupied (game_board (AiGame_new user)) = {}"
    by (auto simp: occupied_def AiGame_new_def cell_def isInBoard_def)
  then show ?thesis by (auto simp: game_ok_def board_ok_def AiGame_new_def)
qed

lemma place_ok:
  assumes "game_ok g" "isInBoard x y" "cell (game_board g) x y = EMPTY" "player \<noteq> EMPTY" "\<not> gameOver g"
    and "name = ''human'' \<or> name = ''ai''"
  shows "game_ok (place player name x y g)"
  using assms card_occupied_put [of "game_board g" x y player]
  by (auto simp: game_ok_def place_def Let_def)

lemma put_twice:
  "board_ok b \<Longrightarrow> isInBoard x y \<Longrightarrow> put (put b x y v) x y w = put b x y w"
  using in_boardD [of x y] by (simp add: put_def board_ok_def)

lemma place_after_put:
  assumes "board_ok (game_board g)" "isInBoard x y"
  shows "place player name x y (g\<lparr>game_board := put (game_board g) x y player\<rparr>) = place player name x y g"
  using assms by (simp add: place_def put_twice Let_def)

lemma aiMove_place:
  assumes "game_ok g" "\<not> gameOver g" "\<not> isDraw g"
  shows "\<exists>x y. aiMove num g = Inr (place AI_PLAYER ''ai'' x y g) \<and> isInBoard x y \<and> cell (game_board g) x y = EMPTY
    \<and> ((\<exists>p. winning_cell (game_board g) AI_PLAYER p \<or> winning_cell (game_board g) HUMAN_PLAYER p) \<longrightarrow>
         winning_cell (game_board g) AI_PLAYER (x, y) \<or> winning_cell (game_board g) HUMAN_PLAYER (x, y))
    \<and> (\<forall>num'. aiMove num' g = aiMove num g)"
proof -
  have b: "board_ok (game_board g)" using assms(1) by (simp add: game_ok_def)
  have "card (occupied (game_board g)) < 225"
    using assms(1,3) by (simp add: game_ok_def isDraw_def BOARD_SIZE_def)
  then obtain x0 y0 where "isInBoard x0 y0" "cell (game_board g) x0 y0 = EMPTY" using empty_cell_exists by blast
  from getBestMove_ok [OF b this, of num] obtain x y where
    m: "getBestMove num (game_board g) = Inr ((x, y), put (game_board g) x y AI_PLAYER)" "isInBoard x y"
      "cell (game_board g) x y = EMPTY" "\<forall>num'. getBestMove num' (game_board g) = getBestMove num (game_board g)"
      "(\<exists>p. winning_cell (game_board g) AI_PLAYER p \<or> winning_cell (game_board g) HUMAN_PLAYER p) \<longrightarrow>
         winning_cell (game_board g) AI_PLAYER (x, y) \<or> winning_cell (game_board g) HUMAN_PLAYER (x, y)"
    by blast
  have "aiMove n g = Inr (place AI_PLAYER ''ai'' x y g)" for n
    using assms(2,3) place_after_put [OF b m(2)] m(1,4) by (simp add: aiMove_def)
  with m(2,3,5) show ?thesis by (intro exI [of _ x] exI [of _ y]) simp
qed

lemma humanMove_ok: "game_ok g \<Longrightarrow> game_ok (snd (humanMove x y g))"
  using place_ok [of g x y HUMAN_PLAYER "''human''"]
  by (auto simp: humanMove_def isValidMove_def isInBoard_def split: if_splits)

text \<open>
  C29: The game keeps its books. In a game whose board is 15 by 15, whose move count is the number
  of stones on the board and whose winner is named exactly when it is over (a new game is one),
  every human move, accepted or refused, and every move of the server leads to such a game; the
  server never writes outside the board, and while the game is neither won nor drawn it places
  exactly one stone of its own, on an empty cell.
\<close>

theorem game_invariant:
  assumes "game_ok g"
  shows "game_ok (AiGame_new user) \<and> game_ok (snd (humanMove x y g))
    \<and> (\<exists>g'. aiMove num g = Inr g' \<and> game_ok g'
         \<and> (\<not> gameOver g \<and> \<not> isDraw g \<longrightarrow>
              (\<exists>r c. isInBoard r c \<and> cell (game_board g) r c = EMPTY
                 \<and> game_board g' = put (game_board g) r c AI_PLAYER \<and> moveCount g' = moveCount g + 1)))"
proof (intro conjI)
  show "game_ok (snd (humanMove x y g))"
    by (rule humanMove_ok [OF assms])
  show "\<exists>g'. aiMove num g = Inr g' \<and> game_ok g'
      \<and> (\<not> gameOver g \<and> \<not> isDraw g \<longrightarrow> (\<exists>r c. isInBoard r c \<and> cell (game_board g) r c = EMPTY
            \<and> game_board g' = put (game_board g) r c AI_PLAYER \<and> moveCount g' = moveCount g + 1))"
  proof (cases "gameOver g \<or> isDraw g")
    case True
    then show ?thesis using assms by (auto simp: aiMove_def)
  next
    case False
    then obtain r c where rc: "aiMove num g = Inr (place AI_PLAYER ''ai'' r c g)" "isInBoard r c"
        "cell (game_board g) r c = EMPTY" using aiMove_place [OF assms] by blast
    moreover have "game_ok (place AI_PLAYER ''ai'' r c g)" using place_ok [OF assms rc(2,3)] False by simp
    moreover have "game_board (place AI_PLAYER ''ai'' r c g) = put (game_board g) r c AI_PLAYER
        \<and> moveCount (place AI_PLAYER ''ai'' r c g) = moveCount g + 1" by (simp add: place_def Let_def)
    ultimately show ?thesis by auto
  qed
qed (rule AiGame_new_ok)

theorem game_invariant_witness:
  "game_ok (snd (humanMove 7 7 (AiGame_new 1)))"
  using game_invariant [OF AiGame_new_ok [of 1], of 1 7 7 0] by simp

text \<open>
  The server takes a decisive cell when there is one. In a running game where the server or
  the human could complete five in a row with one stone, \<open>aiMove\<close> plays on a cell where one of
  them could; if the human has no such cell, the server wins the game with this move. The move
  does not depend on \<open>rand()\<close>: the random choice of the third stage is never reached.
\<close>

theorem aiMove_decisive:
  assumes "game_ok g" "\<not> gameOver g" "\<not> isDraw g"
    and "winning_cell (game_board g) AI_PLAYER p \<or> winning_cell (game_board g) HUMAN_PLAYER p"
  shows "\<exists>x y g'. aiMove num g = Inr g' \<and> lastMove g' = (x, y)
      \<and> (winning_cell (game_board g) AI_PLAYER (x, y) \<or> winning_cell (game_board g) HUMAN_PLAYER (x, y))
      \<and> ((\<forall>q. \<not> winning_cell (game_board g) HUMAN_PLAYER q) \<longrightarrow> gameOver g' \<and> winner g' = ''ai'')
      \<and> (\<forall>num'. aiMove num' g = aiMove num g)"
proof -
  obtain x y where m: "aiMove num g = Inr (place AI_PLAYER ''ai'' x y g)" "isInBoard x y" "cell (game_board g) x y = EMPTY"
      "winning_cell (game_board g) AI_PLAYER (x, y) \<or> winning_cell (game_board g) HUMAN_PLAYER (x, y)"
      "\<forall>num'. aiMove num' g = aiMove num g"
    using aiMove_place [OF assms(1-3), of num] assms(4) by blast
  have "board_ok (game_board g)" using assms(1) by (simp add: game_ok_def)
  then have "winning_cell (game_board g) AI_PLAYER (x, y) \<longrightarrow> gameOver (place AI_PLAYER ''ai'' x y g)
      \<and> winner (place AI_PLAYER ''ai'' x y g) = ''ai''"
    using winning_cell_check m(2,3) by (simp add: place_def Let_def)
  moreover have "lastMove (place AI_PLAYER ''ai'' x y g) = (x, y)" by (simp add: place_def Let_def)
  ultimately show ?thesis using m(1,4,5) by (intro exI [of _ x] exI [of _ y] exI [of _ "place AI_PLAYER ''ai'' x y g"]) auto
qed

text \<open>Two positions: four stones of the human in row 0, and with them four of the server in row 1.\<close>

definition four_game :: AiGame where
  "four_game = (AiGame_new 1)\<lparr>moveCount := 4,
     game_board := (replicate 4 HUMAN_PLAYER @ replicate 11 EMPTY) # replicate 14 (replicate 15 EMPTY)\<rparr>"

definition both_game :: AiGame where
  "both_game = (AiGame_new 1)\<lparr>moveCount := 8,
     game_board := (replicate 4 HUMAN_PLAYER @ replicate 11 EMPTY) # (replicate 4 AI_PLAYER @ replicate 11 EMPTY)
       # replicate 13 (replicate 15 EMPTY)\<rparr>"

lemma card_occupied_code:
  "card (occupied b) = length (remdups (filter (\<lambda>(x, y). cell b x y \<noteq> EMPTY) all_cells))"
proof -
  have "occupied b = set (filter (\<lambda>(x, y). cell b x y \<noteq> EMPTY) all_cells)"
    by (auto simp: occupied_def all_cells_iff)
  then show ?thesis by (metis length_remdups_card_conv)
qed

lemma example_games_ok: "game_ok four_game" "game_ok both_game"
proof -
  have n: "length (remdups (filter (\<lambda>(x, y). cell (game_board four_game) x y \<noteq> EMPTY) all_cells)) = 4"
      "length (remdups (filter (\<lambda>(x, y). cell (game_board both_game) x y \<noteq> EMPTY) all_cells)) = 8"
    by code_simp+
  show "game_ok four_game" "game_ok both_game"
    using n by (simp_all add: game_ok_def card_occupied_code)
      (simp_all add: four_game_def both_game_def AiGame_new_def board_ok_def BOARD_SIZE_def)
qed

lemma example_winning:
  "winning_cell (game_board four_game) HUMAN_PLAYER (0, 4)"
  "winning_cell (game_board both_game) AI_PLAYER (1, 4)"
proof -
  have "checkWin (put (game_board four_game) 0 4 HUMAN_PLAYER) 0 4 HUMAN_PLAYER"
    "checkWin (put (game_board both_game) 1 4 AI_PLAYER) 1 4 AI_PLAYER"
    "isInBoard 0 4" "isInBoard 1 4" "cell (game_board four_game) 0 4 = EMPTY" "cell (game_board both_game) 1 4 = EMPTY"
    by code_simp+
  then show "winning_cell (game_board four_game) HUMAN_PLAYER (0, 4)" "winning_cell (game_board both_game) AI_PLAYER (1, 4)"
    using example_games_ok by (simp_all add: winning_cell_check game_ok_def)
qed

theorem aiMove_decisive_witness:
  "\<exists>x y g'. aiMove 0 four_game = Inr g' \<and> lastMove g' = (x, y)
     \<and> (winning_cell (game_board four_game) AI_PLAYER (x, y) \<or> winning_cell (game_board four_game) HUMAN_PLAYER (x, y))"
proof -
  have "\<not> gameOver four_game" "\<not> isDraw four_game" by code_simp+
  from aiMove_decisive [OF example_games_ok(1) this, of "(0, 4)" 0] example_winning(1) show ?thesis by blast
qed

text \<open>
  A win of the server does not come first. There is a running game in which the server could
  win with one stone, yet \<open>aiMove\<close> blocks the human instead and the game goes on: the scan
  answers the first cell that is decisive for either side.
\<close>

theorem aiMove_may_miss_win:
  "\<exists>g g'. game_ok g \<and> \<not> gameOver g \<and> winning_cell (game_board g) AI_PLAYER (1, 4)
     \<and> aiMove num g = Inr g' \<and> lastMove g' = (0, 4) \<and> \<not> gameOver g'"
proof -
  have wb: "win_or_block all_cells (game_board both_game) = Some ((0, 4), put (game_board both_game) 0 4 AI_PLAYER)"
    "\<not> gameOver both_game" "\<not> isDraw both_game"
    "\<not> checkWin (put (put (game_board both_game) 0 4 AI_PLAYER) 0 4 AI_PLAYER) 0 4 AI_PLAYER"
    by code_simp+
  let ?g = "place AI_PLAYER ''ai'' 0 4 (both_game\<lparr>game_board := put (game_board both_game) 0 4 AI_PLAYER\<rparr>)"
  have "aiMove num both_game = Inr ?g" using wb(1-3) by (simp add: aiMove_def getBestMove_def)
  moreover have "lastMove ?g = (0, 4)" "\<not> gameOver ?g" using wb(2,4) by (simp_all add: place_def Let_def)
  ultimately show ?thesis using example_games_ok(2) example_winning(2) wb(2) by blast
qed

end
