(* ===== verification/Gomoku_Server.thy ===== *)
theory Gomoku_Server
  imports Http_Server Session Ai_Game "HOL-Library.AList"
begin

text \<open>
  The Gomoku application (\<open>GomokuServer/src/GomokuServer.cpp\<close> and \<open>GomokuServer/src/handlers\<close>) on top
  of the HTTP framework: its state is the sessions, the table of games by user id, the table of
  users online and the highest number of users online; its handlers are written in a small
  monad of computations that use the response and this state and may throw. The JSON library, the
  database (with the text of each statement), the files, the clock and the random numbers are the
  parameter \<open>gworld\<close>.
\<close>

section \<open>State and world\<close>

datatype jval = JStr string | JInt int | JBool bool | JArr "jval list" | JObj "(string \<times> jval) list"

record ('j, 'd, 'g) gworld =
  gw_parse :: "string \<Rightarrow> std_exn + 'j"
  gw_string :: "string \<Rightarrow> 'j \<Rightarrow> std_exn + string"
  gw_int :: "string \<Rightarrow> 'j \<Rightarrow> std_exn + int"
  gw_dump :: "int \<Rightarrow> jval \<Rightarrow> std_exn + string"
  gw_query :: "string \<Rightarrow> string list \<Rightarrow> 'd \<Rightarrow> (std_exn + int option) \<times> 'd"
  gw_update :: "string \<Rightarrow> string list \<Rightarrow> 'd \<Rightarrow> (std_exn + int) \<times> 'd"
  gw_file :: "string \<Rightarrow> string option"
  gw_dist :: "'g \<Rightarrow> nat \<times> 'g"
  gw_clk :: "nat \<Rightarrow> time"
  gw_rand :: nat

record ('d, 'g) gomoku =
  gm_heap :: heap
  gm_sessions :: "(MemorySessionStorage, 'g) SessionManager"
  aiGames :: "int \<rightharpoonup> AiGame"
  onlineUsers :: "(int \<times> bool) list"
  maxOnline :: int
  gm_db :: 'd

type_synonym ('d, 'g, 'a) gm = "HttpResponse \<times> ('d, 'g) gomoku \<Rightarrow> (thrown + 'a) \<times> HttpResponse \<times> ('d, 'g) gomoku"

section \<open>Computations\<close>

definition gm_return :: "'a \<Rightarrow> ('d, 'g, 'a) gm" where
  "gm_return x = (\<lambda>s. (Inr x, s))"

definition gm_bind :: "('d, 'g, 'a) gm \<Rightarrow> ('a \<Rightarrow> ('d, 'g, 'b) gm) \<Rightarrow> ('d, 'g, 'b) gm" where
  "gm_bind m f = (\<lambda>s. case m s of (Inl e, s') \<Rightarrow> (Inl e, s') | (Inr x, s') \<Rightarrow> f x s')"

definition gm_lift :: "std_exn + 'a \<Rightarrow> ('d, 'g, 'a) gm" where
  "gm_lift r = (\<lambda>s. (case r of Inl e \<Rightarrow> Inl (Std_Exception e) | Inr x \<Rightarrow> Inr x, s))"

definition gm_res :: "'a res \<Rightarrow> ('d, 'g, 'a) gm" where
  "gm_res r = (\<lambda>s. (case r of Inl f \<Rightarrow> Inl (thrown_of_fault f) | Inr x \<Rightarrow> Inr x, s))"

definition gm_resp :: "(HttpResponse \<Rightarrow> HttpResponse) \<Rightarrow> ('d, 'g, unit) gm" where
  "gm_resp f = (\<lambda>(resp, s). (Inr (), f resp, s))"

definition gm_get :: "(('d, 'g) gomoku \<Rightarrow> 'a) \<Rightarrow> ('d, 'g, 'a) gm" where
  "gm_get f = (\<lambda>(resp, s). (Inr (f s), resp, s))"

definition gm_upd :: "(('d, 'g) gomoku \<Rightarrow> ('d, 'g) gomoku) \<Rightarrow> ('d, 'g, unit) gm" where
  "gm_upd f = (\<lambda>(resp, s). (Inr (), resp, f s))"

definition gm_catch :: "('d, 'g, 'a) gm \<Rightarrow> (std_exn \<Rightarrow> ('d, 'g, 'a) gm) \<Rightarrow> ('d, 'g, 'a) gm" where
  "gm_catch m h = (\<lambda>s. case m s of (Inl (Std_Exception e), s') \<Rightarrow> h e s' | r \<Rightarrow> r)"

definition as_handler :: "(HttpRequest \<Rightarrow> ('d, 'g, unit) gm) \<Rightarrow> ('d, 'g) gomoku handler" where
  "as_handler m req resp s =
     (case m req (resp, s) of (Inl e, resp', s') \<Rightarrow> (Some e, resp', s') | (Inr _, resp', s') \<Rightarrow> (None, resp', s'))"

section \<open>The server's operations\<close>

definition packageResp :: "string \<Rightarrow> HttpStatusCode \<Rightarrow> string \<Rightarrow> bool \<Rightarrow> string \<Rightarrow> nat \<Rightarrow> string \<Rightarrow> ('d, 'g, unit) gm" where
  "packageResp version statusCode statusMsg close contentType contentLen body =
     gm_resp (\<lambda>resp. rsp_setBody body (rsp_setContentLength contentLen (rsp_setContentType contentType
       (setCloseConnection close (setStatusMessage statusMsg (setStatusCode statusCode (rsp_setVersion version resp)))))))"

text \<open>The five setters with which most handlers answer.\<close>

definition set_reply :: "string \<Rightarrow> HttpStatusCode \<Rightarrow> string \<Rightarrow> bool \<Rightarrow> string \<Rightarrow> string \<Rightarrow> ('d, 'g, unit) gm" where
  "set_reply version code msg close contentType body =
     gm_resp (\<lambda>resp. rsp_setBody body (rsp_setContentLength (length body) (rsp_setContentType contentType
       (setCloseConnection close (setStatusLine version code msg resp)))))"

definition dump :: "('j, 'd, 'g) gworld \<Rightarrow> int \<Rightarrow> jval \<Rightarrow> ('d, 'g, string) gm" where
  "dump W indent v = gm_lift (gw_dump W indent v)"

definition status_message :: "string \<Rightarrow> string \<Rightarrow> jval" where
  "status_message status message = JObj [(''status'', JStr status), (''message'', JStr message)]"

definition the_session :: "('j, 'd, 'g) gworld \<Rightarrow> HttpRequest \<Rightarrow> ('d, 'g, addr) gm" where
  "the_session W req = (\<lambda>(resp, s).
     case getSession memory_storage (gw_dist W) (gw_clk W) req resp (gm_heap s) (gm_sessions s) of
       (a, resp', h, M) \<Rightarrow> (Inr a, resp', s\<lparr>gm_heap := h, gm_sessions := M\<rparr>))"

definition session_value :: "string \<Rightarrow> addr \<Rightarrow> ('d, 'g, string) gm" where
  "session_value key a = gm_get (\<lambda>s. getValue key (gm_heap s ! a))"

definition session_set :: "addr \<Rightarrow> string \<Rightarrow> string \<Rightarrow> ('d, 'g, unit) gm" where
  "session_set a key val =
     gm_upd (\<lambda>s. case setValue memory_storage a key val (gm_heap s) (gm_sessions s) of
                   (h, M) \<Rightarrow> s\<lparr>gm_heap := h, gm_sessions := M\<rparr>)"

definition sql_query :: "('j, 'd, 'g) gworld \<Rightarrow> string \<Rightarrow> string list \<Rightarrow> ('d, 'g, int option) gm" where
  "sql_query W sql args = (\<lambda>(resp, s).
     case gw_query W sql args (gm_db s) of (r, d) \<Rightarrow> gm_lift r (resp, s\<lparr>gm_db := d\<rparr>))"

definition sql_update :: "('j, 'd, 'g) gworld \<Rightarrow> string \<Rightarrow> string list \<Rightarrow> ('d, 'g, int) gm" where
  "sql_update W sql args = (\<lambda>(resp, s).
     case gw_update W sql args (gm_db s) of (r, d) \<Rightarrow> gm_lift r (resp, s\<lparr>gm_db := d\<rparr>))"

text \<open>The answer to a request without a valid login, the same in four handlers, and the check before it.\<close>

definition unauthorized :: "('j, 'd, 'g) gworld \<Rightarrow> HttpRequest \<Rightarrow> ('d, 'g, unit) gm" where
  "unauthorized W req =
     gm_bind (dump W 4 (status_message ''error'' ''Unauthorized'')) (\<lambda>errorBody.
       packageResp (req_version req) k401Unauthorized ''Unauthorized'' True ''application/json'' (length errorBody) errorBody)"

definition logged_in :: "('j, 'd, 'g) gworld \<Rightarrow> HttpRequest \<Rightarrow> (addr \<Rightarrow> int \<Rightarrow> ('d, 'g, unit) gm) \<Rightarrow> ('d, 'g, unit) gm" where
  "logged_in W req k =
     gm_bind (the_session W req) (\<lambda>a.
     gm_bind (session_value ''isLoggedIn'' a) (\<lambda>flag.
       if flag \<noteq> ''true'' then unauthorized W req
       else gm_bind (session_value ''userId'' a) (\<lambda>text. gm_bind (gm_res (stoi text)) (\<lambda>uid. k a uid))))"

definition new_game :: "int \<Rightarrow> ('d, 'g, unit) gm" where
  "new_game uid = gm_upd (\<lambda>s. s\<lparr>aiGames := (aiGames s)(uid \<mapsto> AiGame_new uid)\<rparr>)"

definition erase_game :: "int \<Rightarrow> ('d, 'g, unit) gm" where
  "erase_game uid = gm_upd (\<lambda>s. s\<lparr>aiGames := (aiGames s)(uid := None)\<rparr>)"

definition restartChessGameVsAi :: "('j, 'd, 'g) gworld \<Rightarrow> HttpRequest \<Rightarrow> ('d, 'g, unit) gm" where
  "restartChessGameVsAi W req =
     logged_in W req (\<lambda>_ uid.
       gm_bind (new_game uid) (\<lambda>_.
       gm_bind (dump W 4 (JObj [(''status'', JStr ''ok''), (''message'', JStr ''restart successful''), (''userId'', JInt uid)])) (\<lambda>successBody.
       packageResp (req_version req) k200Ok ''OK'' False ''application/json'' (length successBody) successBody)))"

definition getCurOnline :: "('d, 'g) gomoku \<Rightarrow> int" where
  "getCurOnline s = int (length (onlineUsers s))"

definition updateMaxOnline :: "int \<Rightarrow> ('d, 'g, unit) gm" where
  "updateMaxOnline online = gm_upd (\<lambda>s. s\<lparr>maxOnline := max (maxOnline s) online\<rparr>)"

definition getUserCount :: "('j, 'd, 'g) gworld \<Rightarrow> ('d, 'g, int) gm" where
  "getUserCount W =
     gm_bind (sql_query W ''SELECT COUNT(*) as count FROM users'' [])
       (\<lambda>row. gm_return (case row of Some n \<Rightarrow> n | None \<Rightarrow> 0))"

definition getBackendData :: "('j, 'd, 'g) gworld \<Rightarrow> HttpRequest \<Rightarrow> ('d, 'g, unit) gm" where
  "getBackendData W req =
     gm_catch
       (gm_bind (gm_get getCurOnline) (\<lambda>curOnline.
        gm_bind (gm_get maxOnline) (\<lambda>maxOnline.
        gm_bind (getUserCount W) (\<lambda>totalUser.
        gm_bind (dump W 4 (JObj [(''curOnline'', JInt curOnline), (''maxOnline'', JInt maxOnline), (''totalUser'', JInt totalUser)]))
          (\<lambda>responseStr. gm_resp (\<lambda>resp. setCloseConnection False (rsp_setContentLength (length responseStr)
             (rsp_setBody responseStr (rsp_setContentType ''application/json'' (setStatusLine (req_version req) k200Ok ''OK'' resp))))))))))
       (\<lambda>e. gm_bind (dump W (-1) (JObj [(''error'', JStr ''Internal Server Error''), (''message'', JStr (what e))])) (\<lambda>errorStr.
          gm_resp (\<lambda>resp. setCloseConnection True (rsp_setContentLength (length errorStr) (rsp_setBody errorStr
             (rsp_setContentType ''application/json'' (setStatusMessage ''Internal Server Error''
               (setStatusCode k500InternalServerError resp))))))))"

section \<open>Pages\<close>

text \<open>
  \<open>FileUtil\<close> on a page, with the fallback; when neither file opens, \<open>tellg\<close> is -1 and the vector
  of that many bytes cannot be made.
\<close>

definition NotFound_page :: string where
  "NotFound_page = ''/Gomoku/GomokuServer/resource/NotFound.html''"

definition read_page :: "('j, 'd, 'g) gworld \<Rightarrow> string \<Rightarrow> ('d, 'g, string) gm" where
  "read_page W reqFile =
     (case gw_file W reqFile of
        Some content \<Rightarrow> gm_return content
      | None \<Rightarrow>
          (case gw_file W NotFound_page of
             Some content \<Rightarrow> gm_return content
           | None \<Rightarrow> gm_lift (Inl (Runtime_Error ''cannot create std::vector larger than max_size()''))))"

definition EntryHandler :: "('j, 'd, 'g) gworld \<Rightarrow> HttpRequest \<Rightarrow> ('d, 'g, unit) gm" where
  "EntryHandler W req =
     gm_bind (read_page W ''../WebApps/GomokuServer/resource/entry.html'') (\<lambda>bufStr.
       set_reply (req_version req) k200Ok ''OK'' False ''text/html'' bufStr)"

definition GameBackendHandler :: "('j, 'd, 'g) gworld \<Rightarrow> HttpRequest \<Rightarrow> ('d, 'g, unit) gm" where
  "GameBackendHandler W req =
     gm_bind (read_page W ''../WebApps/GomokuServer/resource/Backend.html'') (\<lambda>htmlContent.
       set_reply (req_version req) k200Ok ''OK'' False ''text/html'' htmlContent)"

definition bad_json :: "('j, 'd, 'g) gworld \<Rightarrow> HttpRequest \<Rightarrow> std_exn \<Rightarrow> ('d, 'g, unit) gm" where
  "bad_json W req e =
     gm_bind (dump W 4 (status_message ''error'' (what e))) (\<lambda>failureBody.
       set_reply (req_version req) k400BadRequest ''Bad Request'' True ''application/json'' failureBody)"

definition insert_script :: "int \<Rightarrow> string \<Rightarrow> string" where
  "insert_script uid htmlContent =
     (case find_str ''</head>'' htmlContent of
        Some headEnd \<Rightarrow>
          take headEnd htmlContent @ ''<script>const userId = '' @ [CHR 0x27] @ string_of_int uid @ [CHR 0x27] @ '';</script>''
          @ drop headEnd htmlContent
      | None \<Rightarrow> htmlContent)"

definition MenuHandler :: "('j, 'd, 'g) gworld \<Rightarrow> HttpRequest \<Rightarrow> ('d, 'g, unit) gm" where
  "MenuHandler W req =
     gm_catch
       (logged_in W req (\<lambda>a uid.
          gm_bind (read_page W ''../WebApps/GomokuServer/resource/menu.html'') (\<lambda>htmlContent.
            set_reply (req_version req) k200Ok ''OK'' False ''text/html'' (insert_script uid htmlContent))))
       (bad_json W req)"

definition AiGameStartHandler :: "('j, 'd, 'g) gworld \<Rightarrow> HttpRequest \<Rightarrow> ('d, 'g, unit) gm" where
  "AiGameStartHandler W req =
     logged_in W req (\<lambda>a uid.
       gm_bind (new_game uid) (\<lambda>_.
       gm_bind (read_page W ''../WebApps/GomokuServer/resource/ChessGameVsAi.html'') (\<lambda>htmlContent.
         set_reply (req_version req) k200Ok ''OK'' False ''text/html'' htmlContent)))"

section \<open>Moves\<close>

fun stone_text :: "stone \<Rightarrow> string" where
  "stone_text EMPTY = ''empty''"
| "stone_text AI_PLAYER = ''white''"
| "stone_text HUMAN_PLAYER = ''black''"

definition board_json :: "AiGame \<Rightarrow> jval" where
  "board_json g = JArr (map (\<lambda>row. JArr (map (\<lambda>c. JStr (stone_text c)) row)) (game_board g))"

definition last_move_json :: "AiGame \<Rightarrow> string \<times> jval" where
  "last_move_json g = (''last_move'', JObj [(''x'', JInt (fst (lastMove g))), (''y'', JInt (snd (lastMove g)))])"

definition move_json :: "AiGame \<Rightarrow> string \<Rightarrow> string \<Rightarrow> bool \<Rightarrow> jval" where
  "move_json g win turn with_last =
     JObj ([(''status'', JStr ''ok''), (''board'', board_json g), (''winner'', JStr win), (''next_turn'', JStr turn)]
       @ (if with_last then [last_move_json g] else []))"

text \<open>The four answers that end a game, and the one that goes on, differ only in their JSON text.\<close>

definition move_reply :: "('j, 'd, 'g) gworld \<Rightarrow> HttpRequest \<Rightarrow> jval \<Rightarrow> ('d, 'g, unit) gm" where
  "move_reply W req v =
     gm_bind (dump W (-1) v) (\<lambda>responseBody. set_reply (req_version req) k200Ok ''OK'' False ''application/json'' responseBody)"

definition end_reply :: "('j, 'd, 'g) gworld \<Rightarrow> HttpRequest \<Rightarrow> int \<Rightarrow> jval \<Rightarrow> ('d, 'g, unit) gm" where
  "end_reply W req uid v = gm_bind (move_reply W req v) (\<lambda>_. erase_game uid)"

definition store_game :: "int \<Rightarrow> AiGame \<Rightarrow> ('d, 'g, unit) gm" where
  "store_game uid g = gm_upd (\<lambda>s. s\<lparr>aiGames := (aiGames s)(uid \<mapsto> g)\<rparr>)"

definition find_game :: "int \<Rightarrow> ('d, 'g, AiGame) gm" where
  "find_game uid =
     gm_bind (gm_upd (\<lambda>s. if aiGames s uid = None then s\<lparr>aiGames := (aiGames s)(uid \<mapsto> AiGame_new uid)\<rparr> else s)) (\<lambda>_.
       gm_get (\<lambda>s. case aiGames s uid of Some g \<Rightarrow> g | None \<Rightarrow> AiGame_new uid))"

definition after_ai_move :: "('j, 'd, 'g) gworld \<Rightarrow> HttpRequest \<Rightarrow> int \<Rightarrow> AiGame \<Rightarrow> ('d, 'g, unit) gm" where
  "after_ai_move W req uid g =
     (if gameOver g then end_reply W req uid (move_json g ''ai'' ''none'' True)
      else if isDraw g then end_reply W req uid (move_json g ''draw'' ''none'' True)
      else move_reply W req (move_json g ''none'' ''human'' True))"

definition play :: "('j, 'd, 'g) gworld \<Rightarrow> HttpRequest \<Rightarrow> int \<Rightarrow> int \<Rightarrow> int \<Rightarrow> ('d, 'g, unit) gm" where
  "play W req uid x y =
     gm_bind (find_game uid) (\<lambda>g.
       case humanMove x y g of
         (False, g1) \<Rightarrow>
           gm_bind (dump W (-1) (status_message ''error'' ''Invalid move'')) (\<lambda>responseBody.
             set_reply (req_version req) k400BadRequest ''Bad Request'' False ''application/json'' responseBody)
       | (True, g1) \<Rightarrow>
           gm_bind (store_game uid g1) (\<lambda>_.
             if gameOver g1 then end_reply W req uid (move_json g1 ''human'' ''none'' False)
             else if isDraw g1 then end_reply W req uid (move_json g1 ''draw'' ''none'' False)
             else gm_bind (gm_res (aiMove (gw_rand W) g1)) (\<lambda>g2.
                    gm_bind (store_game uid g2) (\<lambda>_. after_ai_move W req uid g2))))"

definition AiGameMoveHandler :: "('j, 'd, 'g) gworld \<Rightarrow> HttpRequest \<Rightarrow> ('d, 'g, unit) gm" where
  "AiGameMoveHandler W req =
     gm_catch
       (logged_in W req (\<lambda>a uid.
          gm_bind (gm_lift (gw_parse W (req_content req))) (\<lambda>request.
          gm_bind (gm_lift (gw_int W ''x'' request)) (\<lambda>x.
          gm_bind (gm_lift (gw_int W ''y'' request)) (\<lambda>y.
          play W req uid x y)))))
       (\<lambda>e. gm_bind (dump W (-1) (status_message ''error'' (what e))) (\<lambda>responseBody.
          packageResp (req_version req) k500InternalServerError ''Internal Server Error'' False ''application/json''
            (length responseBody) responseBody))"

section \<open>Accounts\<close>

definition json_request :: "HttpRequest \<Rightarrow> bool" where
  "json_request req \<longleftrightarrow>
     \<not> (getHeader ''Content-Type'' req = [] \<or> getHeader ''Content-Type'' req \<noteq> ''application/json'' \<or> req_content req = [])"

definition bad_request_reply :: "HttpRequest \<Rightarrow> ('d, 'g, unit) gm" where
  "bad_request_reply req = set_reply (req_version req) k400BadRequest ''Bad Request'' True ''application/json'' []"

text \<open>The UTF-8 bytes of the message for an account that is logged in elsewhere.\<close>

definition already_online :: string where
  "already_online = map char_of [232 :: nat, 180, 166, 229, 143, 183, 229, 183, 178, 229, 156, 168, 229, 133, 182, 228, 187, 150, 229, 156, 176, 230, 150, 185, 231, 153, 187, 229, 189, 149]"

definition queryUserId :: "('j, 'd, 'g) gworld \<Rightarrow> string \<Rightarrow> string \<Rightarrow> ('d, 'g, int) gm" where
  "queryUserId W username password =
     gm_bind (sql_query W ''SELECT id FROM users WHERE username = ? AND password = ?'' [username, password])
       (\<lambda>row. gm_return (case row of Some uid \<Rightarrow> uid | None \<Rightarrow> -1))"

definition login_user :: "('j, 'd, 'g) gworld \<Rightarrow> HttpRequest \<Rightarrow> string \<Rightarrow> int \<Rightarrow> ('d, 'g, unit) gm" where
  "login_user W req username uid =
     gm_bind (the_session W req) (\<lambda>a.
     gm_bind (session_set a ''userId'' (string_of_int uid)) (\<lambda>_.
     gm_bind (session_set a ''username'' username) (\<lambda>_.
     gm_bind (session_set a ''isLoggedIn'' ''true'') (\<lambda>_.
     gm_bind (gm_get (\<lambda>s. map_of (onlineUsers s) uid)) (\<lambda>online.
       if online = None \<or> online = Some False
       then gm_bind (gm_upd (\<lambda>s. s\<lparr>onlineUsers := AList.update uid True (onlineUsers s)\<rparr>)) (\<lambda>_.
            gm_bind (gm_get getCurOnline) (\<lambda>n.
            gm_bind (updateMaxOnline n) (\<lambda>_.
            gm_bind (dump W 4 (JObj [(''success'', JBool True), (''userId'', JInt uid)])) (\<lambda>successBody.
            set_reply (req_version req) k200Ok ''OK'' False ''application/json'' successBody))))
       else gm_bind (dump W 4 (JObj [(''success'', JBool False), (''error'', JStr already_online)])) (\<lambda>failureBody.
            set_reply (req_version req) k403Forbidden ''Forbidden'' True ''application/json'' failureBody))))))"

definition LoginHandler :: "('j, 'd, 'g) gworld \<Rightarrow> HttpRequest \<Rightarrow> ('d, 'g, unit) gm" where
  "LoginHandler W req =
     (if \<not> json_request req then bad_request_reply req
      else gm_catch
        (gm_bind (gm_lift (gw_parse W (req_content req))) (\<lambda>parsed.
         gm_bind (gm_lift (gw_string W ''username'' parsed)) (\<lambda>username.
         gm_bind (gm_lift (gw_string W ''password'' parsed)) (\<lambda>password.
         gm_bind (queryUserId W username password) (\<lambda>uid.
           if uid \<noteq> -1 then login_user W req username uid
           else gm_bind (dump W 4 (status_message ''error'' ''Invalid username or password'')) (\<lambda>failureBody.
                set_reply (req_version req) k401Unauthorized ''Unauthorized'' False ''application/json'' failureBody))))))
        (bad_json W req))"

definition MAN_VS_AI :: int where
  "MAN_VS_AI = 1"

definition LogoutHandler :: "('j, 'd, 'g) gworld \<Rightarrow> HttpRequest \<Rightarrow> ('d, 'g, unit) gm" where
  "LogoutHandler W req =
     (if \<not> json_request req then bad_request_reply req
      else gm_catch
        (gm_bind (the_session W req) (\<lambda>a.
         gm_bind (session_value ''userId'' a) (\<lambda>text.
         gm_bind (gm_res (stoi text)) (\<lambda>uid.
         gm_bind (gm_upd (\<lambda>s. s\<lparr>gm_heap := (gm_heap s)[a := clear (gm_heap s ! a)]\<rparr>)) (\<lambda>_.
         gm_bind (gm_upd (\<lambda>s. s\<lparr>gm_sessions := destroySession memory_storage (ses_id (gm_heap s ! a)) (gm_sessions s)\<rparr>)) (\<lambda>_.
         gm_bind (gm_lift (gw_parse W (req_content req))) (\<lambda>parsed.
         gm_bind (gm_lift (gw_int W ''gameType'' parsed)) (\<lambda>gameType.
         gm_bind (gm_upd (\<lambda>s. s\<lparr>onlineUsers := AList.delete uid (onlineUsers s)\<rparr>)) (\<lambda>_.
         gm_bind (if gameType = MAN_VS_AI then erase_game uid else gm_return ()) (\<lambda>_.
         gm_bind (dump W 4 (JObj [(''message'', JStr ''logout successful'')])) (\<lambda>responseBody.
         set_reply (req_version req) k200Ok ''OK'' True ''application/json'' responseBody)))))))))))
        (bad_json W req))"

definition isUserExist :: "('j, 'd, 'g) gworld \<Rightarrow> string \<Rightarrow> ('d, 'g, bool) gm" where
  "isUserExist W username =
     gm_bind (sql_query W (''SELECT id FROM users WHERE username = '' @ [CHR 0x27] @ username @ [CHR 0x27]) [])
       (\<lambda>row. gm_return (row \<noteq> None))"

definition insertUser :: "('j, 'd, 'g) gworld \<Rightarrow> string \<Rightarrow> string \<Rightarrow> ('d, 'g, int) gm" where
  "insertUser W username password =
     gm_bind (isUserExist W username) (\<lambda>known.
       if \<not> known
       then gm_bind (sql_update W (''INSERT INTO users (username, password) VALUES ('' @ [CHR 0x27] @ username @ [CHR 0x27] @ '', ''
                      @ [CHR 0x27] @ password @ [CHR 0x27] @ '')'') []) (\<lambda>_.
            gm_bind (sql_query W (''SELECT id FROM users WHERE username = '' @ [CHR 0x27] @ username @ [CHR 0x27]) []) (\<lambda>row.
              gm_return (case row of Some uid \<Rightarrow> uid | None \<Rightarrow> -1)))
       else gm_return (-1))"

definition RegisterHandler :: "('j, 'd, 'g) gworld \<Rightarrow> HttpRequest \<Rightarrow> ('d, 'g, unit) gm" where
  "RegisterHandler W req =
     gm_bind (gm_lift (gw_parse W (req_content req))) (\<lambda>parsed.
     gm_bind (gm_lift (gw_string W ''username'' parsed)) (\<lambda>username.
     gm_bind (gm_lift (gw_string W ''password'' parsed)) (\<lambda>password.
     gm_bind (insertUser W username password) (\<lambda>uid.
       if uid \<noteq> -1
       then gm_bind (dump W 4 (JObj [(''status'', JStr ''success''), (''message'', JStr ''Register successful''), (''userId'', JInt uid)]))
              (\<lambda>successBody. set_reply (req_version req) k200Ok ''OK'' False ''application/json'' successBody)
       else gm_bind (dump W 4 (status_message ''error'' ''username already exists''))
              (\<lambda>failureBody. set_reply (req_version req) k409Conflict ''Conflict'' False ''application/json'' failureBody)))))"

section \<open>The server\<close>

text \<open>The option is passed where the \<open>HttpServer\<close> takes whether to use TLS, and its own option keeps the default.\<close>

definition GomokuServer_new :: "int \<Rightarrow> string \<Rightarrow> tcp_option \<Rightarrow> ('d, 'g) gomoku HttpServer" where
  "GomokuServer_new port name option = HttpServer_new port name (option = kReusePort) kNoReusePort"

text \<open>The session manager and the members of a new server; \<open>g\<close> seeds the random numbers.\<close>

definition setSessionManager :: "(MemorySessionStorage, 'g) SessionManager \<Rightarrow> ('d, 'g) gomoku \<Rightarrow> ('d, 'g) gomoku" where
  "setSessionManager manager s = s\<lparr>gm_sessions := manager\<rparr>"

definition getSessionManager :: "('d, 'g) gomoku \<Rightarrow> (MemorySessionStorage, 'g) SessionManager" where
  "getSessionManager s = gm_sessions s"

definition initializeSession :: "'g \<Rightarrow> ('d, 'g) gomoku \<Rightarrow> ('d, 'g) gomoku" where
  "initializeSession g s = setSessionManager (SessionManager_new Map.empty g) s"

definition gomoku_state :: "'d \<Rightarrow> 'g \<Rightarrow> ('d, 'g) gomoku" where
  "gomoku_state d g =
     initializeSession g
       \<lparr>gm_heap = [], gm_sessions = SessionManager_new Map.empty g, aiGames = Map.empty, onlineUsers = [], maxOnline = 0, gm_db = d\<rparr>"

definition initializeMiddleware :: "('d, 'g) gomoku HttpServer \<Rightarrow> ('d, 'g) gomoku HttpServer" where
  "initializeMiddleware srv = srv_addMiddleware (Some (CorsMiddleware defaultConfig)) srv"

definition initializeRouter :: "('j, 'd, 'g) gworld \<Rightarrow> ('d, 'g) gomoku HttpServer \<Rightarrow> ('d, 'g) gomoku HttpServer" where
  "initializeRouter W srv =
     Get_callback ''/backend_data'' (Some (as_handler (getBackendData W)))
     (Get_handler ''/backend'' (Some (as_handler (GameBackendHandler W)))
     (Get_callback ''/aiBot/restart'' (Some (as_handler (restartChessGameVsAi W)))
     (Post_handler ''/aiBot/move'' (Some (as_handler (AiGameMoveHandler W)))
     (Get_handler ''/aiBot/start'' (Some (as_handler (AiGameStartHandler W)))
     (Get_handler ''/menu'' (Some (as_handler (MenuHandler W)))
     (Post_handler ''/user/logout'' (Some (as_handler (LogoutHandler W)))
     (Post_handler ''/register'' (Some (as_handler (RegisterHandler W)))
     (Post_handler ''/login'' (Some (as_handler (LoginHandler W)))
     (Get_handler ''/entry'' (Some (as_handler (EntryHandler W)))
     (Get_handler ''/'' (Some (as_handler (EntryHandler W))) srv))))))))))"

definition gomoku_server :: "('j, 'd, 'g) gworld \<Rightarrow> ('d, 'g) gomoku HttpServer" where
  "gomoku_server W = initializeRouter W (initializeMiddleware (GomokuServer_new 80 ''HttpServer'' kNoReusePort))"

section \<open>Invariants of computations\<close>

text \<open>A computation keeps a property of the state, however it ends, and never crashes.\<close>

definition gm_keeps :: "(('d, 'g) gomoku \<Rightarrow> bool) \<Rightarrow> ('d, 'g, 'a) gm \<Rightarrow> bool" where
  "gm_keeps P m \<longleftrightarrow>
     (\<forall>resp s. P s \<longrightarrow> (case m (resp, s) of (r, resp', s') \<Rightarrow> P s' \<and> (\<forall>f. r \<noteq> Inl (Crash f))))"

named_theorems gm_rules

lemma gm_keeps_I:
  "(\<And>resp s r resp' s'. P s \<Longrightarrow> m (resp, s) = (r, resp', s') \<Longrightarrow> P s' \<and> (\<forall>f. r \<noteq> Inl (Crash f))) \<Longrightarrow> gm_keeps P m"
  by (auto simp: gm_keeps_def split: prod.splits)

lemma gm_keeps_D:
  "gm_keeps P m \<Longrightarrow> P s \<Longrightarrow> m (resp, s) = (r, resp', s') \<Longrightarrow> P s' \<and> (\<forall>f. r \<noteq> Inl (Crash f))"
  by (auto simp: gm_keeps_def split: prod.splits)

lemma gm_keeps_return [gm_rules]: "gm_keeps P (gm_return x)"
  by (simp add: gm_keeps_def gm_return_def)

lemma gm_keeps_bind [gm_rules]:
  assumes "gm_keeps P m" "\<And>x. gm_keeps P (f x)"
  shows "gm_keeps P (gm_bind m f)"
proof (rule gm_keeps_I)
  fix resp s r resp' s' assume s: "P s" and b: "gm_bind m f (resp, s) = (r, resp', s')"
  obtain x resp1 s1 where m: "m (resp, s) = (x, resp1, s1)" by (cases "m (resp, s)") auto
  have "P s1 \<and> (\<forall>e. x \<noteq> Inl (Crash e))" by (rule gm_keeps_D [OF assms(1) s m])
  then show "P s' \<and> (\<forall>f. r \<noteq> Inl (Crash f))"
    using b m gm_keeps_D [OF assms(2), of s1] by (cases x) (auto simp: gm_bind_def)
qed

lemma gm_keeps_lift [gm_rules]: "gm_keeps P (gm_lift r)"
  by (simp add: gm_keeps_def gm_lift_def split: sum.split)

lemma gm_keeps_res: "(\<And>f. r = Inl f \<Longrightarrow> \<exists>e. f = Exception e) \<Longrightarrow> gm_keeps P (gm_res r)"
  by (auto simp: gm_keeps_def gm_res_def split: sum.split)

lemma gm_keeps_resp [gm_rules]: "gm_keeps P (gm_resp f)"
  by (simp add: gm_keeps_def gm_resp_def)

lemma gm_keeps_get [gm_rules]: "gm_keeps P (gm_get f)"
  by (simp add: gm_keeps_def gm_get_def)

lemma gm_keeps_upd: "(\<And>s. P s \<Longrightarrow> P (f s)) \<Longrightarrow> gm_keeps P (gm_upd f)"
  by (simp add: gm_keeps_def gm_upd_def)

lemma gm_keeps_catch [gm_rules]:
  assumes "gm_keeps P m" "\<And>e. gm_keeps P (h e)"
  shows "gm_keeps P (gm_catch m h)"
proof (rule gm_keeps_I)
  fix resp s r resp' s' assume s: "P s" and b: "gm_catch m h (resp, s) = (r, resp', s')"
  obtain x resp1 s1 where m: "m (resp, s) = (x, resp1, s1)" by (cases "m (resp, s)") auto
  have "P s1 \<and> (\<forall>e. x \<noteq> Inl (Crash e))" by (rule gm_keeps_D [OF assms(1) s m])
  then show "P s' \<and> (\<forall>f. r \<noteq> Inl (Crash f))"
    using b m gm_keeps_D [OF assms(2), of s1] by (auto simp: gm_catch_def split: sum.splits thrown.splits)
qed

lemma stoi_no_crash: "stoi text = Inl f \<Longrightarrow> \<exists>e. f = Exception e"
  by (auto simp: stoi_def Let_def split: if_splits)

lemma gm_keeps_stoi [gm_rules]: "gm_keeps P (gm_res (stoi text))"
  by (rule gm_keeps_res) (rule stoi_no_crash)

section \<open>Games\<close>

definition running :: "AiGame \<Rightarrow> bool" where
  "running g \<longleftrightarrow> game_ok g \<and> \<not> gameOver g \<and> \<not> isDraw g"

definition games_ok :: "('d, 'g) gomoku \<Rightarrow> bool" where
  "games_ok s \<longleftrightarrow> (\<forall>uid g. aiGames s uid = Some g \<longrightarrow> running g)"

lemma running_new: "running (AiGame_new uid)"
  using AiGame_new_ok [of uid] by (simp add: running_def AiGame_new_def isDraw_def BOARD_SIZE_def)

lemma games_ok_simps [simp]:
  "games_ok (s\<lparr>gm_heap := h\<rparr>) = games_ok s" "games_ok (s\<lparr>gm_sessions := M\<rparr>) = games_ok s"
  "games_ok (s\<lparr>onlineUsers := online\<rparr>) = games_ok s" "games_ok (s\<lparr>maxOnline := n\<rparr>) = games_ok s"
  "games_ok (s\<lparr>gm_db := d\<rparr>) = games_ok s"
  by (simp_all add: games_ok_def)

lemma games_ok_erase [simp]: "games_ok s \<Longrightarrow> games_ok (s\<lparr>aiGames := (aiGames s)(uid := None)\<rparr>)"
  by (simp add: games_ok_def)

lemma games_ok_put: "games_ok s \<Longrightarrow> running g \<Longrightarrow> games_ok (s\<lparr>aiGames := (aiGames s)(uid \<mapsto> g)\<rparr>)"
  by (simp add: games_ok_def)

lemma keeps_games_ops [gm_rules]:
  "gm_keeps games_ok (the_session W req)"
  "gm_keeps games_ok (session_value key a)"
  "gm_keeps games_ok (session_set a key val)"
  "gm_keeps games_ok (sql_query W sql args)"
  "gm_keeps games_ok (sql_update W sql args)"
  "gm_keeps games_ok (dump W indent v)"
  "gm_keeps games_ok (packageResp version code msg close contentType n body)"
  "gm_keeps games_ok (set_reply version code msg close contentType body)"
  "gm_keeps games_ok (new_game uid)"
  "gm_keeps games_ok (erase_game uid)"
  "gm_keeps games_ok (read_page W path)"
  by (auto simp: the_session_def session_value_def session_set_def sql_query_def sql_update_def dump_def packageResp_def set_reply_def
      new_game_def erase_game_def read_page_def gm_keeps_def gm_lift_def games_ok_put running_new gm_get_def gm_upd_def gm_resp_def
      gm_return_def split: prod.splits sum.splits option.splits)

lemma keeps_unauthorized [gm_rules]: "gm_keeps games_ok (unauthorized W req)"
  unfolding unauthorized_def by (intro gm_rules)

lemma keeps_logged_in [gm_rules]:
  "(\<And>a uid. gm_keeps games_ok (k a uid)) \<Longrightarrow> gm_keeps games_ok (logged_in W req k)"
  unfolding logged_in_def by (intro gm_rules) (auto intro!: gm_rules)

lemma keeps_bad_json [gm_rules]: "gm_keeps games_ok (bad_json W req e)"
  unfolding bad_json_def by (intro gm_rules)

lemma keeps_handlers [gm_rules]:
  "gm_keeps games_ok (restartChessGameVsAi W req)"
  "gm_keeps games_ok (getBackendData W req)"
  "gm_keeps games_ok (EntryHandler W req)"
  "gm_keeps games_ok (GameBackendHandler W req)"
  "gm_keeps games_ok (MenuHandler W req)"
  "gm_keeps games_ok (AiGameStartHandler W req)"
  "gm_keeps games_ok (RegisterHandler W req)"
  unfolding restartChessGameVsAi_def getBackendData_def EntryHandler_def GameBackendHandler_def MenuHandler_def
    AiGameStartHandler_def RegisterHandler_def getUserCount_def insertUser_def isUserExist_def
  by (auto intro!: gm_rules)

lemma keeps_login [gm_rules]: "gm_keeps games_ok (LoginHandler W req)"
  unfolding LoginHandler_def login_user_def queryUserId_def bad_request_reply_def updateMaxOnline_def
  by (auto intro!: gm_rules gm_keeps_upd)

lemma keeps_logout [gm_rules]: "gm_keeps games_ok (LogoutHandler W req)"
  unfolding LogoutHandler_def bad_request_reply_def
  by (auto intro!: gm_rules gm_keeps_upd)

text \<open>The JSON library prints a value whenever its strings are valid UTF-8, ASCII ones in particular.\<close>

definition ascii :: "string \<Rightarrow> bool" where
  "ascii t \<longleftrightarrow> (\<forall>c \<in> set t. (of_char c :: nat) < 128)"

fun json_ascii :: "jval \<Rightarrow> bool" where
  "json_ascii (JStr t) = ascii t"
| "json_ascii (JInt i) = True"
| "json_ascii (JBool b) = True"
| "json_ascii (JArr vs) = (\<forall>v \<in> set vs. json_ascii v)"
| "json_ascii (JObj fs) = (\<forall>(k, v) \<in> set fs. ascii k \<and> json_ascii v)"

definition dump_ok :: "('j, 'd, 'g) gworld \<Rightarrow> bool" where
  "dump_ok W \<longleftrightarrow> (\<forall>indent v. json_ascii v \<longrightarrow> \<not> isl (gw_dump W indent v))"

lemma dump_ascii:
  assumes "dump_ok W" "json_ascii v"
  obtains body where "dump W indent v = gm_return body" "gw_dump W indent v = Inr body"
proof -
  obtain body where "gw_dump W indent v = Inr body"
    using assms by (auto simp: dump_ok_def) (metis sum.collapse(2))
  then show ?thesis using that by (simp add: dump_def gm_lift_def gm_return_def)
qed

lemma stone_text_ascii: "ascii (stone_text c)"
  by (cases c) (simp_all add: ascii_def)

lemma move_json_ascii: "ascii win \<Longrightarrow> ascii turn \<Longrightarrow> json_ascii (move_json g win turn with_last)"
  by (auto simp: move_json_def board_json_def last_move_json_def stone_text_ascii) (simp_all add: ascii_def)

text \<open>What a move leaves of the game: nothing once it has ended.\<close>

definition after_move :: "nat \<Rightarrow> int \<Rightarrow> int \<Rightarrow> AiGame \<Rightarrow> AiGame option" where
  "after_move num x y g =
     (case humanMove x y g of
        (False, _) \<Rightarrow> Some g
      | (True, g1) \<Rightarrow>
          if gameOver g1 \<or> isDraw g1 then None
          else (case aiMove num g1 of
                  Inl _ \<Rightarrow> None
                | Inr g2 \<Rightarrow> if gameOver g2 \<or> isDraw g2 then None else Some g2))"

lemma aiMove_running:
  assumes "running g"
  obtains g2 where "aiMove num g = Inr g2" "game_ok g2" "moveCount g2 = moveCount g + 1"
proof -
  obtain r c where rc: "aiMove num g = Inr (place AI_PLAYER ''ai'' r c g)" "isInBoard r c" "cell (game_board g) r c = EMPTY"
    using aiMove_place [of g num] assms by (auto simp: running_def)
  moreover have "game_ok (place AI_PLAYER ''ai'' r c g)"
    using place_ok [OF _ rc(2,3)] assms by (simp add: running_def)
  ultimately show ?thesis using that by (auto simp: place_def Let_def)
qed

lemma after_move_running: "running g \<Longrightarrow> after_move num x y g = Some g' \<Longrightarrow> running g'"
proof -
  assume g: "running g" and a: "after_move num x y g = Some g'"
  obtain b g1 where h: "humanMove x y g = (b, g1)" by fastforce
  show "running g'"
  proof (cases "b \<and> running g1")
    case True
    then obtain g2 where "aiMove num g1 = Inr g2" "game_ok g2" using aiMove_running by blast
    then show ?thesis using a h True by (auto simp: after_move_def running_def split: if_splits)
  next
    case False
    moreover have "game_ok g1" using humanMove_ok [of g x y] g h by (simp add: running_def)
    ultimately show ?thesis using a h g by (cases b) (auto simp: after_move_def running_def split: if_splits)
  qed
qed

lemma after_move_count:
  assumes "running g" "isValidMove g x y" "after_move num x y g = Some g'"
  shows "moveCount g' = moveCount g + 2"
proof -
  obtain g1 where h: "humanMove x y g = (True, g1)" "moveCount g1 = moveCount g + 1"
    using assms(2) by (simp add: humanMove_def place_def Let_def)
  have "running g1"
    using assms(1,3) h humanMove_ok [of g x y] by (auto simp: after_move_def running_def split: if_splits)
  then obtain g2 where "aiMove num g1 = Inr g2" "moveCount g2 = moveCount g1 + 1" by (rule aiMove_running)
  then show ?thesis using assms(3) h by (simp add: after_move_def split: if_splits)
qed

definition current_game :: "int \<Rightarrow> ('d, 'g) gomoku \<Rightarrow> AiGame" where
  "current_game uid s = (case aiGames s uid of Some g \<Rightarrow> g | None \<Rightarrow> AiGame_new uid)"

lemma current_running: "games_ok s \<Longrightarrow> running (current_game uid s)"
  by (auto simp: current_game_def games_ok_def running_new split: option.split)

lemmas gm_run = gm_bind_def gm_return_def gm_upd_def gm_get_def gm_resp_def gm_res_def

lemma find_game_run:
  "find_game uid (resp, s) = (Inr (current_game uid s), resp, s\<lparr>aiGames := (aiGames s)(uid \<mapsto> current_game uid s)\<rparr>)"
proof (cases "aiGames s uid")
  case (Some g)
  then have "(aiGames s)(uid \<mapsto> g) = aiGames s" by auto
  then show ?thesis using Some by (simp add: find_game_def gm_run current_game_def)
qed (simp add: find_game_def gm_run current_game_def)

lemma set_reply_run:
  "\<exists>resp'. set_reply version code msg close contentType body (resp, s) = (Inr (), resp', s)
     \<and> rsp_statusCode resp' = code \<and> rsp_body resp' = body \<and> rsp_closeConnection resp' = close"
  by (simp add: set_reply_def gm_resp_def rsp_setters rsp_setContentLength_def rsp_setContentType_def rsp_addHeader_def setStatusLine_def)

lemma packageResp_run:
  "\<exists>resp'. packageResp version code msg close contentType n body (resp, s) = (Inr (), resp', s)
     \<and> rsp_statusCode resp' = code \<and> rsp_body resp' = body \<and> rsp_closeConnection resp' = close"
  by (simp add: packageResp_def gm_resp_def rsp_setters rsp_setContentLength_def rsp_setContentType_def rsp_addHeader_def)

lemma move_reply_run:
  assumes "dump_ok W" "json_ascii v"
  shows "\<exists>resp'. move_reply W req v (resp, s) = (Inr (), resp', s) \<and> rsp_statusCode resp' = k200Ok"
proof -
  obtain body where "dump W (-1) v = gm_return body" using dump_ascii [OF assms] by blast
  then show ?thesis
    using set_reply_run [of "req_version req" k200Ok "''OK''" False "''application/json''" body resp s]
    by (auto simp: move_reply_def gm_bind_def gm_return_def)
qed

lemma end_reply_run:
  assumes "dump_ok W" "json_ascii v"
  shows "\<exists>resp'. end_reply W req uid v (resp, s) = (Inr (), resp', s\<lparr>aiGames := (aiGames s)(uid := None)\<rparr>) \<and> rsp_statusCode resp' = k200Ok"
  using move_reply_run [OF assms, of req resp s] by (auto simp: end_reply_def gm_run erase_game_def)

lemma play_run:
  assumes "dump_ok W" "games_ok s"
  shows "\<exists>resp'. play W req uid x y (resp, s)
        = (Inr (), resp', s\<lparr>aiGames := (aiGames s)(uid := after_move (gw_rand W) x y (current_game uid s))\<rparr>)
    \<and> rsp_statusCode resp' = (if isValidMove (current_game uid s) x y then k200Ok else k400BadRequest)"
proof -
  let ?g = "current_game uid s"
  have ascii: "ascii ''human''" "ascii ''none''" "ascii ''draw''" "ascii ''ai''" by (simp_all add: ascii_def)
  note js = move_json_ascii [OF ascii(1,2)] move_json_ascii [OF ascii(3,2)] move_json_ascii [OF ascii(4,2)] move_json_ascii [OF ascii(2,1)]
  show ?thesis
  proof (cases "isValidMove ?g x y")
    case False
    obtain body where b: "dump W (-1) (status_message ''error'' ''Invalid move'') = gm_return body"
      by (rule dump_ascii [OF assms(1)]) (auto simp: status_message_def ascii_def)
    show ?thesis
      using False b set_reply_run [of "req_version req" k400BadRequest "''Bad Request''" False "''application/json''" body resp
          "s\<lparr>aiGames := (aiGames s)(uid \<mapsto> ?g)\<rparr>"]
      by (auto simp: play_def gm_bind_def find_game_run humanMove_def after_move_def gm_return_def)
  next
    case valid: True
    then obtain g1 where h: "humanMove x y ?g = (True, g1)" by (simp add: humanMove_def)
    let ?s = "\<lambda>g. s\<lparr>aiGames := (aiGames s)(uid \<mapsto> g)\<rparr>"
    show ?thesis
    proof (cases "gameOver g1 \<or> isDraw g1")
      case True
      then show ?thesis
        using h valid end_reply_run [OF assms(1) js(1), of req uid g1 False resp "?s g1"]
          end_reply_run [OF assms(1) js(2), of req uid g1 False resp "?s g1"]
        by (auto simp: play_def gm_bind_def find_game_run after_move_def store_game_def gm_upd_def)
    next
      case False
      have "game_ok g1" using humanMove_ok [of ?g x y] current_running [OF assms(2), of uid] h by (simp add: running_def)
      then obtain g2 where g2: "aiMove (gw_rand W) g1 = Inr g2" using aiMove_running [of g1] False by (auto simp: running_def)
      show ?thesis
        using h valid False g2 end_reply_run [OF assms(1) js(3), of req uid g2 True resp "?s g2"]
          end_reply_run [OF assms(1) js(2), of req uid g2 True resp "?s g2"] move_reply_run [OF assms(1) js(4), of req g2 True resp "?s g2"]
        by (auto simp: play_def gm_bind_def find_game_run after_move_def store_game_def gm_upd_def gm_res_def after_ai_move_def)
    qed
  qed
qed

lemma keeps_play: "dump_ok W \<Longrightarrow> gm_keeps games_ok (play W req uid x y)"
proof (rule gm_keeps_I)
  fix resp s r resp' s'
  assume W: "dump_ok W" and s: "games_ok s" and p: "play W req uid x y (resp, s) = (r, resp', s')"
  have "\<forall>g. after_move (gw_rand W) x y (current_game uid s) = Some g \<longrightarrow> running g"
    using after_move_running current_running [OF s] by blast
  then show "games_ok s' \<and> (\<forall>f. r \<noteq> Inl (Crash f))"
    using play_run [OF W s, of req uid x y resp] p s by (auto simp: games_ok_def)
qed

lemma keeps_move: "dump_ok W \<Longrightarrow> gm_keeps games_ok (AiGameMoveHandler W req)"
  unfolding AiGameMoveHandler_def by (auto intro!: gm_rules keeps_play)

section \<open>Requests to the server\<close>

definition good_handler :: "('d, 'g) gomoku handler \<Rightarrow> bool" where
  "good_handler h \<longleftrightarrow>
     (\<forall>req resp s. games_ok s \<longrightarrow> (case h req resp s of (e, resp', s') \<Rightarrow> games_ok s' \<and> (\<forall>f. e \<noteq> Some (Crash f))))"

lemma good_as_handler: "(\<And>req. gm_keeps games_ok (m req)) \<Longrightarrow> good_handler (as_handler m)"
  unfolding good_handler_def as_handler_def gm_keeps_def by (fastforce split: prod.splits sum.splits)

lemma routed_good:
  assumes "good_handler h" "games_ok s"
  shows "case routed (h req resp s) of (r, resp', s') \<Rightarrow> games_ok s' \<and> (\<forall>f. r \<noteq> Inl (Crash f))"
  using assms unfolding good_handler_def routed_def by (fastforce split: prod.splits option.splits)

definition routes_ok :: "('d, 'g) gomoku HttpServer \<Rightarrow> bool" where
  "routes_ok srv \<longleftrightarrow>
     (\<forall>k h. handlers (srv_router srv) k = Some h \<longrightarrow> (\<exists>f. h = Some f \<and> good_handler f))
     \<and> (\<forall>k h. callbacks (srv_router srv) k = Some h \<longrightarrow> (\<exists>f. h = Some f \<and> good_handler f))
     \<and> regexHandlers (srv_router srv) = [] \<and> regexCallbacks (srv_router srv) = []"

lemma routes_ok_ops:
  "routes_ok (initializeMiddleware (GomokuServer_new 80 ''HttpServer'' kNoReusePort))"
  "routes_ok srv \<Longrightarrow> good_handler f \<Longrightarrow> routes_ok (Get_handler path (Some f) srv)"
  "routes_ok srv \<Longrightarrow> good_handler f \<Longrightarrow> routes_ok (Post_handler path (Some f) srv)"
  "routes_ok srv \<Longrightarrow> good_handler f \<Longrightarrow> routes_ok (Get_callback path (Some f) srv)"
  by (simp_all add: routes_ok_def initializeMiddleware_def GomokuServer_new_def srv_addMiddleware_def
      Router_new_def Get_handler_def Post_handler_def Get_callback_def registerHandler_def registerCallback_def)

lemma route_good:
  assumes "routes_ok srv" "games_ok s"
  shows "case route (srv_router srv) req resp s of (r, resp', s') \<Rightarrow> games_ok s' \<and> (\<forall>f. r \<noteq> Inl (Crash f))"
proof -
  let ?k = "(req_method req, req_path req)"
  consider (handler) f where "handlers (srv_router srv) ?k = Some (Some f)" "good_handler f"
    | (callback) f where "handlers (srv_router srv) ?k = None" "callbacks (srv_router srv) ?k = Some (Some f)" "good_handler f"
    | (none) "handlers (srv_router srv) ?k = None" "callbacks (srv_router srv) ?k = None"
    using assms(1) by (metis not_None_eq routes_ok_def)
  then show ?thesis
  proof cases
    case handler
    then show ?thesis using routed_good [OF handler(2) assms(2)] by (simp add: route_def call_handler_def)
  next
    case callback
    then show ?thesis using routed_good [OF callback(3) assms(2)] by (simp add: route_def call_callback_def)
  next
    case none
    then show ?thesis using assms by (simp add: route_def routes_ok_def)
  qed
qed

lemma gomoku_routes: "dump_ok W \<Longrightarrow> routes_ok (gomoku_server W)"
  unfolding gomoku_server_def initializeRouter_def
  by (intro routes_ok_ops good_as_handler gm_rules keeps_move)

lemma gomoku_chain: "srv_chain (gomoku_server W) = [Some (CorsMiddleware defaultConfig)]"
  by (simp add: gomoku_server_def initializeRouter_def initializeMiddleware_def GomokuServer_new_def
      srv_addMiddleware_def addMiddleware_def Get_handler_def Post_handler_def Get_callback_def)

lemma gomoku_httpCallback: "httpCallback (gomoku_server W) = handleRequest (gomoku_server W)"
  by (simp add: httpCallback_def gomoku_server_def initializeRouter_def initializeMiddleware_def GomokuServer_new_def
      srv_addMiddleware_def Get_handler_def Post_handler_def Get_callback_def)

lemma gomoku_tcp:
  "\<not> srv_useSSL (gomoku_server W)" "tcp_connectionCallback (srv_tcp (gomoku_server W))" "tcp_messageCallback (srv_tcp (gomoku_server W))"
  by (simp_all add: gomoku_server_def initializeRouter_def initializeMiddleware_def GomokuServer_new_def HttpServer_new_def
      HttpServer_initialize_def srv_addMiddleware_def Get_handler_def Post_handler_def Get_callback_def)

lemma games_ok_new: "games_ok (gomoku_state d g)"
  by (simp add: games_ok_def gomoku_state_def initializeSession_def setSessionManager_def)

text \<open>Asked to share its port, the Gomoku server uses TLS instead, has no certificate, and fails at the first connection.\<close>

lemma gomoku_reuse_port_fails:
  "onConnection A (initializeRouter W (initializeMiddleware (GomokuServer_new port name kReusePort))) True conn = (Some (Crash Undefined_Behaviour), conn)"
  by (simp add: onConnection_def initializeRouter_def initializeMiddleware_def GomokuServer_new_def
      srv_addMiddleware_def Get_handler_def Post_handler_def Get_callback_def)

lemma handleRequest_gomoku:
  assumes "req_method req \<noteq> kOptions" "route (srv_router (gomoku_server W)) req resp s = (Inr found, resp1, s1)"
  shows "handleRequest (gomoku_server W) req resp s
    = (None, fst (snd (cors_after defaultConfig (if found then resp1 else set_not_found resp1) s1)), s1)"
  using assms by (simp add: handleRequest_def gomoku_chain CorsMiddleware_def cors_before_def processAfter_def cors_after_def)

text \<open>
  The Gomoku server survives every request. Whatever request arrives, in whatever session state,
  with whatever the database answers, \<open>handleRequest\<close> of the Gomoku server returns (no failure ends
  the process), and every game in its table stays a running one: its books are in order, nobody
  has won, the board is not full; a game that ends leaves the table in the same request.
\<close>

lemma gomoku_keeps_games:
  assumes "dump_ok W" "games_ok s"
  shows "\<exists>resp' s'. handleRequest (gomoku_server W) req resp s = (None, resp', s') \<and> games_ok s'"
proof (cases "req_method req = kOptions")
  case True
  then show ?thesis
    using assms(2) by (simp add: handleRequest_def gomoku_chain CorsMiddleware_def cors_before_def)
next
  case False
  obtain r resp1 s1 where r: "route (srv_router (gomoku_server W)) req resp s = (r, resp1, s1)" by (metis prod_cases3)
  with route_good [OF gomoku_routes [OF assms(1)] assms(2), of req resp] have ok: "games_ok s1" "\<forall>f. r \<noteq> Inl (Crash f)" by auto
  show ?thesis
  proof (cases r)
    case (Inl e)
    then show ?thesis using False r ok
      by (cases e) (auto simp: handleRequest_def gomoku_chain CorsMiddleware_def cors_before_def)
  next
    case (Inr found)
    then show ?thesis using False r ok handleRequest_gomoku by blast
  qed
qed

definition some_world :: "(unit, unit, nat) gworld" where
  "some_world =
     \<lparr>gw_parse = (\<lambda>_. Inr ()), gw_string = (\<lambda>_ _. Inr ''ann''), gw_int = (\<lambda>_ _. Inr 7), gw_dump = (\<lambda>_ _. Inr ''{}''),
      gw_query = (\<lambda>_ _ d. (Inr (Some 1), d)), gw_update = (\<lambda>_ _ d. (Inr 1, d)), gw_file = (\<lambda>_. Some ''page''),
      gw_dist = (\<lambda>n. (n mod 16, n + 1)), gw_clk = (\<lambda>_. 0), gw_rand = 0\<rparr>"

definition some_state :: "(unit, nat) gomoku" where
  "some_state =
     \<lparr>gm_heap = [], gm_sessions = \<lparr>mgr_storage = Map.empty, mgr_rng = 0\<rparr>, aiGames = [1 \<mapsto> AiGame_new 1], onlineUsers = [],
      maxOnline = 0, gm_db = ()\<rparr>"

lemma some_world_ok: "dump_ok some_world" "games_ok some_state"
  by (simp_all add: dump_ok_def some_world_def games_ok_def some_state_def running_new)

lemma route_move:
  assumes "req_method req = kPost" "req_path req = ''/aiBot/move''"
  shows "route (srv_router (gomoku_server W)) req resp s = routed (as_handler (AiGameMoveHandler W) req resp s)"
  using assms by (simp add: gomoku_server_def initializeRouter_def initializeMiddleware_def GomokuServer_new_def
      Get_handler_def Get_callback_def Post_handler_def registerHandler_def registerCallback_def Router_new_def srv_addMiddleware_def
      route_def call_handler_def)

lemma route_login:
  assumes "req_method req = kPost" "req_path req = ''/login''"
  shows "route (srv_router (gomoku_server W)) req resp s = routed (as_handler (LoginHandler W) req resp s)"
  using assms by (simp add: gomoku_server_def initializeRouter_def initializeMiddleware_def GomokuServer_new_def
      Get_handler_def Get_callback_def Post_handler_def registerHandler_def registerCallback_def Router_new_def srv_addMiddleware_def
      route_def call_handler_def)

lemma cors_after_code: "rsp_statusCode (fst (snd (cors_after cfg resp s))) = rsp_statusCode resp"
proof -
  obtain hs where "fst (snd (cors_after cfg resp s)) = resp\<lparr>rsp_headers := hs\<rparr>"
    using cors.after_headers [where cfg = cfg and response = resp and s = s] by (auto simp: CorsMiddleware_def headers_only_def)
  then show ?thesis by simp
qed

lemma gomoku_answers:
  assumes "req_method req \<noteq> kOptions" "route (srv_router (gomoku_server W)) req resp s = routed (as_handler m req resp s)"
    and "m req (resp, s) = (Inr (), resp1, s1)"
  shows "\<exists>resp'. handleRequest (gomoku_server W) req resp s = (None, resp', s1) \<and> rsp_statusCode resp' = rsp_statusCode resp1"
  using handleRequest_gomoku [OF assms(1), of W resp s True resp1 s1] assms(2,3) cors_after_code
  by (auto simp: as_handler_def routed_def)

lemma logged_in_run:
  assumes "getSession memory_storage (gw_dist W) (gw_clk W) req resp (gm_heap s) (gm_sessions s) = (a, resp1, h, M)"
    and "getValue ''isLoggedIn'' (h ! a) = ''true''" "stoi (getValue ''userId'' (h ! a)) = Inr uid"
  shows "logged_in W req k (resp, s) = k a uid (resp1, s\<lparr>gm_heap := h, gm_sessions := M\<rparr>)"
  using assms by (simp add: logged_in_def gm_bind_def the_session_def session_value_def gm_get_def gm_res_def)

text \<open>
  C32: A move of a logged-in user. When the session of a POST to \<open>/aiBot/move\<close> is logged in, and its
  JSON body names a cell, the server plays on that user's game (a new one if there is none): an
  invalid move is answered with 400 and changes nothing but the session; a valid one is answered
  with 200, and the table then has the game after the move of the human and the reply of the
  server, two moves further on, or no game if one of them has won or the board is full. The games
  of other users stay as they were.
\<close>

theorem gomoku_move:
  assumes "dump_ok W" "games_ok s" "req_method req = kPost" "req_path req = ''/aiBot/move''"
    and "getSession memory_storage (gw_dist W) (gw_clk W) req resp (gm_heap s) (gm_sessions s) = (a, resp1, h, M)"
    and "getValue ''isLoggedIn'' (h ! a) = ''true''" "stoi (getValue ''userId'' (h ! a)) = Inr uid"
    and "gw_parse W (req_content req) = Inr j" "gw_int W ''x'' j = Inr x" "gw_int W ''y'' j = Inr y"
  shows "\<exists>resp'. handleRequest (gomoku_server W) req resp s
      = (None, resp', s\<lparr>gm_heap := h, gm_sessions := M,
           aiGames := (aiGames s)(uid := after_move (gw_rand W) x y (current_game uid s))\<rparr>)
    \<and> rsp_statusCode resp' = (if isValidMove (current_game uid s) x y then k200Ok else k400BadRequest)
    \<and> (\<forall>g. isValidMove (current_game uid s) x y \<and> after_move (gw_rand W) x y (current_game uid s) = Some g \<longrightarrow>
          moveCount g = moveCount (current_game uid s) + 2)"
proof -
  let ?s = "s\<lparr>gm_heap := h, gm_sessions := M\<rparr>"
  have cur: "current_game uid ?s = current_game uid s" by (simp add: current_game_def)
  obtain resp2 where p: "play W req uid x y (resp1, ?s)
      = (Inr (), resp2, ?s\<lparr>aiGames := (aiGames s)(uid := after_move (gw_rand W) x y (current_game uid s))\<rparr>)"
      "rsp_statusCode resp2 = (if isValidMove (current_game uid s) x y then k200Ok else k400BadRequest)"
    using play_run [OF assms(1), of ?s req uid x y resp1] assms(2) cur by auto
  have "AiGameMoveHandler W req (resp, s)
      = (Inr (), resp2, ?s\<lparr>aiGames := (aiGames s)(uid := after_move (gw_rand W) x y (current_game uid s))\<rparr>)"
    using p(1) assms(8-10) by (simp add: AiGameMoveHandler_def gm_catch_def logged_in_run [OF assms(5-7)] gm_bind_def gm_lift_def)
  from gomoku_answers [OF _ route_move [OF assms(3,4)] this] p(2) assms(3) obtain resp' where
    "handleRequest (gomoku_server W) req resp s
      = (None, resp', ?s\<lparr>aiGames := (aiGames s)(uid := after_move (gw_rand W) x y (current_game uid s))\<rparr>)"
    "rsp_statusCode resp' = (if isValidMove (current_game uid s) x y then k200Ok else k400BadRequest)" by auto
  then show ?thesis using after_move_count [OF current_running [OF assms(2)]] by auto
qed

definition some_session :: Session where
  "some_session =
     \<lparr>ses_id = ''abc'', ses_data = [''userId'' \<mapsto> ''1'', ''isLoggedIn'' \<mapsto> ''true''], ses_expiryTime = 1, ses_maxAge = 3600, ses_manager = True\<rparr>"

definition logged_state :: "(unit, nat) gomoku" where
  "logged_state = some_state\<lparr>gm_heap := [some_session], gm_sessions := \<lparr>mgr_storage = [''abc'' \<mapsto> 0], mgr_rng = 0\<rparr>\<rparr>"

definition move_request :: HttpRequest where
  "move_request = HttpRequest_new\<lparr>req_method := kPost, req_path := ''/aiBot/move'', req_headers := [''Cookie'' \<mapsto> ''sessionId=abc''],
     req_content := ''{}''\<rparr>"

lemma some_getSession:
  "getSession memory_storage (gw_dist some_world) (gw_clk some_world) move_request resp (gm_heap logged_state) (gm_sessions logged_state)
     = (0, resp, [some_session\<lparr>ses_expiryTime := ticks 3600\<rparr>], gm_sessions logged_state)"
  by (simp add: getSession_def getSessionIdFromCookie_def getHeader_def move_request_def memory_storage_def mem_load_def mem_save_def
      logged_state_def some_session_def some_world_def isExpired_def setManager_def refresh_def updateSession_def find_char_def Let_def)

theorem gomoku_move_witness:
  "\<exists>resp'. handleRequest (gomoku_server some_world) move_request (HttpResponse_new False) logged_state
      = (None, resp', logged_state\<lparr>gm_heap := [some_session\<lparr>ses_expiryTime := ticks 3600\<rparr>], gm_sessions := gm_sessions logged_state,
           aiGames := (aiGames logged_state)(1 := after_move 0 7 7 (AiGame_new 1))\<rparr>)
    \<and> rsp_statusCode resp' = k200Ok"
proof -
  have c: "current_game 1 logged_state = AiGame_new 1" by (simp add: current_game_def logged_state_def some_state_def)
  have v: "isValidMove (AiGame_new 1) 7 7"
    by (simp add: isValidMove_def AiGame_new_def BOARD_SIZE_def cell_def isDraw_def)
  have u: "stoi ''1'' = Inr 1" by code_simp
  have g: "games_ok logged_state" using some_world_ok(2) by (simp add: logged_state_def)
  have "gw_rand some_world = 0" by (simp add: some_world_def)
  with gomoku_move [OF some_world_ok(1) g _ _ some_getSession [of "HttpResponse_new False"], of 1 "()" 7 7] u c v show ?thesis
    by (simp add: move_request_def getValue_def some_session_def) (auto simp: some_world_def)
qed

section \<open>Logging in\<close>

lemma session_set_run:
  assumes "a < length (gm_heap s)"
  shows "\<exists>M. session_set a key val (resp, s) = (Inr (), resp, s\<lparr>gm_heap := (gm_heap s)[a := (gm_heap s ! a)
      \<lparr>ses_data := (ses_data (gm_heap s ! a))(key \<mapsto> val)\<rparr>], gm_sessions := M\<rparr>)"
  using assms
  by (intro exI [of _ "snd (setValue memory_storage a key val (gm_heap s) (gm_sessions s))"])
    (simp add: session_set_def gm_upd_def setValue_def Let_def)

text \<open>
  A refused login logs in. When an account that is online already logs in again with the right
  password, the answer is 403, but the session of the refused client has been marked as logged in
  for that account before the check, so that its next requests are served as that user's.
\<close>

theorem refused_login_logs_in:
  assumes "req_method req = kPost" "req_path req = ''/login''" "json_request req"
    and "gw_parse W (req_content req) = Inr j" "gw_string W ''username'' j = Inr username" "gw_string W ''password'' j = Inr password"
    and "gw_query W ''SELECT id FROM users WHERE username = ? AND password = ?'' [username, password] (gm_db s) = (Inr (Some uid), d)"
    and "uid \<noteq> -1" "map_of (onlineUsers s) uid = Some True"
    and "getSession memory_storage (gw_dist W) (gw_clk W) req resp (gm_heap s) (gm_sessions s) = (a, resp1, h, M)" "a < length h"
    and "gw_dump W 4 (JObj [(''success'', JBool False), (''error'', JStr already_online)]) = Inr body"
  shows "\<exists>resp' s'. handleRequest (gomoku_server W) req resp s = (None, resp', s') \<and> rsp_statusCode resp' = k403Forbidden
    \<and> getValue ''isLoggedIn'' (gm_heap s' ! a) = ''true'' \<and> getValue ''userId'' (gm_heap s' ! a) = string_of_int uid"
proof -
  let ?put = "\<lambda>k v h. h[a := (h ! a)\<lparr>ses_data := (ses_data (h ! a))(k \<mapsto> v)\<rparr>]"
  let ?h = "?put ''isLoggedIn'' ''true'' (?put ''username'' username (?put ''userId'' (string_of_int uid) h))"
  let ?s0 = "s\<lparr>gm_db := d, gm_heap := h, gm_sessions := M\<rparr>"
  obtain M1 where s1: "session_set a ''userId'' (string_of_int uid) (resp1, ?s0) = (Inr (), resp1, ?s0\<lparr>gm_heap := ?put ''userId'' (string_of_int uid) h, gm_sessions := M1\<rparr>)"
    using session_set_run [of a ?s0 "''userId''" "string_of_int uid" resp1] assms(11) by auto
  obtain M2 where s2: "session_set a ''username'' username (resp1, ?s0\<lparr>gm_heap := ?put ''userId'' (string_of_int uid) h, gm_sessions := M1\<rparr>)
      = (Inr (), resp1, ?s0\<lparr>gm_heap := ?put ''username'' username (?put ''userId'' (string_of_int uid) h), gm_sessions := M2\<rparr>)"
    using session_set_run [of a "?s0\<lparr>gm_heap := ?put ''userId'' (string_of_int uid) h, gm_sessions := M1\<rparr>"
        "''username''" username resp1] assms(11) by auto
  obtain M3 where s3: "session_set a ''isLoggedIn'' ''true'' (resp1, ?s0\<lparr>gm_heap := ?put ''username'' username (?put ''userId'' (string_of_int uid) h), gm_sessions := M2\<rparr>)
      = (Inr (), resp1, ?s0\<lparr>gm_heap := ?h, gm_sessions := M3\<rparr>)"
    using session_set_run [of a "?s0\<lparr>gm_heap := ?put ''username'' username (?put ''userId'' (string_of_int uid) h), gm_sessions := M2\<rparr>"
        "''isLoggedIn''" "''true''" resp1] assms(11) by auto
  obtain resp2 where r: "set_reply (req_version req) k403Forbidden ''Forbidden'' True ''application/json'' body
      (resp1, ?s0\<lparr>gm_heap := ?h, gm_sessions := M3\<rparr>) = (Inr (), resp2, ?s0\<lparr>gm_heap := ?h, gm_sessions := M3\<rparr>)"
      "rsp_statusCode resp2 = k403Forbidden"
    using set_reply_run by blast
  have "LoginHandler W req (resp, s) = (Inr (), resp2, ?s0\<lparr>gm_heap := ?h, gm_sessions := M3\<rparr>)"
    using assms(3-10,12) s1 s2 s3 r(1)
    by (simp add: LoginHandler_def gm_catch_def gm_bind_def gm_lift_def queryUserId_def sql_query_def gm_return_def login_user_def
        the_session_def gm_get_def dump_def)
  from gomoku_answers [OF _ route_login [OF assms(1,2)] this] r(2) assms(1,11) show ?thesis
    by (auto simp: getValue_def)
qed

definition login_request :: HttpRequest where
  "login_request = HttpRequest_new\<lparr>req_method := kPost, req_path := ''/login'',
     req_headers := [''Content-Type'' \<mapsto> ''application/json''], req_content := ''{}''\<rparr>"

theorem refused_login_logs_in_witness:
  "\<exists>a resp' s'. handleRequest (gomoku_server some_world) login_request (HttpResponse_new False) (some_state\<lparr>onlineUsers := [(1, True)]\<rparr>)
      = (None, resp', s') \<and> rsp_statusCode resp' = k403Forbidden
    \<and> getValue ''isLoggedIn'' (gm_heap s' ! a) = ''true'' \<and> getValue ''userId'' (gm_heap s' ! a) = string_of_int 1"
proof -
  let ?s = "some_state\<lparr>onlineUsers := [(1, True)]\<rparr>"
  obtain a resp1 h M where g: "getSession memory_storage (gw_dist some_world) (gw_clk some_world) login_request (HttpResponse_new False)
      (gm_heap ?s) (gm_sessions ?s) = (a, resp1, h, M)" by (metis prod_cases4)
  then have a: "a < length h"
    by (auto simp: getSession_def getSessionIdFromCookie_def getHeader_def login_request_def some_state_def Let_def split: prod.splits)
  have "\<exists>resp' s'. handleRequest (gomoku_server some_world) login_request (HttpResponse_new False) ?s
      = (None, resp', s') \<and> rsp_statusCode resp' = k403Forbidden
    \<and> getValue ''isLoggedIn'' (gm_heap s' ! a) = ''true'' \<and> getValue ''userId'' (gm_heap s' ! a) = string_of_int 1"
    by (rule refused_login_logs_in [OF _ _ _ _ _ _ _ _ _ g a])
      (simp_all add: login_request_def json_request_def getHeader_def some_world_def)
  then show ?thesis by blast
qed

lemma route_logout:
  assumes "req_method req = kPost" "req_path req = ''/user/logout''"
  shows "route (srv_router (gomoku_server W)) req resp s = routed (as_handler (LogoutHandler W) req resp s)"
  using assms by (simp add: gomoku_server_def initializeRouter_def initializeMiddleware_def GomokuServer_new_def
      Get_handler_def Get_callback_def Post_handler_def registerHandler_def registerCallback_def Router_new_def srv_addMiddleware_def
      route_def call_handler_def)

text \<open>
  A failed logout locks the account out. When a logged-in user sends a logout whose body is not the
  JSON the handler expects, the answer is 400 and the session is destroyed, but the user stays in
  the table of users online, and every later login of the account is refused.
\<close>

theorem failed_logout_locks_out:
  assumes "req_method req = kPost" "req_path req = ''/user/logout''" "json_request req"
    and "getSession memory_storage (gw_dist W) (gw_clk W) req resp (gm_heap s) (gm_sessions s) = (a, resp1, h, M)" "a < length h"
    and "stoi (getValue ''userId'' (h ! a)) = Inr uid" "gw_parse W (req_content req) = Inl e"
    and "gw_dump W 4 (status_message ''error'' (what e)) = Inr body"
  shows "\<exists>resp' s'. handleRequest (gomoku_server W) req resp s = (None, resp', s') \<and> rsp_statusCode resp' = k400BadRequest
    \<and> mgr_storage (gm_sessions s') (ses_id (h ! a)) = None \<and> onlineUsers s' = onlineUsers s"
proof -
  let ?s = "s\<lparr>gm_heap := h[a := clear (h ! a)], gm_sessions := destroySession memory_storage (ses_id (h ! a)) M\<rparr>"
  obtain resp2 where r: "set_reply (req_version req) k400BadRequest ''Bad Request'' True ''application/json'' body (resp1, ?s) = (Inr (), resp2, ?s)"
      "rsp_statusCode resp2 = k400BadRequest"
    using set_reply_run by blast
  have "LogoutHandler W req (resp, s) = (Inr (), resp2, ?s)"
    using assms(3-8) r(1)
    by (simp add: LogoutHandler_def gm_catch_def gm_bind_def the_session_def session_value_def gm_get_def gm_res_def gm_upd_def gm_lift_def
        bad_json_def dump_def clear_def)
  from gomoku_answers [OF _ route_logout [OF assms(1,2)] this] r(2) assms(1) show ?thesis
    by (auto simp: destroySession_def memory_storage_def mem_remove_def)
qed

theorem failed_logout_locks_out_witness:
  "\<exists>resp' s'. handleRequest (gomoku_server (some_world\<lparr>gw_parse := (\<lambda>_. Inl (Runtime_Error ''parse error''))\<rparr>))
      (move_request\<lparr>req_path := ''/user/logout'', req_headers := [''Cookie'' \<mapsto> ''sessionId=abc'', ''Content-Type'' \<mapsto> ''application/json'']\<rparr>)
      (HttpResponse_new False) (logged_state\<lparr>onlineUsers := [(1, True)]\<rparr>) = (None, resp', s')
    \<and> rsp_statusCode resp' = k400BadRequest \<and> mgr_storage (gm_sessions s') ''abc'' = None \<and> onlineUsers s' = [(1, True)]"
proof -
  let ?W = "some_world\<lparr>gw_parse := (\<lambda>_. Inl (Runtime_Error ''parse error''))\<rparr>"
  let ?req = "move_request\<lparr>req_path := ''/user/logout'', req_headers := [''Cookie'' \<mapsto> ''sessionId=abc'', ''Content-Type'' \<mapsto> ''application/json'']\<rparr>"
  let ?s = "logged_state\<lparr>onlineUsers := [(1, True)]\<rparr>"
  have u: "stoi ''1'' = Inr 1" by code_simp
  have "getSession memory_storage (gw_dist ?W) (gw_clk ?W) ?req resp (gm_heap ?s) (gm_sessions ?s)
     = getSession memory_storage (gw_dist some_world) (gw_clk some_world) move_request resp (gm_heap logged_state) (gm_sessions logged_state)" for resp
    by (simp add: getSession_def getSessionIdFromCookie_def getHeader_def move_request_def)
  then have g: "getSession memory_storage (gw_dist ?W) (gw_clk ?W) ?req (HttpResponse_new False) (gm_heap ?s) (gm_sessions ?s)
     = (0, HttpResponse_new False, [some_session\<lparr>ses_expiryTime := ticks 3600\<rparr>], gm_sessions logged_state)"
    by (simp add: some_getSession)
  have "\<exists>resp' s'. handleRequest (gomoku_server ?W) ?req (HttpResponse_new False) ?s = (None, resp', s') \<and> rsp_statusCode resp' = k400BadRequest
    \<and> mgr_storage (gm_sessions s') (ses_id ([some_session\<lparr>ses_expiryTime := ticks 3600\<rparr>] ! 0)) = None \<and> onlineUsers s' = onlineUsers ?s"
    by (rule failed_logout_locks_out [OF _ _ _ g, where uid = 1 and e = "Runtime_Error ''parse error''" and body = "''{}''"])
      (simp_all add: move_request_def json_request_def getHeader_def some_world_def some_session_def getValue_def u)
  then show ?thesis by (simp add: some_session_def)
qed

end
