(* ===== verification/Http_Serving.thy ===== *)
theory Http_Serving
  imports Http_Server
begin

text \<open>
  A started \<open>HttpServer\<close> with all its connections: \<open>muduo\<close> reports that a connection is up, that bytes have
  arrived on it, or that it is down, and calls the callbacks that \<open>HttpServer::initialize\<close> gave it. Every callback
  runs as one step; the sequence of the events, over any number of connections, is an argument. The lemmas
  show that the connections of a server whose handlers share no state do not influence each other, and that
  what every handler keeps of the application's state is kept by any traffic.
\<close>

section \<open>Events\<close>

datatype tcp_event = Conn_Up nat | Conn_Message nat Timestamp string | Conn_Down nat

primrec event_conn :: "tcp_event \<Rightarrow> nat" where
  "event_conn (Conn_Up c) = c"
| "event_conn (Conn_Message c t bytes) = c"
| "event_conn (Conn_Down c) = c"

text \<open>A connection of \<open>muduo\<close>: its input buffer and what the server keeps for it.\<close>

record ('b, 'o) TcpConnection =
  tc_input :: 'b
  tc_conn :: "'o Connection"

type_synonym ('b, 'o, 's) conn_result = "(thrown option \<times> ('b, 'o) TcpConnection option \<times> 's) option"

definition TcpConnection_new :: "'b buffer_ops \<Rightarrow> ('b, 'o) TcpConnection" where
  "TcpConnection_new B = \<lparr>tc_input = op_new B, tc_conn = \<lparr>cn_context = HttpContext_new, cn_acts = [], cn_ssl = None\<rparr>\<rparr>"

text \<open>
  The connection callback. Without one set, \<open>muduo\<close> only writes a line to its log.
\<close>

definition connection_callback ::
  "'o ssl_api \<Rightarrow> 's HttpServer \<Rightarrow> bool \<Rightarrow> ('b, 'o) TcpConnection \<Rightarrow> 's \<Rightarrow> ('b, 'o, 's) conn_result" where
  "connection_callback A srv connected tc s =
     (if tcp_connectionCallback (srv_tcp srv)
      then (case onConnection A srv connected (tc_conn tc) of (e, conn) \<Rightarrow> Some (e, Some (tc\<lparr>tc_conn := conn\<rparr>), s))
      else Some (None, Some tc, s))"

text \<open>
  The message callback: that of the \<open>SslConnection\<close> once there is one, since its constructor puts itself in the place
  of \<open>onMessage\<close>; without one set, \<open>muduo\<close> drops the bytes. The number bounds the depth of calls.
\<close>

definition message_callback ::
  "nat \<Rightarrow> 'o ssl_api \<Rightarrow> 'b buffer_ops \<Rightarrow> 's HttpServer \<Rightarrow> Timestamp \<Rightarrow> ('b, 'o) TcpConnection \<Rightarrow> 's \<Rightarrow> ('b, 'o, 's) conn_result" where
  "message_callback n A B srv t tc s =
     (if cn_ssl (tc_conn tc) \<noteq> None
      then map_option (\<lambda>(e, buf, conn, s'). (e, Some \<lparr>tc_input = buf, tc_conn = conn\<rparr>, s'))
             (tls_message n A B srv t (tc_input tc) (tc_conn tc) s)
      else if tcp_messageCallback (srv_tcp srv)
      then map_option (\<lambda>(e, buf, conn, s'). (e, Some \<lparr>tc_input = buf, tc_conn = conn\<rparr>, s'))
             (onMessage n A B srv t (tc_input tc) (tc_conn tc) s)
      else Some (None, Some (tc\<lparr>tc_input := op_retrieve B (length (op_peek B (tc_input tc))) (tc_input tc)\<rparr>), s))"

text \<open>An event as it concerns its own connection; one that is not there gets no event but the first.\<close>

fun conn_event ::
  "nat \<Rightarrow> 'o ssl_api \<Rightarrow> 'b buffer_ops \<Rightarrow> 's HttpServer \<Rightarrow> tcp_event \<Rightarrow> ('b, 'o) TcpConnection option \<Rightarrow> 's \<Rightarrow> ('b, 'o, 's) conn_result" where
  "conn_event n A B srv (Conn_Up c) tc s = connection_callback A srv True (TcpConnection_new B) s"
| "conn_event n A B srv (Conn_Message c t bytes) None s = Some (None, None, s)"
| "conn_event n A B srv (Conn_Message c t bytes) (Some tc) s =
     message_callback n A B srv t (tc\<lparr>tc_input := op_append B bytes (tc_input tc)\<rparr>) s"
| "conn_event n A B srv (Conn_Down c) None s = Some (None, None, s)"
| "conn_event n A B srv (Conn_Down c) (Some tc) s = connection_callback A srv False tc s"

type_synonym ('b, 'o) conn_table = "nat \<Rightarrow> ('b, 'o) TcpConnection option"

text \<open>The run of the loop; what leaves a callback ends it. Before \<open>start\<close> nothing happens.\<close>

fun serve ::
  "nat \<Rightarrow> 'o ssl_api \<Rightarrow> 'b buffer_ops \<Rightarrow> 's HttpServer \<Rightarrow> tcp_event list \<Rightarrow> ('b, 'o) conn_table \<Rightarrow> 's
   \<Rightarrow> (thrown option \<times> ('b, 'o) conn_table \<times> 's) option" where
  "serve n A B srv [] conns s = Some (None, conns, s)"
| "serve n A B srv (ev # evs) conns s =
     (if \<not> tcp_started (srv_tcp srv) then Some (None, conns, s)
      else case conn_event n A B srv ev (conns (event_conn ev)) s of
        None \<Rightarrow> None
      | Some (Some e, tc, s') \<Rightarrow> Some (Some e, conns(event_conn ev := tc), s')
      | Some (None, tc, s') \<Rightarrow> serve n A B srv evs (conns(event_conn ev := tc)) s')"

section \<open>Connections do not influence each other\<close>

text \<open>
  With handlers that have no state to share, a run shows on each connection what the events of that connection alone
  would show.
\<close>

lemma serve_project:
  fixes srv :: "unit HttpServer"
  assumes "serve n A B srv evs conns () = Some (None, conns', ())" "conns c = conns2 c"
  shows "\<exists>conns2'. serve n A B srv (filter (\<lambda>ev. event_conn ev = c) evs) conns2 () = Some (None, conns2', ()) \<and> conns2' c = conns' c"
  using assms
proof (induction evs arbitrary: conns conns2)
  case (Cons ev evs)
  show ?case
  proof (cases "tcp_started (srv_tcp srv)")
    case False
    then show ?thesis using Cons.prems by (cases "filter (\<lambda>ev. event_conn ev = c) (ev # evs)") auto
  next
    case True
    then obtain tc where ev: "conn_event n A B srv ev (conns (event_conn ev)) () = Some (None, tc, ())"
        "serve n A B srv evs (conns(event_conn ev := tc)) () = Some (None, conns', ())"
      using Cons.prems(1) by (auto split: option.splits)
    show ?thesis
    proof (cases "event_conn ev = c")
      case same: True
      then have "(conns(event_conn ev := tc)) c = (conns2(c := tc)) c" by simp
      from Cons.IH [of "conns(event_conn ev := tc)" "conns2(c := tc)", OF ev(2) this] show ?thesis
        using ev(1) Cons.prems(2) True same by (simp add: fun_upd_def)
    next
      case other: False
      then show ?thesis using Cons.IH [OF ev(2), of conns2] Cons.prems(2) by simp
    qed
  qed
qed auto

section \<open>What the handlers keep, any traffic keeps\<close>

definition callback_keeps :: "('s \<Rightarrow> bool) \<Rightarrow> 's HttpServer \<Rightarrow> bool" where
  "callback_keeps P srv \<longleftrightarrow> (\<forall>req resp s. P s \<longrightarrow> P (snd (snd (httpCallback srv req resp s))))"

lemma onRequest_keeps:
  assumes "callback_keeps P srv" "P s" "onRequest B srv req acts s = (e, acts', s')"
  shows "P s'"
proof -
  obtain e' resp' s2 where c: "httpCallback srv req (HttpResponse_new (wants_close req)) s = (e', resp', s2)" by (metis prod_cases3)
  then have "P s2" using assms(1,2) unfolding callback_keeps_def by (metis snd_conv)
  then show ?thesis using assms(3) c by (cases e') (auto simp: onRequest_def Let_def)
qed

lemma message_http_keeps:
  assumes "callback_keeps P srv" "P s" "message_http B srv t buf conn s = Some (e, buf', conn', s')"
  shows "P s'"
  using assms(2,3) onRequest_keeps [OF assms(1,2), of B]
  by (auto simp: message_http_def Let_def split: option.splits sum.splits prod.splits if_splits)

lemma finish_state: "finish r = Some (e, buf, conn, s) \<Longrightarrow> \<exists>e' conn'. r = Some (e', buf, conn', s)"
  by (cases r) (auto simp: finish_def split: prod.splits)

text \<open>Reading through TLS calls back into \<open>onMessage\<close>; the invariant is carried through the callback.\<close>

lemma onRead_keeps:
  assumes "onRead A cb bytes sc acts x = Some (e, rest, sc', acts', x')" "P x"
    and "\<And>data sc acts x e sc' acts' x'. cb data sc acts x = Some (e, sc', acts', x') \<Longrightarrow> P x \<Longrightarrow> P x'"
  shows "P x'"
  using assms(1,2) assms(3) [of _ _ acts x]
  by (auto simp: onRead_def Let_def split: option.splits SSLState.splits prod.splits if_splits)

lemma ssl_callback_keeps:
  assumes "ssl_callback B message data sc acts x = Some (e, sc', acts', x')" "P (snd x)"
    and "\<And>buf conn s e buf' conn' s'. message buf conn s = Some (e, buf', conn', s') \<Longrightarrow> P s \<Longrightarrow> P s'"
  shows "P (snd x')"
  using assms by (auto simp: ssl_callback_def split: option.splits prod.splits)

lemma onMessage_keeps:
  assumes "callback_keeps P srv"
  shows "onMessage n A B srv t buf conn s = Some (e, buf', conn', s') \<Longrightarrow> P s \<Longrightarrow> P s'"
proof (induction n arbitrary: buf conn s e buf' conn' s')
  case 0
  then show ?case by (simp add: onMessage.simps)
next
  case (Suc n)
  show ?case
  proof (cases "if srv_useSSL srv then cn_ssl conn else None")
    case None
    then show ?thesis
      using Suc.prems finish_state [of "message_http B srv t buf conn s"] message_http_keeps [OF assms Suc.prems(2)]
      by (fastforce simp: onMessage.simps)
  next
    case (Some sc)
    let ?cb = "ssl_callback B (onMessage n A B srv t)"
    obtain e1 rest sc' acts' c1 s1 where r: "onRead A ?cb (op_peek B buf) sc (cn_acts conn) (cn_context conn, s)
        = Some (e1, rest, sc', acts', (c1, s1))"
      using Suc.prems Some by (auto simp: onMessage.simps finish_def split: option.splits)
    have "P (snd (c1, s1))"
      by (rule onRead_keeps [OF r, of "\<lambda>x. P (snd x)"], simp add: Suc.prems(2))
         (rule ssl_callback_keeps, assumption, assumption, rule Suc.IH)
    then have s1: "P s1" by simp
    from Suc.prems(1) show ?thesis
      using Some r s1 message_http_keeps [OF assms s1]
      by (auto simp: onMessage.simps Let_def dest!: finish_state split: if_splits)
  qed
qed

lemma tls_message_keeps:
  assumes "callback_keeps P srv" "tls_message n A B srv t buf conn s = Some (e, buf', conn', s')" "P s"
  shows "P s'"
proof (cases "cn_ssl conn")
  case None
  then show ?thesis using assms(2,3) by (simp add: tls_message_def)
next
  case (Some sc)
  then obtain e1 rest sc' acts' c1 where r: "onRead A (ssl_callback B (onMessage n A B srv t)) (op_peek B buf) sc
      (cn_acts conn) (cn_context conn, s) = Some (e1, rest, sc', acts', (c1, s'))"
    using assms(2) by (auto simp: tls_message_def split: option.splits)
  have "P (snd (c1, s'))"
    by (rule onRead_keeps [OF r, of "\<lambda>x. P (snd x)"], simp add: assms(3))
       (rule ssl_callback_keeps, assumption, assumption, rule onMessage_keeps [OF assms(1)])
  then show ?thesis by simp
qed

lemma conn_event_keeps:
  assumes "callback_keeps P srv" "conn_event n A B srv ev tc s = Some (e, tc', s')" "P s"
  shows "P s'"
proof (cases "(n, A, B, srv, ev, tc, s)" rule: conn_event.cases)
  case (3 n A B srv c t bytes tc s)
  then show ?thesis
    using assms onMessage_keeps [OF assms(1), of n A B t] tls_message_keeps [OF assms(1), of n A B t]
    by (auto simp: message_callback_def split: if_splits)
qed (use assms(2,3) in \<open>auto simp: connection_callback_def split: if_splits prod.splits\<close>)

lemma serve_keeps:
  assumes "callback_keeps P srv"
  shows "serve n A B srv evs conns s = Some (e, conns', s') \<Longrightarrow> P s \<Longrightarrow> P s'"
proof (induction evs arbitrary: conns s)
  case (Cons ev evs)
  show ?case
  proof (cases "tcp_started (srv_tcp srv)")
    case True
    then obtain e1 tc s1 where ev: "conn_event n A B srv ev (conns (event_conn ev)) s = Some (e1, tc, s1)"
      using Cons.prems(1) by (auto split: option.splits)
    have "P s1" using conn_event_keeps [OF assms ev Cons.prems(2)] .
    then show ?thesis using Cons.prems(1) Cons.IH ev True by (cases e1) auto
  qed (use Cons.prems in simp)
qed simp

section \<open>Every event is handled\<close>

text \<open>
  When the request callback always returns (and keeps \<open>P\<close>), a server without TLS never gets stuck: every connection stays one
  that can take further bytes, and the loop is only left by the assertion on the request line.
\<close>

definition callback_returns :: "('s \<Rightarrow> bool) \<Rightarrow> 's HttpServer \<Rightarrow> bool" where
  "callback_returns P srv \<longleftrightarrow> (\<forall>req resp s. P s \<longrightarrow> (\<exists>resp' s'. httpCallback srv req resp s = (None, resp', s') \<and> P s'))"

definition conn_ready :: "('b \<Rightarrow> bool) \<Rightarrow> ('b, 'o) TcpConnection \<Rightarrow> bool" where
  "conn_ready ok tc \<longleftrightarrow> ok (tc_input tc) \<and> \<not> gotAll (cn_context (tc_conn tc)) \<and> cn_ssl (tc_conn tc) = None"

definition plain_running :: "'s HttpServer \<Rightarrow> bool" where
  "plain_running srv \<longleftrightarrow> \<not> srv_useSSL srv \<and> tcp_connectionCallback (srv_tcp srv) \<and> tcp_messageCallback (srv_tcp srv)
     \<and> tcp_started (srv_tcp srv)"

lemma not_gotAll_reset [simp]: "\<not> gotAll (reset c)" "\<not> gotAll HttpContext_new"
  by (simp_all add: gotAll_def reset_def HttpContext_new_def Let_def)

lemma onRequest_returns:
  assumes "callback_returns P srv" "P s"
  shows "\<exists>acts' s'. onRequest B srv req acts s = (None, acts', s') \<and> P s'"
proof -
  obtain resp' s' where "httpCallback srv req (HttpResponse_new (wants_close req)) s = (None, resp', s')" "P s'"
    using assms unfolding callback_returns_def by blast
  then show ?thesis by (simp add: onRequest_def Let_def)
qed

lemma onMessage_returns:
  assumes "net_buffer B ok" "callback_returns P srv" "P s" "\<not> srv_useSSL srv"
    and "ok buf" "\<not> gotAll (cn_context conn)" "cn_ssl conn = None"
  shows "\<exists>e buf' conn' s'. onMessage (Suc n) A B srv t buf conn s = Some (e, buf', conn', s') \<and> P s'
    \<and> (e = Some (Crash Assertion_Failure) \<or> e = None \<and> conn_ready ok \<lparr>tc_input = buf', tc_conn = conn'\<rparr>)"
proof -
  have "ctx_state (cn_context conn) \<noteq> kGotAll" using assms(6) by (simp add: gotAll_def)
  then obtain x c b where p: "parseRequest B t (cn_context conn) buf = Some (x, c, b)" "ok b"
    using net_buffer.parseRequest_returns [OF assms(1,5), of "cn_context conn" t] by blast
  show ?thesis
  proof (cases x)
    case (Inl f)
    then have "\<not> gotAll c" "parse_fault f" using parseRequest_fault [OF p(1)] by auto
    then show ?thesis
      using p Inl assms(3,7) unfolding onMessage_plain [OF assms(4)] parse_fault_def
      by (auto simp: message_http_def conn_ready_def)
  next
    case (Inr parsed)
    show ?thesis
    proof (cases "gotAll c")
      case True
      obtain acts' s' where "onRequest B srv (ctx_request c) (cn_acts conn @ (if parsed then [] else bad_request)) s = (None, acts', s')" "P s'"
        using onRequest_returns [OF assms(2,3)] by blast
      then show ?thesis
        using p Inr True assms(7) unfolding onMessage_plain [OF assms(4)]
        by (simp add: message_http_def conn_ready_def Let_def)
    next
      case False
      then show ?thesis
        using p Inr assms(3,7) unfolding onMessage_plain [OF assms(4)]
        by (simp add: message_http_def conn_ready_def Let_def)
    qed
  qed
qed

lemma conn_event_returns:
  assumes "net_buffer B ok" "callback_returns P srv" "P s" "plain_running srv" "\<forall>tc0. tc = Some tc0 \<longrightarrow> conn_ready ok tc0"
  shows "\<exists>e tc' s'. conn_event (Suc n) A B srv ev tc s = Some (e, tc', s') \<and> P s'
    \<and> (e = Some (Crash Assertion_Failure) \<or> e = None \<and> (\<forall>tc0. tc' = Some tc0 \<longrightarrow> conn_ready ok tc0))"
proof (cases ev)
  case (Conn_Up c)
  then show ?thesis
    using assms(3,4) net_buffer.new(1) [OF assms(1)]
    by (simp add: connection_callback_def onConnection_def plain_running_def conn_ready_def TcpConnection_new_def)
next
  case (Conn_Message c t bytes)
  show ?thesis
  proof (cases tc)
    case None
    then show ?thesis using Conn_Message assms(3) by simp
  next
    case (Some tc0)
    then have "ok (op_append B bytes (tc_input tc0))" "\<not> gotAll (cn_context (tc_conn tc0))" "cn_ssl (tc_conn tc0) = None"
      using assms(5) net_buffer.ok_append [OF assms(1)] by (auto simp: conn_ready_def)
    from onMessage_returns [OF assms(1-3) _ this, of n A t] show ?thesis
      using assms(4) Some Conn_Message \<open>cn_ssl (tc_conn tc0) = None\<close> by (auto simp: plain_running_def message_callback_def)
  qed
next
  case (Conn_Down c)
  then show ?thesis
    using assms(3-5) by (cases tc) (auto simp: connection_callback_def onConnection_def plain_running_def conn_ready_def)
qed

lemma serve_returns:
  assumes "net_buffer B ok" "callback_returns P srv" "plain_running srv"
  shows "P s \<Longrightarrow> \<forall>c tc. conns c = Some tc \<longrightarrow> conn_ready ok tc \<Longrightarrow>
    \<exists>e conns' s'. serve (Suc n) A B srv evs conns s = Some (e, conns', s') \<and> P s' \<and> (e = None \<or> e = Some (Crash Assertion_Failure))"
proof (induction evs arbitrary: conns s)
  case (Cons ev evs)
  let ?c = "event_conn ev"
  obtain e tc' s' where ev: "conn_event (Suc n) A B srv ev (conns ?c) s = Some (e, tc', s')" "P s'"
      "e = Some (Crash Assertion_Failure) \<or> e = None \<and> (\<forall>tc0. tc' = Some tc0 \<longrightarrow> conn_ready ok tc0)"
    using conn_event_returns [OF assms(1,2) Cons.prems(1) assms(3), of "conns ?c" n A ev] Cons.prems(2) by blast
  show ?case
  proof (cases e)
    case None
    then have "\<forall>c tc. (conns(?c := tc')) c = Some tc \<longrightarrow> conn_ready ok tc" using ev(3) Cons.prems(2) by auto
    from Cons.IH [of s' "conns(?c := tc')", OF ev(2) this] show ?thesis
      using None ev(1) assms(3) by (simp add: plain_running_def fun_upd_def)
  next
    case (Some x)
    then show ?thesis using ev assms(3) by (simp add: plain_running_def)
  qed
qed simp

section \<open>A connection by itself\<close>

lemma onMessage_plain_ssl:
  assumes "\<not> srv_useSSL srv" "onMessage (Suc n) A B srv t buf conn s = Some (e, buf', conn', s')"
  shows "cn_ssl conn' = cn_ssl conn"
proof -
  obtain e1 conn1 where m: "message_http B srv t buf conn s = Some (e1, buf', conn1, s')" "(e, conn') = catch_std e1 conn1"
    using assms(2) unfolding onMessage_plain [OF assms(1)] finish_def by (auto simp: case_prod_beta prod_eq_iff)
  have "cn_ssl conn1 = cn_ssl conn"
    using m(1) by (auto simp: message_http_def Let_def split: option.splits sum.splits prod.splits if_splits)
  then show ?thesis using m(2) by (cases "(e1, conn1)" rule: catch_std.cases) auto
qed

section \<open>Starting\<close>

text \<open>Starting the server does not change how it answers.\<close>

lemma HttpServer_start_fields [simp]:
  "srv_router (HttpServer_start srv) = srv_router srv"
  "srv_chain (HttpServer_start srv) = srv_chain srv"
  "srv_httpCallback (HttpServer_start srv) = srv_httpCallback srv"
  "srv_useSSL (HttpServer_start srv) = srv_useSSL srv"
  by (simp_all add: HttpServer_start_def)

lemma httpCallback_start: "httpCallback (HttpServer_start srv) = httpCallback srv"
proof -
  have "handleRequest (HttpServer_start srv) req resp s = handleRequest srv req resp s" for req resp s
    unfolding handleRequest_def HttpServer_start_fields ..
  then have "handleRequest (HttpServer_start srv) = handleRequest srv" by blast
  then show ?thesis by (simp add: httpCallback_def split: option.split)
qed

end
