(* ===== verification/Async_Log.thy ===== *)
theory Async_Log
  imports Prelude
begin

text \<open>
  The core of the asynchronous logging system: \<open>mylog::Buffer\<close> (\<open>logs_code/AsyncBuffer.hpp\<close>) and
  \<open>mylog::AsyncWorker\<close> (\<open>logs_code/AsyncWorker.hpp\<close>), two buffers that a worker thread swaps and
  drains while producers push. The worker and the producers are a step relation: a producer's
  \<open>Push\<close> is one step because it runs under the mutex, and the worker's loop is cut where it takes
  and leaves the mutex. The lemmas show that no byte is lost, repeated or reordered, that the
  worker drains and ends after \<open>Stop\<close>, and where a push writes outside its buffer.
\<close>

section \<open>The buffer\<close>

record JsonData =
  conf_buffer_size :: nat
  conf_threshold :: nat
  conf_linear_growth :: nat
  conf_flush_log :: nat
  conf_backup_addr :: string
  conf_backup_port :: nat
  conf_thread_count :: nat

record log_buffer =
  lb_vec :: string
  lb_write :: nat
  lb_read :: nat

definition log_buffer_new :: "JsonData \<Rightarrow> log_buffer" where
  "log_buffer_new conf = \<lparr>lb_vec = replicate (conf_buffer_size conf) (CHR 0x00), lb_write = 0, lb_read = 0\<rparr>"

definition lb_IsEmpty :: "log_buffer \<Rightarrow> bool" where
  "lb_IsEmpty b \<longleftrightarrow> lb_write b = lb_read b"

definition WriteableSize :: "log_buffer \<Rightarrow> nat" where
  "WriteableSize b = size_sub (length (lb_vec b)) (lb_write b)"

definition ReadableSize :: "log_buffer \<Rightarrow> nat" where
  "ReadableSize b = size_sub (lb_write b) (lb_read b)"

text \<open>
  \<open>int buffersize = buffer_.size()\<close> narrows to 32 bits; in the sum with a \<open>size_t\<close> it is
  converted back, a negative value to the top of the range.
\<close>

definition narrowed :: "nat \<Rightarrow> nat" where
  "narrowed n = (if n mod 2 ^ 32 < 2 ^ 31 then n mod 2 ^ 32 else 2 ^ 64 - 2 ^ 32 + n mod 2 ^ 32)"

definition log_resize :: "nat \<Rightarrow> string \<Rightarrow> string" where
  "log_resize n v = take n v @ replicate (n - length v) (CHR 0x00)"

definition ToBeEnough :: "JsonData \<Rightarrow> nat \<Rightarrow> log_buffer \<Rightarrow> log_buffer" where
  "ToBeEnough conf len b =
     (let buffersize = narrowed (length (lb_vec b)) in
      if len \<ge> WriteableSize b
      then (if length (lb_vec b) < conf_threshold conf
            then b\<lparr>lb_vec := log_resize ((2 * length (lb_vec b) + buffersize) mod 2 ^ 64) (lb_vec b)\<rparr>
            else b\<lparr>lb_vec := log_resize ((conf_linear_growth conf + buffersize) mod 2 ^ 64) (lb_vec b)\<rparr>)
      else b)"

text \<open>Copying past the end of the vector is undefined.\<close>

definition lb_Push :: "JsonData \<Rightarrow> string \<Rightarrow> log_buffer \<Rightarrow> log_buffer res" where
  "lb_Push conf data b =
     (let b1 = ToBeEnough conf (length data) b in
      if lb_write b1 + length data \<le> length (lb_vec b1)
      then Inr (b1\<lparr>lb_vec := take (lb_write b1) (lb_vec b1) @ data @ drop (lb_write b1 + length data) (lb_vec b1),
                   lb_write := lb_write b1 + length data\<rparr>)
      else Inl Undefined_Behaviour)"

definition lb_Swap :: "log_buffer \<Rightarrow> log_buffer \<Rightarrow> log_buffer \<times> log_buffer" where
  "lb_Swap a b = (b, a)"

definition lb_Reset :: "log_buffer \<Rightarrow> log_buffer" where
  "lb_Reset b = b\<lparr>lb_write := 0, lb_read := 0\<rparr>"

definition ReadBegin :: "nat \<Rightarrow> log_buffer \<Rightarrow> nat res" where
  "ReadBegin len b = bind_res (assert_res (len \<le> ReadableSize b)) (\<lambda>_. Inr (lb_read b))"

definition MoveWritePos :: "nat \<Rightarrow> log_buffer \<Rightarrow> log_buffer res" where
  "MoveWritePos len b =
     bind_res (assert_res (len \<le> WriteableSize b)) (\<lambda>_. Inr (b\<lparr>lb_write := lb_write b + len\<rparr>))"

definition MoveReadPos :: "nat \<Rightarrow> log_buffer \<Rightarrow> log_buffer res" where
  "MoveReadPos len b =
     bind_res (assert_res (len \<le> ReadableSize b)) (\<lambda>_. Inr (b\<lparr>lb_read := lb_read b + len\<rparr>))"

text \<open>The bytes \<open>[Begin(), Begin() + ReadableSize())\<close>.\<close>

definition lb_bytes :: "log_buffer \<Rightarrow> string" where
  "lb_bytes b = take (ReadableSize b) (drop (lb_read b) (lb_vec b))"

section \<open>The worker\<close>

datatype AsyncType = ASYNC_SAFE | ASYNC_UNSAFE

text \<open>
  Where the worker is in its loop: before taking the mutex, after the swap, after the callback
  and the reset, or returned.
\<close>

datatype worker_pc = At_Lock | Swapped | Flushed | Returned

record worker =
  wk_type :: AsyncType
  wk_stop :: bool
  wk_productor :: log_buffer
  wk_consumer :: log_buffer
  wk_pc :: worker_pc
  wk_out :: string

definition AsyncWorker_new :: "JsonData \<Rightarrow> AsyncType \<Rightarrow> worker" where
  "AsyncWorker_new conf ty =
     \<lparr>wk_type = ty, wk_stop = False, wk_productor = log_buffer_new conf, wk_consumer = log_buffer_new conf,
      wk_pc = At_Lock, wk_out = []\<rparr>"

text \<open>\<open>Push\<close>, once its wait condition holds; \<open>None\<close> while it waits.\<close>

definition wk_Push :: "JsonData \<Rightarrow> string \<Rightarrow> worker \<Rightarrow> worker res option" where
  "wk_Push conf data w =
     (if wk_type w = ASYNC_SAFE \<and> \<not> length data \<le> WriteableSize (wk_productor w) then None
      else Some (bind_res (lb_Push conf data (wk_productor w)) (\<lambda>b. Inr (w\<lparr>wk_productor := b\<rparr>))))"

definition wk_Stop :: "worker \<Rightarrow> worker" where
  "wk_Stop w = w\<lparr>wk_stop := True\<rparr>"

text \<open>
  The locked part of the loop: \<open>wait\<close> is reached only when the buffer is empty and \<open>stop_\<close> is
  set, and its condition is then already true; \<open>None\<close> would be waiting.
\<close>

definition wk_swap :: "worker \<Rightarrow> worker option" where
  "wk_swap w =
     (if lb_IsEmpty (wk_productor w) \<and> wk_stop w \<and> \<not> (wk_stop w \<or> \<not> lb_IsEmpty (wk_productor w))
      then None
      else (case lb_Swap (wk_productor w) (wk_consumer w) of
              (p, c) \<Rightarrow> Some (w\<lparr>wk_productor := p, wk_consumer := c, wk_pc := Swapped\<rparr>)))"

definition wk_callback :: "worker \<Rightarrow> worker" where
  "wk_callback w =
     w\<lparr>wk_out := wk_out w @ lb_bytes (wk_consumer w), wk_consumer := lb_Reset (wk_consumer w), wk_pc := Flushed\<rparr>"

definition wk_check :: "worker \<Rightarrow> worker" where
  "wk_check w =
     (if wk_stop w \<and> lb_IsEmpty (wk_productor w) then w\<lparr>wk_pc := Returned\<rparr> else w\<lparr>wk_pc := At_Lock\<rparr>)"

text \<open>One step of the thread, \<open>None\<close> when it waits or has returned.\<close>

definition ThreadEntry :: "worker \<Rightarrow> worker option" where
  "ThreadEntry w =
     (case wk_pc w of
        At_Lock \<Rightarrow> wk_swap w
      | Swapped \<Rightarrow> Some (wk_callback w)
      | Flushed \<Rightarrow> Some (wk_check w)
      | Returned \<Rightarrow> None)"

text \<open>
  The runs: any interleaving of pushes, \<open>Stop\<close> and steps of the thread, with the bytes that
  were pushed so far.
\<close>

inductive log_step :: "JsonData \<Rightarrow> string \<times> worker \<Rightarrow> string \<times> worker \<Rightarrow> bool" for conf where
  push: "wk_Push conf data w = Some (Inr w') \<Longrightarrow> log_step conf (sent, w) (sent @ data, w')"
| stop: "log_step conf (sent, w) (sent, wk_Stop w)"
| thread: "ThreadEntry w = Some w' \<Longrightarrow> log_step conf (sent, w) (sent, w')"

inductive log_reachable :: "JsonData \<Rightarrow> AsyncType \<Rightarrow> string \<times> worker \<Rightarrow> bool" for conf ty where
  init: "log_reachable conf ty ([], AsyncWorker_new conf ty)"
| step: "log_reachable conf ty s \<Longrightarrow> log_step conf s s' \<Longrightarrow> log_reachable conf ty s'"

inductive_cases log_stepE: "log_step conf s s'"

section \<open>Nothing is lost\<close>

definition lb_ok :: "log_buffer \<Rightarrow> bool" where
  "lb_ok b \<longleftrightarrow> lb_read b = 0 \<and> lb_write b \<le> length (lb_vec b)"

lemma lb_ok_sizes [simp]:
  assumes "lb_ok b"
  shows "ReadableSize b = lb_write b" "WriteableSize b = length (lb_vec b) - lb_write b"
    "lb_IsEmpty b \<longleftrightarrow> lb_bytes b = []"
  using assms by (auto simp: lb_ok_def ReadableSize_def WriteableSize_def lb_bytes_def lb_IsEmpty_def)

lemma lb_ok_bytes: "lb_ok b \<Longrightarrow> lb_bytes b = take (lb_write b) (lb_vec b)"
  by (simp add: lb_ok_def lb_bytes_def ReadableSize_def)

lemma length_lb_bytes: "lb_ok b \<Longrightarrow> length (lb_bytes b) = lb_write b"
  by (simp add: lb_ok_bytes lb_ok_def)

lemma log_buffer_new_ok [simp]: "lb_ok (log_buffer_new conf)" "lb_bytes (log_buffer_new conf) = []"
  by (simp_all add: lb_ok_def log_buffer_new_def lb_bytes_def ReadableSize_def)

lemma lb_Reset_ok [simp]: "lb_ok (lb_Reset b)" "lb_bytes (lb_Reset b) = []"
  by (simp_all add: lb_ok_def lb_Reset_def lb_bytes_def ReadableSize_def)

lemma log_resize_take: "m \<le> length v \<Longrightarrow> m \<le> n \<Longrightarrow> take m (log_resize n v) = take m v"
  by (simp add: log_resize_def min_def)

lemma ToBeEnough_vec: "\<exists>n. ToBeEnough conf len b = b\<lparr>lb_vec := log_resize n (lb_vec b)\<rparr>"
proof -
  have "b = b\<lparr>lb_vec := log_resize (length (lb_vec b)) (lb_vec b)\<rparr>" by (simp add: log_resize_def)
  then show ?thesis by (auto simp: ToBeEnough_def Let_def)
qed

lemma lb_Push_ok:
  assumes "lb_ok b" "lb_Push conf data b = Inr b'"
  shows "lb_ok b' \<and> lb_bytes b' = lb_bytes b @ data"
proof -
  obtain n where n: "ToBeEnough conf (length data) b = b\<lparr>lb_vec := log_resize n (lb_vec b)\<rparr>"
    using ToBeEnough_vec by blast
  let ?v = "log_resize n (lb_vec b)"
  have fits: "lb_write b + length data \<le> length ?v"
    using assms(2) n by (simp add: lb_Push_def Let_def split: if_splits)
  then have b': "b' = b\<lparr>lb_vec := take (lb_write b) ?v @ data @ drop (lb_write b + length data) ?v,
      lb_write := lb_write b + length data\<rparr>"
    using assms(2) n by (simp add: lb_Push_def)
  have len: "length ?v = n" by (simp add: log_resize_def)
  have ok: "lb_ok b'" using assms(1) fits b' by (simp add: lb_ok_def)
  have "take (lb_write b) ?v = lb_bytes b"
    using assms(1) fits len by (simp add: log_resize_take lb_ok_def lb_ok_bytes)
  moreover have "lb_bytes b' = take (lb_write b') (lb_vec b')" by (rule lb_ok_bytes [OF ok])
  ultimately have "lb_bytes b' = lb_bytes b @ data"
    using b' length_lb_bytes [OF assms(1)] by simp
  with ok show ?thesis by simp
qed

definition log_inv :: "string \<times> worker \<Rightarrow> bool" where
  "log_inv s \<longleftrightarrow> (case s of (sent, w) \<Rightarrow>
     lb_ok (wk_productor w) \<and> lb_ok (wk_consumer w)
     \<and> (wk_pc w \<noteq> Swapped \<longrightarrow> lb_bytes (wk_consumer w) = [])
     \<and> sent = wk_out w @ lb_bytes (wk_consumer w) @ lb_bytes (wk_productor w))"

lemma log_step_inv:
  assumes "log_step conf s s'" "log_inv s"
  shows "log_inv s'"
  using assms(1)
proof cases
  case (push data w w' sent)
  then obtain b where "lb_Push conf data (wk_productor w) = Inr b" "w' = w\<lparr>wk_productor := b\<rparr>"
    by (auto simp: wk_Push_def cxx_res split: if_splits)
  then show ?thesis using assms(2) push lb_Push_ok [of "wk_productor w" conf data b] by (auto simp: log_inv_def)
next
  case (stop sent w)
  then show ?thesis using assms(2) by (simp add: log_inv_def wk_Stop_def)
next
  case (thread w w' sent)
  show ?thesis
  proof (cases "wk_pc w")
    case At_Lock
    then have "w' = w\<lparr>wk_productor := wk_consumer w, wk_consumer := wk_productor w, wk_pc := Swapped\<rparr>"
      using thread by (auto simp: ThreadEntry_def wk_swap_def lb_Swap_def split: if_splits)
    then show ?thesis using assms(2) thread At_Lock by (simp add: log_inv_def)
  next
    case Swapped
    then show ?thesis using assms(2) thread by (auto simp: ThreadEntry_def wk_callback_def log_inv_def)
  next
    case Flushed
    then show ?thesis using assms(2) thread by (auto simp: ThreadEntry_def wk_check_def log_inv_def)
  qed (use thread in \<open>simp add: ThreadEntry_def\<close>)
qed

lemma log_reachable_inv: "log_reachable conf ty s \<Longrightarrow> log_inv s"
proof (induction rule: log_reachable.induct)
  case init
  show ?case by (simp add: log_inv_def AsyncWorker_new_def)
next
  case (step s s')
  then show ?case using log_step_inv by blast
qed

text \<open>
  C9: The log keeps every byte in order. In every interleaving of producers, \<open>Stop\<close> and the worker
  thread of \<open>AsyncWorker\<close>, the bytes pushed so far are exactly those already written by the
  callback, followed by those in the buffer being written, followed by those in the buffer being
  filled: nothing is lost, repeated or reordered by the swapping of the buffers.
\<close>

theorem log_bytes_in_order:
  assumes "log_reachable conf ty (sent, w)"
  shows "sent = wk_out w @ lb_bytes (wk_consumer w) @ lb_bytes (wk_productor w)"
  using log_reachable_inv [OF assms] by (simp add: log_inv_def)

definition small_conf :: JsonData where
  "small_conf = \<lparr>conf_buffer_size = 4, conf_threshold = 2, conf_linear_growth = 3, conf_flush_log = 0,
     conf_backup_addr = ''127.0.0.1'', conf_backup_port = 8080, conf_thread_count = 1\<rparr>"

lemma small_run:
  "\<exists>w. log_reachable small_conf ASYNC_UNSAFE (''ab'' @ ''c'', w) \<and> wk_out w = ''ab''"
proof -
  let ?w0 = "AsyncWorker_new small_conf ASYNC_UNSAFE"
  have r: "wk_Push small_conf ''ab'' ?w0 = Some (Inr (?w0\<lparr>wk_productor := \<lparr>lb_vec = ''ab'' @ replicate 2 (CHR 0x00), lb_write = 2, lb_read = 0\<rparr>\<rparr>))"
    by (simp add: wk_Push_def lb_Push_def ToBeEnough_def AsyncWorker_new_def log_buffer_new_def small_conf_def
        WriteableSize_def numeral_eq_Suc)
  let ?w1 = "?w0\<lparr>wk_productor := \<lparr>lb_vec = ''ab'' @ replicate 2 (CHR 0x00), lb_write = 2, lb_read = 0\<rparr>\<rparr>"
  have r1: "log_reachable small_conf ASYNC_UNSAFE ([] @ ''ab'', ?w1)"
    by (rule log_reachable.step [OF log_reachable.init]) (rule log_step.push [OF r])
  obtain w2 where w2: "ThreadEntry ?w1 = Some w2" by (simp add: ThreadEntry_def wk_swap_def AsyncWorker_new_def lb_Swap_def)
  obtain w3 where w3: "ThreadEntry w2 = Some w3" "wk_out w3 = ''ab''" "wk_productor w3 = log_buffer_new small_conf" "wk_type w3 = ASYNC_UNSAFE"
    using w2 by (auto simp: ThreadEntry_def wk_swap_def AsyncWorker_new_def lb_Swap_def wk_callback_def lb_bytes_def ReadableSize_def)
  have r3: "log_reachable small_conf ASYNC_UNSAFE ([] @ ''ab'', w3)"
    by (rule log_reachable.step [OF log_reachable.step [OF r1 log_step.thread [OF w2]] log_step.thread [OF w3(1)]])
  obtain b where b: "lb_Push small_conf ''c'' (log_buffer_new small_conf) = Inr b"
    by (simp add: lb_Push_def ToBeEnough_def log_buffer_new_def small_conf_def WriteableSize_def)
  have "wk_Push small_conf ''c'' w3 = Some (Inr (w3\<lparr>wk_productor := b\<rparr>))"
    using b w3 by (simp add: wk_Push_def)
  from log_reachable.step [OF r3 log_step.push [OF this]] w3(2) show ?thesis
    by (intro exI [of _ "w3\<lparr>wk_productor := b\<rparr>"]) simp
qed

theorem log_bytes_in_order_witness:
  "\<exists>w :: worker. ''abc'' = wk_out w @ lb_bytes (wk_consumer w) @ lb_bytes (wk_productor w) \<and> wk_out w = ''ab''"
proof -
  obtain w where w: "log_reachable small_conf ASYNC_UNSAFE (''ab'' @ ''c'', w)" "wk_out w = ''ab''"
    using small_run by blast
  from log_bytes_in_order [OF w(1)] w(2) show ?thesis by (intro exI [of _ w]) simp
qed

section \<open>The worker ends\<close>

fun run_thread :: "nat \<Rightarrow> worker \<Rightarrow> worker" where
  "run_thread 0 w = w"
| "run_thread (Suc n) w = (case ThreadEntry w of None \<Rightarrow> w | Some w' \<Rightarrow> run_thread n w')"

lemma run_thread_returned: "wk_pc w = Returned \<Longrightarrow> run_thread n w = w"
  by (cases n) (simp_all add: ThreadEntry_def)

lemma run_round:
  assumes "wk_pc w = At_Lock" "wk_stop w" "lb_ok (wk_productor w)" "lb_ok (wk_consumer w)" "lb_bytes (wk_consumer w) = []"
  shows "run_thread (Suc (Suc (Suc n))) w = w\<lparr>wk_productor := wk_consumer w, wk_consumer := lb_Reset (wk_productor w),
      wk_out := wk_out w @ lb_bytes (wk_productor w), wk_pc := Returned\<rparr>"
  using assms
  by (simp add: ThreadEntry_def wk_swap_def lb_Swap_def wk_callback_def wk_check_def run_thread_returned)

lemma stop_drain_steps:
  assumes "log_reachable conf ty (sent, w)" "wk_stop w" "wk_pc w \<noteq> Returned"
  shows "wk_pc (run_thread 5 w) = Returned \<and> wk_out (run_thread 5 w) = sent"
proof -
  have inv: "lb_ok (wk_productor w)" "lb_ok (wk_consumer w)" "wk_pc w \<noteq> Swapped \<Longrightarrow> lb_bytes (wk_consumer w) = []"
      "sent = wk_out w @ lb_bytes (wk_consumer w) @ lb_bytes (wk_productor w)"
    using log_reachable_inv [OF assms(1)] by (auto simp: log_inv_def)
  have round: "wk_pc (run_thread (Suc (Suc (Suc n))) v) = Returned
      \<and> wk_out (run_thread (Suc (Suc (Suc n))) v) = wk_out v @ lb_bytes (wk_productor v)"
    if "wk_pc v = At_Lock" "wk_stop v" "lb_ok (wk_productor v)" "lb_ok (wk_consumer v)" "lb_bytes (wk_consumer v) = []" for v n
    using run_round [OF that] by simp
  have five: "run_thread 5 = run_thread (Suc (Suc (Suc (Suc (Suc 0)))))" by (simp add: numeral_eq_Suc)
  show ?thesis
  proof (cases "wk_pc w")
    case At_Lock
    then show ?thesis using round [of w 2] inv assms(2) by (simp add: numeral_eq_Suc)
  next
    case Flushed
    show ?thesis
    proof (cases "lb_bytes (wk_productor w) = []")
      case True
      then show ?thesis
        unfolding five using Flushed inv assms(2) by (simp add: ThreadEntry_def wk_check_def)
    next
      case False
      then show ?thesis
        unfolding five using Flushed inv assms(2) round [of "w\<lparr>wk_pc := At_Lock\<rparr>" 1]
        by (simp add: ThreadEntry_def [of w] wk_check_def numeral_eq_Suc)
    qed
  next
    case Swapped
    let ?v = "wk_callback w"
    show ?thesis
    proof (cases "lb_bytes (wk_productor w) = []")
      case True
      then show ?thesis
        unfolding five using Swapped inv assms(2) by (simp add: ThreadEntry_def wk_callback_def wk_check_def)
    next
      case False
      have "ThreadEntry w = Some ?v" "ThreadEntry ?v = Some (?v\<lparr>wk_pc := At_Lock\<rparr>)"
        using Swapped inv False by (simp_all add: ThreadEntry_def wk_callback_def wk_check_def)
      then have "run_thread 5 w = run_thread (Suc (Suc (Suc 0))) (?v\<lparr>wk_pc := At_Lock\<rparr>)"
        unfolding five by (simp only: run_thread.simps option.case)
      then show ?thesis
        using round [of "?v\<lparr>wk_pc := At_Lock\<rparr>" 0] inv assms(2) by (simp add: wk_callback_def)
    qed
  qed (use assms in simp)
qed

text \<open>
  C10: \<open>Stop\<close> drains the log. From any reachable state in which \<open>stop_\<close> is set, if no more is
  pushed, at most five steps of the worker thread (it never waits) bring it to its \<open>return\<close>, with
  everything that was ever pushed handed to the callback.
\<close>

theorem stop_drains:
  assumes "log_reachable conf ty (sent, w)" "wk_stop w" "wk_pc w \<noteq> Returned"
  shows "wk_pc (run_thread 5 w) = Returned \<and> wk_out (run_thread 5 w) = sent"
  by (rule stop_drain_steps [OF assms])

theorem stop_drains_witness:
  "wk_out (run_thread 5 (wk_Stop (AsyncWorker_new small_conf ASYNC_SAFE))) = []"
  using stop_drains [OF log_reachable.step [OF log_reachable.init log_step.stop], of small_conf ASYNC_SAFE]
  by (simp add: wk_Stop_def AsyncWorker_new_def)

section \<open>Room\<close>

definition grown_size :: "JsonData \<Rightarrow> nat \<Rightarrow> nat" where
  "grown_size conf n = (if n < conf_threshold conf then 3 * n else conf_linear_growth conf + n)"

lemma ToBeEnough_size:
  assumes "lb_ok b" "length (lb_vec b) < 2 ^ 31" "conf_linear_growth conf < 2 ^ 62"
  shows "length (lb_vec (ToBeEnough conf len b)) =
    (if len < length (lb_vec b) - lb_write b then length (lb_vec b) else grown_size conf (length (lb_vec b)))"
    and "lb_write (ToBeEnough conf len b) = lb_write b"
proof -
  have n: "narrowed (length (lb_vec b)) = length (lb_vec b)" using assms(2) by (simp add: narrowed_def)
  have small: "3 * length (lb_vec b) < 2 ^ 64" "conf_linear_growth conf + length (lb_vec b) < 2 ^ 64"
    using assms(2,3) by auto
  then show "length (lb_vec (ToBeEnough conf len b)) =
    (if len < length (lb_vec b) - lb_write b then length (lb_vec b) else grown_size conf (length (lb_vec b)))"
    using assms(1) n by (simp add: ToBeEnough_def log_resize_def grown_size_def Let_def not_less)
  show "lb_write (ToBeEnough conf len b) = lb_write b" by (simp add: ToBeEnough_def Let_def)
qed

text \<open>
  C36: The growth of a log buffer happens once, and may not be enough. For a buffer below 2 GB, a
  push is a write outside the vector exactly when the data reaches the free room and does not
  fit after one growth (to three times the size below the threshold, by the linear amount
  above); when the data is no longer than the free room, which is what the worker waits for in
  safe mode, it always fits.
\<close>

theorem log_push_bounds:
  assumes "lb_ok b" "length (lb_vec b) < 2 ^ 31" "conf_linear_growth conf < 2 ^ 62"
  shows "(lb_Push conf data b = Inl Undefined_Behaviour \<longleftrightarrow>
            WriteableSize b \<le> length data \<and> grown_size conf (length (lb_vec b)) < lb_write b + length data)
       \<and> (length data \<le> WriteableSize b \<longrightarrow> (\<exists>b'. lb_Push conf data b = Inr b'))"
proof -
  note size = ToBeEnough_size [OF assms, of "length data"]
  have ok: "lb_write b \<le> length (lb_vec b)" using assms(1) by (simp add: lb_ok_def)
  have "length (lb_vec b) \<le> grown_size conf (length (lb_vec b))" by (simp add: grown_size_def)
  then show ?thesis
    using size ok assms(1) by (auto simp: lb_Push_def Let_def)
qed

theorem log_push_bounds_witness:
  "lb_Push small_conf ''0123456789'' (log_buffer_new small_conf) = Inl Undefined_Behaviour"
  using log_push_bounds [of "log_buffer_new small_conf" small_conf "''0123456789''"]
  by (simp add: log_buffer_new_def small_conf_def grown_size_def WriteableSize_def lb_ok_def)

section \<open>Waiting\<close>

lemma run_thread_capacity:
  assumes "length (lb_vec (wk_productor w)) < n" "length (lb_vec (wk_consumer w)) < n"
  shows "length (lb_vec (wk_productor (run_thread k w))) < n \<and> wk_type (run_thread k w) = wk_type w"
  using assms
proof (induction k arbitrary: w)
  case (Suc k)
  show ?case
  proof (cases "ThreadEntry w")
    case (Some w')
    then have "length (lb_vec (wk_productor w')) < n \<and> length (lb_vec (wk_consumer w')) < n \<and> wk_type w' = wk_type w"
      using Suc.prems
      by (auto simp: ThreadEntry_def wk_swap_def lb_Swap_def wk_callback_def wk_check_def lb_Reset_def
          split: worker_pc.splits if_splits)
    then show ?thesis using Suc.IH [of w'] Some by simp
  qed (use Suc.prems in simp)
qed simp

text \<open>
  In safe mode a message longer than the buffers blocks its producer for ever: no number of
  steps of the worker thread lets the \<open>Push\<close> go on, since swapping and resetting never make a
  buffer larger.
\<close>

theorem safe_push_blocks:
  assumes "wk_type w = ASYNC_SAFE" "length (lb_vec (wk_productor w)) < length data"
    and "length (lb_vec (wk_consumer w)) < length data" "log_reachable conf ASYNC_SAFE (sent, w)"
  shows "wk_Push conf data (run_thread k w) = None"
proof -
  have "lb_ok (wk_productor w)" "lb_ok (wk_consumer w)" using log_reachable_inv [OF assms(4)] by (simp_all add: log_inv_def)
  then have "lb_ok (wk_productor (run_thread k w))"
  proof (induction k arbitrary: w)
    case (Suc k)
    show ?case
    proof (cases "ThreadEntry w")
      case (Some w')
      then have "lb_ok (wk_productor w') \<and> lb_ok (wk_consumer w')"
        using Suc.prems
        by (auto simp: ThreadEntry_def wk_swap_def lb_Swap_def wk_callback_def wk_check_def
            split: worker_pc.splits if_splits)
      then show ?thesis using Suc.IH [of w'] Some by simp
    qed (use Suc.prems in simp)
  qed simp
  moreover note run_thread_capacity [OF assms(2,3), of k]
  ultimately have "WriteableSize (wk_productor (run_thread k w)) < length data"
    by (auto simp: WriteableSize_def lb_ok_def intro: le_less_trans [OF diff_le_self])
  then show ?thesis
    using assms(1) run_thread_capacity [OF assms(2,3), of k] by (simp add: wk_Push_def)
qed

theorem safe_push_blocks_witness:
  "wk_Push small_conf ''hello'' (run_thread 9 (AsyncWorker_new small_conf ASYNC_SAFE)) = None"
  using safe_push_blocks [of "AsyncWorker_new small_conf ASYNC_SAFE" "''hello''" small_conf "[]" 9] log_reachable.init [of small_conf ASYNC_SAFE]
  by (simp add: AsyncWorker_new_def log_buffer_new_def small_conf_def)

text \<open>
  The worker never sleeps. With nothing to write and \<open>stop_\<close> not set, where the comment says
  the thread blocks, the condition before \<open>wait\<close> is false: the thread runs through its loop,
  calling the callback with an empty buffer, and is back where it was after three steps.
\<close>

theorem idle_worker_spins:
  assumes "wk_pc w = At_Lock" "\<not> wk_stop w" "lb_ok (wk_productor w)" "lb_ok (wk_consumer w)"
    and "lb_bytes (wk_productor w) = []" "lb_bytes (wk_consumer w) = []"
  shows "ThreadEntry w \<noteq> None \<and> wk_pc (run_thread 3 w) = At_Lock \<and> wk_out (run_thread 3 w) = wk_out w
    \<and> lb_bytes (wk_productor (run_thread 3 w)) = []"
  using assms by (simp add: numeral_eq_Suc ThreadEntry_def wk_swap_def lb_Swap_def wk_callback_def wk_check_def)

theorem idle_worker_spins_witness:
  "wk_pc (run_thread 3 (AsyncWorker_new small_conf ASYNC_SAFE)) = At_Lock"
  using idle_worker_spins [of "AsyncWorker_new small_conf ASYNC_SAFE"] by (simp add: AsyncWorker_new_def)

end
