(* ===== verification/Log_Sinks.thy ===== *)
theory Log_Sinks
  imports Async_Log
begin

text \<open>
  Where the log goes: the path helpers of \<open>Util::File\<close> (\<open>logs_code/Util.hpp\<close>) and the sinks of
  \<open>logs_code/LogFlush.hpp\<close>. A \<open>FILE*\<close> opened for appending is the bytes written through it, in
  the order of the three places they pass: forced to the disk, handed to the kernel, still in the
  buffer of the C library. The contract of a sink is the locale \<open>log_sink\<close>; it is interpreted on
  the standard output, on a file, on a rolling file, and on the dispatch over the three. The
  lemmas show that a sink holds exactly what was flushed to it, whatever files it is spread over.
\<close>

section \<open>Paths\<close>

definition is_sep :: "char \<Rightarrow> bool" where
  "is_sep c \<longleftrightarrow> c = CHR ''/'' \<or> c = CHR 0x5C"

text \<open>\<open>substr(0, pos + 1)\<close> at the last separator; the whole prefix is dropped when there is none.\<close>

definition Path :: "string \<Rightarrow> string" where
  "Path filename = rev (dropWhile (\<lambda>c. \<not> is_sep c) (rev filename))"

text \<open>\<open>find_first_of\<close> from an index on.\<close>

definition find_first_sep :: "string \<Rightarrow> nat \<Rightarrow> nat option" where
  "find_first_sep s index =
     (let n = length (takeWhile (\<lambda>c. \<not> is_sep c) (drop index s)) in
      if index + n < length s then Some (index + n) else None)"

lemma find_first_sep_bounds: "find_first_sep s i = Some p \<Longrightarrow> i \<le> p \<and> p < length s"
  by (auto simp: find_first_sep_def Let_def split: if_splits)

text \<open>
  The loop of \<open>CreateDirectory\<close>: the arguments of its \<open>mkdir\<close> calls, in order. \<open>exist made p\<close> is
  the answer of \<open>stat\<close> on \<open>p\<close> once the directories \<open>made\<close> were asked for.
\<close>

function (sequential) mkdir_loop :: "(string list \<Rightarrow> string \<Rightarrow> bool) \<Rightarrow> string \<Rightarrow> nat \<Rightarrow> string list \<Rightarrow> string list" where
  "mkdir_loop exist pathname index made =
     (if index < length pathname
      then (case find_first_sep pathname index of
              None \<Rightarrow> made @ [pathname]
            | Some pos \<Rightarrow>
                (let sub_path = take pos pathname in
                 if pos = index then mkdir_loop exist pathname (pos + 1) made
                 else if sub_path = ''.'' \<or> sub_path = ''..'' then mkdir_loop exist pathname (pos + 1) made
                 else if exist made sub_path then mkdir_loop exist pathname (pos + 1) made
                 else mkdir_loop exist pathname (pos + 1) (made @ [sub_path])))
      else made)"
  by pat_completeness auto
termination
  by (relation "measure (\<lambda>(_, pathname, index, _). length pathname - index)")
     (auto dest: find_first_sep_bounds)

declare mkdir_loop.simps [simp del]

definition CreateDirectory :: "(string list \<Rightarrow> string \<Rightarrow> bool) \<Rightarrow> string \<Rightarrow> string list" where
  "CreateDirectory exist pathname = (if exist [] pathname then [] else mkdir_loop exist pathname 0 [])"

text \<open>
  Every directory above the path is there in the end: each prefix that ends before a separator
  and after a name is made unless it was there, given that a directory made once stays.
\<close>

definition name_end :: "string \<Rightarrow> nat \<Rightarrow> bool" where
  "name_end s p \<longleftrightarrow> 0 < p \<and> p < length s \<and> is_sep (s ! p) \<and> \<not> is_sep (s ! (p - 1))
     \<and> take p s \<noteq> ''.'' \<and> take p s \<noteq> ''..''"

lemma find_first_sep_props:
  assumes "find_first_sep s i = r" "i \<le> length s"
  shows "case r of None \<Rightarrow> \<forall>j. i \<le> j \<and> j < length s \<longrightarrow> \<not> is_sep (s ! j)
    | Some p \<Rightarrow> i \<le> p \<and> p < length s \<and> is_sep (s ! p) \<and> (\<forall>j. i \<le> j \<and> j < p \<longrightarrow> \<not> is_sep (s ! j))"
proof -
  define n where "n = length (takeWhile (\<lambda>c. \<not> is_sep c) (drop i s))"
  have before: "\<not> is_sep (s ! j)" if "i \<le> j" "j < i + n" for j
  proof -
    have k: "j - i < n" using that by simp
    then have "takeWhile (\<lambda>c. \<not> is_sep c) (drop i s) ! (j - i) = drop i s ! (j - i)"
      unfolding n_def by (rule takeWhile_nth)
    moreover have "\<not> is_sep (takeWhile (\<lambda>c. \<not> is_sep c) (drop i s) ! (j - i))"
      using k nth_mem [of "j - i" "takeWhile (\<lambda>c. \<not> is_sep c) (drop i s)"] set_takeWhileD unfolding n_def by fastforce
    ultimately show ?thesis using that assms(2) by simp
  qed
  show ?thesis
  proof (cases "i + n < length s")
    case True
    have "is_sep (drop i s ! n)"
      using nth_length_takeWhile [of "\<lambda>c. \<not> is_sep c" "drop i s"] True unfolding n_def by simp
    then show ?thesis using assms True before by (auto simp: find_first_sep_def Let_def n_def [symmetric])
  next
    case False
    then show ?thesis using assms before by (auto simp: find_first_sep_def Let_def n_def [symmetric])
  qed
qed

text \<open>One turn passes a separator and has made what ends there.\<close>

lemma mkdir_loop_turn:
  assumes "\<And>made p q. exist made p \<Longrightarrow> exist (made @ [q]) p" "\<And>made p. exist (made @ [p]) p"
    and "index < length s" "find_first_sep s index = Some pos"
  shows "\<exists>made'. mkdir_loop exist s index made = mkdir_loop exist s (pos + 1) made' \<and> (\<forall>x. exist made x \<longrightarrow> exist made' x)
    \<and> (name_end s pos \<and> pos \<noteq> index \<longrightarrow> exist made' (take pos s))"
proof -
  let ?sub = "take pos s"
  have turn: "mkdir_loop exist s index made
      = mkdir_loop exist s (pos + 1) (if pos = index \<or> ?sub = ''.'' \<or> ?sub = ''..'' \<or> exist made ?sub then made else made @ [?sub])"
    using assms(3,4) by (simp add: mkdir_loop.simps [of exist s index] Let_def)
  show ?thesis
    by (rule exI, rule conjI [OF turn]) (use assms(1,2) in \<open>auto simp: name_end_def\<close>)
qed

lemma mkdir_loop_makes:
  assumes "\<And>made p q. exist made p \<Longrightarrow> exist (made @ [q]) p" "\<And>made p. exist (made @ [p]) p"
    and "\<And>p. p < index \<Longrightarrow> name_end s p \<Longrightarrow> exist made (take p s)"
    and "index = 0 \<or> index \<le> length s \<and> is_sep (s ! (index - 1))"
    and "name_end s p"
  shows "exist (mkdir_loop exist s index made) (take p s)"
  using assms(3,4)
proof (induction "length s - index" arbitrary: index made rule: less_induct)
  case less
  show ?case
  proof (cases "index < length s")
    case False
    then have "p < index" using assms(5) by (simp add: name_end_def)
    then show ?thesis using False less.prems(1) [OF _ assms(5)] by (simp add: mkdir_loop.simps [of exist s index])
  next
    case in_path: True
    show ?thesis
    proof (cases "find_first_sep s index")
      case None
      have "p < index" using find_first_sep_props [OF None] in_path assms(5) by (auto simp: name_end_def not_less)
      then show ?thesis using in_path None less.prems(1) [OF _ assms(5)] assms(1) by (simp add: mkdir_loop.simps [of exist s index])
    next
      case (Some pos)
      have pos: "index \<le> pos" "pos < length s" "is_sep (s ! pos)" "\<And>j. index \<le> j \<Longrightarrow> j < pos \<Longrightarrow> \<not> is_sep (s ! j)"
        using find_first_sep_props [OF Some] in_path by auto
      obtain made' where m: "mkdir_loop exist s index made = mkdir_loop exist s (pos + 1) made'" "\<forall>x. exist made x \<longrightarrow> exist made' x"
          "name_end s pos \<and> pos \<noteq> index \<longrightarrow> exist made' (take pos s)"
        using mkdir_loop_turn [of exist index s pos made, OF assms(1,2) in_path Some] by blast
      have "exist made' (take q s)" if q: "q < pos + 1" "name_end s q" for q
      proof (cases "q < index")
        case True
        then show ?thesis using less.prems(1) [OF _ q(2)] m(2) by blast
      next
        case False
        have "q = pos"
        proof (rule ccontr)
          assume "q \<noteq> pos"
          then show False using pos(4) [of q] False q by (simp add: name_end_def)
        qed
        moreover have "pos \<noteq> index" using calculation less.prems(2) q(2) by (auto simp: name_end_def)
        ultimately show ?thesis using m(3) q(2) by blast
      qed
      then show ?thesis using less.hyps [of "pos + 1" made'] pos m(1) in_path by simp
    qed
  qed
qed

section \<open>Streams\<close>

record FILE =
  f_name :: string
  f_disk :: string
  f_kernel :: string
  f_pending :: string

definition f_bytes :: "FILE \<Rightarrow> string" where
  "f_bytes f = f_disk f @ f_kernel f @ f_pending f"

definition fopen_ab :: "(string \<Rightarrow> bool) \<Rightarrow> string \<Rightarrow> FILE option" where
  "fopen_ab openable filename =
     (if openable filename then Some \<lparr>f_name = filename, f_disk = [], f_kernel = [], f_pending = []\<rparr> else None)"

text \<open>
  \<open>fwrite\<close> puts the bytes in the library's buffer; how many of the buffered bytes the library
  passes on at that moment is its own choice, the argument \<open>spill\<close>.
\<close>

definition fwrite :: "nat \<Rightarrow> string \<Rightarrow> FILE \<Rightarrow> FILE" where
  "fwrite spill data f =
     f\<lparr>f_kernel := f_kernel f @ take spill (f_pending f @ data), f_pending := drop spill (f_pending f @ data)\<rparr>"

definition fflush :: "FILE \<Rightarrow> FILE" where
  "fflush f = f\<lparr>f_kernel := f_kernel f @ f_pending f, f_pending := []\<rparr>"

definition fsync :: "FILE \<Rightarrow> FILE" where
  "fsync f = f\<lparr>f_disk := f_disk f @ f_kernel f, f_kernel := []\<rparr>"

lemma f_bytes_ops [simp]:
  "f_bytes (fwrite k data f) = f_bytes f @ data"
  "f_bytes (fflush f) = f_bytes f"
  "f_bytes (fsync f) = f_bytes f"
  by (simp_all add: f_bytes_def fwrite_def fflush_def fsync_def append_take_drop_id del: take_append drop_append)

lemma f_name_ops [simp]:
  "f_name (fwrite k data f) = f_name f"
  "f_name (fflush f) = f_name f"
  "f_name (fsync f) = f_name f"
  by (simp_all add: fwrite_def fflush_def fsync_def)

text \<open>The tail of both \<open>Flush\<close> functions: what \<open>flush_log\<close> asks for.\<close>

definition sync_log :: "nat \<Rightarrow> FILE \<Rightarrow> FILE" where
  "sync_log flush_log f =
     (if flush_log = 1 then fflush f
      else if flush_log = 2 then fsync (fflush f)
      else f)"

lemma sync_log_facts [simp]:
  "f_bytes (sync_log m f) = f_bytes f"
  "f_name (sync_log m f) = f_name f"
  "m = 1 \<or> m = 2 \<Longrightarrow> f_pending (sync_log m f) = []"
  "m = 2 \<Longrightarrow> f_kernel (sync_log m f) = []"
  by (simp_all add: sync_log_def) (auto simp: fflush_def fsync_def)

section \<open>Sinks\<close>

text \<open>
  What a flush takes from outside: the local time, which files can be opened, how much the C
  library passes on, and whether \<open>fwrite\<close> fails and after how many bytes (the code then only
  prints a message).
\<close>

record tm =
  tm_year :: int
  tm_mon :: int
  tm_mday :: int
  tm_hour :: int
  tm_min :: int
  tm_sec :: int

record flush_env =
  env_now :: tm
  env_openable :: "string \<Rightarrow> bool"
  env_spill :: nat
  env_fwrite_error :: "nat option"

definition accepted :: "flush_env \<Rightarrow> string \<Rightarrow> string" where
  "accepted env data = (case env_fwrite_error env of None \<Rightarrow> data | Some n \<Rightarrow> take n data)"

text \<open>The outside is good: every file can be opened and nothing fails to be written.\<close>

definition env_good :: "flush_env \<Rightarrow> bool" where
  "env_good env \<longleftrightarrow> (\<forall>n. env_openable env n) \<and> env_fwrite_error env = None"

lemma accepted_good [simp]: "env_good env \<Longrightarrow> accepted env data = data"
  by (simp add: env_good_def accepted_def)

definition StdoutFlush_Flush :: "string \<Rightarrow> string \<Rightarrow> string" where
  "StdoutFlush_Flush data out = out @ data"

record FileFlush =
  ff_filename :: string
  ff_fs :: "FILE option"

definition FileFlush_new :: "flush_env \<Rightarrow> string \<Rightarrow> FileFlush" where
  "FileFlush_new env filename = \<lparr>ff_filename = filename, ff_fs = fopen_ab (env_openable env) filename\<rparr>"

text \<open>Writing to a null stream is undefined: the constructor only reports that it could not open.\<close>

definition FileFlush_Flush :: "JsonData \<Rightarrow> flush_env \<Rightarrow> string \<Rightarrow> FileFlush \<Rightarrow> FileFlush res" where
  "FileFlush_Flush conf env data s =
     (case ff_fs s of
        None \<Rightarrow> Inl Undefined_Behaviour
      | Some f \<Rightarrow> Inr (s\<lparr>ff_fs := Some (sync_log (conf_flush_log conf) (fwrite (env_spill env) (accepted env data) f))\<rparr>))"

text \<open>\<open>rf_closed\<close> keeps the streams that were closed, oldest first; the code does not hold them.\<close>

record RollFileFlush =
  rf_cnt :: nat
  rf_cur_size :: nat
  rf_max_size :: nat
  rf_basename :: string
  rf_fs :: "FILE option"
  rf_closed :: "FILE list"

definition RollFileFlush_new :: "string \<Rightarrow> nat \<Rightarrow> RollFileFlush" where
  "RollFileFlush_new filename max_size =
     \<lparr>rf_cnt = 1, rf_cur_size = 0, rf_max_size = max_size, rf_basename = filename, rf_fs = None, rf_closed = []\<rparr>"

definition CreateFilename :: "tm \<Rightarrow> RollFileFlush \<Rightarrow> string \<times> RollFileFlush" where
  "CreateFilename t s =
     (rf_basename s @ string_of_int (tm_year t + 1900) @ string_of_int (tm_mon t + 1)
        @ string_of_int (tm_mday t) @ string_of_int (tm_hour t + 1) @ string_of_int (tm_min t + 1)
        @ string_of_int (tm_sec t + 1) @ ''-'' @ string_of_nat (rf_cnt s) @ ''.log'',
      s\<lparr>rf_cnt := rf_cnt s + 1\<rparr>)"

definition roll_close :: "RollFileFlush \<Rightarrow> RollFileFlush" where
  "roll_close s =
     (case rf_fs s of
        None \<Rightarrow> s
      | Some f \<Rightarrow> s\<lparr>rf_fs := None, rf_closed := rf_closed s @ [fflush f]\<rparr>)"

definition InitLogFile :: "flush_env \<Rightarrow> RollFileFlush \<Rightarrow> RollFileFlush" where
  "InitLogFile env s =
     (if rf_fs s = None \<or> rf_cur_size s \<ge> rf_max_size s
      then (case CreateFilename (env_now env) (roll_close s) of
              (filename, s2) \<Rightarrow> s2\<lparr>rf_fs := fopen_ab (env_openable env) filename, rf_cur_size := 0\<rparr>)
      else s)"

definition RollFileFlush_Flush :: "JsonData \<Rightarrow> flush_env \<Rightarrow> string \<Rightarrow> RollFileFlush \<Rightarrow> RollFileFlush res" where
  "RollFileFlush_Flush conf env data s =
     (let s1 = InitLogFile env s in
      case rf_fs s1 of
        None \<Rightarrow> Inl Undefined_Behaviour
      | Some f \<Rightarrow>
          Inr (s1\<lparr>rf_fs := Some (sync_log (conf_flush_log conf) (fwrite (env_spill env) (accepted env data) f)),
                  rf_cur_size := rf_cur_size s1 + length data\<rparr>))"

text \<open>The virtual \<open>Flush\<close> of a \<open>LogFlush::ptr\<close>.\<close>

datatype LogFlush =
    Stdout string
  | File FileFlush
  | RollFile RollFileFlush

fun LogFlush_Flush :: "JsonData \<Rightarrow> flush_env \<Rightarrow> string \<Rightarrow> LogFlush \<Rightarrow> LogFlush res" where
  "LogFlush_Flush conf env data (Stdout out) = Inr (Stdout (StdoutFlush_Flush data out))"
| "LogFlush_Flush conf env data (File s) = bind_res (FileFlush_Flush conf env data s) (\<lambda>s'. Inr (File s'))"
| "LogFlush_Flush conf env data (RollFile s) = bind_res (RollFileFlush_Flush conf env data s) (\<lambda>s'. Inr (RollFile s'))"

section \<open>The contract of a sink\<close>

text \<open>
  A sink that is ready takes any data and is ready again, and what it holds grows by exactly that
  data. \<open>good\<close> says what the outside must provide, such as that a new file can be opened.
\<close>

locale log_sink =
  fixes flush :: "'e \<Rightarrow> string \<Rightarrow> 's \<Rightarrow> 's res"
    and ready :: "'s \<Rightarrow> bool"
    and good :: "'e \<Rightarrow> bool"
    and written :: "'s \<Rightarrow> string"
  assumes flush_total: "ready s \<Longrightarrow> good e \<Longrightarrow> \<exists>s'. flush e data s = Inr s'"
    and flush_ready: "ready s \<Longrightarrow> flush e data s = Inr s' \<Longrightarrow> ready s'"
    and flush_written: "ready s \<Longrightarrow> good e \<Longrightarrow> flush e data s = Inr s' \<Longrightarrow> written s' = written s @ data"
begin

fun flush_all :: "('e \<times> string) list \<Rightarrow> 's \<Rightarrow> 's res" where
  "flush_all [] s = Inr s"
| "flush_all ((e, d) # xs) s = bind_res (flush e d s) (flush_all xs)"

lemma flush_all_written:
  assumes "ready s" "\<forall>(e, d) \<in> set xs. good e"
  shows "\<exists>s'. flush_all xs s = Inr s' \<and> ready s' \<and> written s' = written s @ concat (map snd xs)"
  using assms
proof (induction xs arbitrary: s)
  case (Cons x xs)
  obtain e d where x: "x = (e, d)" by (cases x)
  obtain s1 where s1: "flush e d s = Inr s1"
    using flush_total [of s e d] Cons.prems x by auto
  have "\<exists>s'. flush_all xs s1 = Inr s' \<and> ready s' \<and> written s' = written s1 @ concat (map snd xs)"
    using Cons.IH [of s1] Cons.prems flush_ready [OF _ s1] by simp
  with s1 flush_written [OF _ _ s1] Cons.prems x show ?case by (auto simp: x)
qed simp

end

interpretation stdout_sink: log_sink "\<lambda>_ data out. Inr (StdoutFlush_Flush data out)" "\<lambda>_. True" "\<lambda>_. True" id
  by unfold_locales (auto simp: StdoutFlush_Flush_def)

definition ff_written :: "FileFlush \<Rightarrow> string" where
  "ff_written s = (case ff_fs s of None \<Rightarrow> [] | Some f \<Rightarrow> f_bytes f)"

interpretation file_sink: log_sink "FileFlush_Flush conf" "\<lambda>s. ff_fs s \<noteq> None" env_good ff_written
  for conf
  by unfold_locales (auto simp: FileFlush_Flush_def ff_written_def split: option.splits)

definition rf_files :: "RollFileFlush \<Rightarrow> FILE list" where
  "rf_files s = rf_closed s @ (case rf_fs s of None \<Rightarrow> [] | Some f \<Rightarrow> [f])"

definition rf_written :: "RollFileFlush \<Rightarrow> string" where
  "rf_written s = concat (map f_bytes (rf_files s))"

lemma InitLogFile_written [simp]: "rf_written (InitLogFile env s) = rf_written s"
  by (auto simp: InitLogFile_def rf_written_def rf_files_def roll_close_def CreateFilename_def fopen_ab_def f_bytes_def fflush_def
      split: option.splits)

lemma InitLogFile_opens: "env_good env \<Longrightarrow> \<exists>f. rf_fs (InitLogFile env s) = Some f"
  by (auto simp: InitLogFile_def CreateFilename_def fopen_ab_def env_good_def)

lemma RollFileFlush_written:
  "env_good env \<Longrightarrow> RollFileFlush_Flush conf env data s = Inr s' \<Longrightarrow> rf_written s' = rf_written s @ data"
proof -
  assume g: "env_good env" and *: "RollFileFlush_Flush conf env data s = Inr s'"
  let ?s1 = "InitLogFile env s"
  from * obtain f where f: "rf_fs ?s1 = Some f"
      "s' = ?s1\<lparr>rf_fs := Some (sync_log (conf_flush_log conf) (fwrite (env_spill env) (accepted env data) f)),
                rf_cur_size := rf_cur_size ?s1 + length data\<rparr>"
    by (auto simp: RollFileFlush_Flush_def Let_def split: option.splits)
  then have "rf_written s' = rf_written ?s1 @ data" using g by (simp add: rf_written_def rf_files_def)
  then show ?thesis by simp
qed

interpretation roll_sink: log_sink "RollFileFlush_Flush conf" "\<lambda>_. True" env_good rf_written
  for conf
proof unfold_locales
  fix s :: RollFileFlush and e data
  assume "env_good e"
  then show "\<exists>s'. RollFileFlush_Flush conf e data s = Inr s'"
    using InitLogFile_opens [of e s] by (auto simp: RollFileFlush_Flush_def Let_def)
qed (auto intro: RollFileFlush_written)

fun lf_ready :: "LogFlush \<Rightarrow> bool" where
  "lf_ready (Stdout out) = True"
| "lf_ready (File s) = (ff_fs s \<noteq> None)"
| "lf_ready (RollFile s) = True"

fun lf_written :: "LogFlush \<Rightarrow> string" where
  "lf_written (Stdout out) = out"
| "lf_written (File s) = ff_written s"
| "lf_written (RollFile s) = rf_written s"

interpretation any_sink: log_sink "LogFlush_Flush conf" lf_ready env_good lf_written
  for conf
proof unfold_locales
  fix s :: LogFlush and e data
  assume r: "lf_ready s" and g: "env_good e"
  show "\<exists>s'. LogFlush_Flush conf e data s = Inr s'"
  proof (cases s)
    case (File f)
    then obtain f' where "FileFlush_Flush conf e data f = Inr f'" using r g file_sink.flush_total [of f e conf data] by auto
    with File show ?thesis by simp
  next
    case (RollFile f)
    obtain f' where "RollFileFlush_Flush conf e data f = Inr f'" using g roll_sink.flush_total [of e conf data f] by auto
    with RollFile show ?thesis by simp
  qed simp
next
  fix s s' :: LogFlush and e data
  assume r: "lf_ready s" and f: "LogFlush_Flush conf e data s = Inr s'"
  show "lf_ready s'" using r f by (cases s) (auto simp: cxx_res dest: file_sink.flush_ready [rotated])
next
  fix s s' :: LogFlush and e data
  assume r: "lf_ready s" and g: "env_good e" and f: "LogFlush_Flush conf e data s = Inr s'"
  show "lf_written s' = lf_written s @ data"
    using r f g by (cases s) (auto simp: cxx_res StdoutFlush_Flush_def dest: file_sink.flush_written [rotated 2] roll_sink.flush_written [rotated 2])
qed

section \<open>Rolling files\<close>

text \<open>A file name of a rolling sink ends with its number, so two numbers give two names.\<close>

definition roll_name :: "nat \<Rightarrow> string \<Rightarrow> bool" where
  "roll_name n name \<longleftrightarrow> (\<exists>stem. name = stem @ ''-'' @ string_of_nat n @ ''.log'')"

lemma digits_no_dash: "CHR ''-'' \<notin> set (string_of_nat n @ ''.log'')"
  using string_of_nat_digits [of n] by (auto dest: digit_not_sign)

lemma split_at_last:
  fixes c :: char
  assumes "a @ c # b = a' @ c # b'" "c \<notin> set b" "c \<notin> set b'"
  shows "b = b'"
proof -
  have "Some (length a) = Some (length a')"
    using find_last_append [OF assms(2), of a] find_last_append [OF assms(3), of a'] assms(1) by metis
  then show ?thesis using assms(1) by simp
qed

lemma roll_name_unique:
  assumes "roll_name m name" "roll_name n name"
  shows "m = n"
proof -
  obtain a a' where "a @ CHR ''-'' # (string_of_nat m @ ''.log'') = a' @ CHR ''-'' # (string_of_nat n @ ''.log'')"
    using assms by (auto simp: roll_name_def)
  then have "string_of_nat m @ ''.log'' = string_of_nat n @ ''.log''"
    by (rule split_at_last) (rule digits_no_dash)+
  then show ?thesis by simp
qed

definition roll_inv :: "RollFileFlush \<Rightarrow> bool" where
  "roll_inv s \<longleftrightarrow>
     rf_cnt s = Suc (length (rf_files s))
     \<and> (\<forall>i < length (rf_files s). roll_name (Suc i) (f_name (rf_files s ! i)))
     \<and> (\<forall>f \<in> set (rf_closed s). rf_max_size s \<le> length (f_bytes f) \<and> f_pending f = [])
     \<and> (case rf_fs s of None \<Rightarrow> rf_closed s = [] | Some f \<Rightarrow> rf_cur_size s = length (f_bytes f))"

lemma InitLogFile_inv:
  assumes "roll_inv s" "env_good env"
  shows "roll_inv (InitLogFile env s)"
proof (cases "rf_fs s = None \<or> rf_cur_size s \<ge> rf_max_size s")
  case True
  let ?name = "fst (CreateFilename (env_now env) (roll_close s))"
  let ?f = "\<lparr>f_name = ?name, f_disk = [], f_kernel = [], f_pending = []\<rparr>"
  have name: "roll_name (rf_cnt s) ?name"
    by (auto simp: roll_name_def CreateFilename_def roll_close_def split: option.splits)
  have files: "map f_name (rf_files (InitLogFile env s)) = map f_name (rf_files s) @ [?name]"
    using True assms(2)
    by (auto simp: InitLogFile_def CreateFilename_def roll_close_def rf_files_def fopen_ab_def env_good_def split: option.splits)
  then have len: "length (rf_files (InitLogFile env s)) = Suc (length (rf_files s))"
    by (metis length_append_singleton length_map)
  have "roll_name (Suc i) (f_name (rf_files (InitLogFile env s) ! i))" if "i < length (rf_files (InitLogFile env s))" for i
  proof -
    have "f_name (rf_files (InitLogFile env s) ! i) = (map f_name (rf_files s) @ [?name]) ! i"
      using that files by (metis nth_map)
    then show ?thesis
      using that len assms(1) name by (auto simp: nth_append roll_inv_def less_Suc_eq)
  qed
  moreover have "\<forall>f \<in> set (rf_closed (InitLogFile env s)). rf_max_size (InitLogFile env s) \<le> length (f_bytes f) \<and> f_pending f = []"
    using True assms by (auto simp: InitLogFile_def CreateFilename_def roll_close_def roll_inv_def fflush_def f_bytes_def split: option.splits)
  moreover have "rf_fs (InitLogFile env s) = Some ?f" "rf_cur_size (InitLogFile env s) = 0" "rf_cnt (InitLogFile env s) = Suc (rf_cnt s)"
    using True assms(2)
    by (auto simp: InitLogFile_def CreateFilename_def roll_close_def fopen_ab_def env_good_def split: option.splits)
  ultimately show ?thesis
    using len assms(1) by (auto simp: roll_inv_def f_bytes_def)
next
  case False
  then have "InitLogFile env s = s" by (auto simp: InitLogFile_def)
  then show ?thesis using assms(1) by simp
qed

lemma RollFileFlush_inv:
  assumes "roll_inv s" "env_good env" "RollFileFlush_Flush conf env data s = Inr s'"
  shows "roll_inv s' \<and> rf_max_size s' = rf_max_size s"
proof -
  let ?s1 = "InitLogFile env s"
  from assms(3) obtain f where f: "rf_fs ?s1 = Some f"
      "s' = ?s1\<lparr>rf_fs := Some (sync_log (conf_flush_log conf) (fwrite (env_spill env) (accepted env data) f)),
                rf_cur_size := rf_cur_size ?s1 + length data\<rparr>"
    by (auto simp: RollFileFlush_Flush_def Let_def split: option.splits)
  have "map f_name (rf_files s') = map f_name (rf_files ?s1)" using f by (simp add: rf_files_def)
  then have same: "length (rf_files s') = length (rf_files ?s1)"
      "\<And>i. i < length (rf_files ?s1) \<Longrightarrow> f_name (rf_files s' ! i) = f_name (rf_files ?s1 ! i)"
    by (metis length_map, metis length_map nth_map)
  have "rf_max_size ?s1 = rf_max_size s"
    by (auto simp: InitLogFile_def CreateFilename_def roll_close_def split: option.splits)
  then show ?thesis
    using f same assms(2) InitLogFile_inv [OF assms(1,2)] by (simp add: roll_inv_def)
qed

lemma roll_run_inv:
  assumes "roll_inv s" "\<forall>(e, d) \<in> set xs. env_good e" "roll_sink.flush_all conf xs s = Inr s'"
  shows "roll_inv s' \<and> rf_max_size s' = rf_max_size s"
  using assms
proof (induction xs arbitrary: s)
  case (Cons x xs)
  obtain e d where x: "x = (e, d)" by (cases x)
  then obtain s1 where s1: "RollFileFlush_Flush conf e d s = Inr s1" "roll_sink.flush_all conf xs s1 = Inr s'"
    using Cons.prems(3) by (auto simp: cxx_res)
  then show ?case using Cons.IH [of s1] Cons.prems x RollFileFlush_inv [OF Cons.prems(1) _ s1(1)] by simp
qed simp

lemma roll_inv_distinct:
  assumes "roll_inv s"
  shows "distinct (map f_name (rf_files s))"
proof -
  have "i = j" if "i < length (rf_files s)" "j < length (rf_files s)" "f_name (rf_files s ! i) = f_name (rf_files s ! j)" for i j
    using that assms roll_name_unique [of "Suc i" "f_name (rf_files s ! j)" "Suc j"] by (auto simp: roll_inv_def)
  then show ?thesis by (auto simp: distinct_conv_nth)
qed

text \<open>A run of flushes on a rolling sink, in terms of \<open>Flush\<close> alone.\<close>

fun roll_flushes :: "JsonData \<Rightarrow> (flush_env \<times> string) list \<Rightarrow> RollFileFlush \<Rightarrow> RollFileFlush res" where
  "roll_flushes conf [] s = Inr s"
| "roll_flushes conf ((env, data) # xs) s = bind_res (RollFileFlush_Flush conf env data s) (roll_flushes conf xs)"

lemma roll_flushes_eq: "roll_flushes conf xs s = roll_sink.flush_all conf xs s"
proof (induction xs arbitrary: s)
  case (Cons x xs)
  then have "roll_flushes conf xs = roll_sink.flush_all conf xs" by blast
  then show ?case by (cases x) simp
qed simp

text \<open>
  C17: A rolling log loses nothing at a roll. However the data is cut into flushes, and whatever the
  clock says, the files of a new \<open>RollFileFlush\<close> hold together, oldest first, exactly the bytes
  flushed; every file but the current one was full (at least \<open>max_size\<close> bytes) and completely
  handed to the kernel when it was left; and no two of them have the same name, even when the log
  rolls several times within a second.
\<close>

theorem roll_files_complete:
  assumes "\<forall>(env, data) \<in> set xs. env_good env"
  shows "\<exists>s. roll_flushes conf xs (RollFileFlush_new base max_size) = Inr s
    \<and> concat (map f_bytes (rf_files s)) = concat (map snd xs)
    \<and> (\<forall>f \<in> set (rf_closed s). max_size \<le> length (f_bytes f) \<and> f_pending f = [])
    \<and> distinct (map f_name (rf_files s))"
proof -
  let ?s0 = "RollFileFlush_new base max_size"
  have inv: "roll_inv ?s0" by (simp add: roll_inv_def RollFileFlush_new_def rf_files_def)
  have "rf_written ?s0 = []" by (simp add: rf_written_def rf_files_def RollFileFlush_new_def)
  then obtain s where s: "roll_sink.flush_all conf xs ?s0 = Inr s" "rf_written s = concat (map snd xs)"
    using roll_sink.flush_all_written [of xs conf ?s0] assms by auto
  have s_inv: "roll_inv s" "rf_max_size s = max_size"
    using roll_run_inv [OF inv assms s(1)] by (simp_all add: RollFileFlush_new_def)
  then have "\<forall>f \<in> set (rf_closed s). max_size \<le> length (f_bytes f) \<and> f_pending f = []" by (auto simp: roll_inv_def)
  then show ?thesis
    using s s_inv roll_inv_distinct by (auto simp: roll_flushes_eq rf_written_def)
qed

definition some_env :: flush_env where
  "some_env = \<lparr>env_now = \<lparr>tm_year = 125, tm_mon = 0, tm_mday = 1, tm_hour = 0, tm_min = 0, tm_sec = 0\<rparr>,
     env_openable = (\<lambda>_. True), env_spill = 1, env_fwrite_error = None\<rparr>"

theorem roll_files_complete_witness:
  "\<exists>s. roll_flushes small_conf [(some_env, ''abc''), (some_env, ''de'')] (RollFileFlush_new ''log'' 3) = Inr s
    \<and> concat (map f_bytes (rf_files s)) = ''abcde'' \<and> distinct (map f_name (rf_files s))"
proof -
  have "\<forall>(env, data) \<in> set [(some_env, ''abc''), (some_env, ''de'')]. env_good env"
    by (simp add: env_good_def some_env_def)
  from roll_files_complete [OF this, of small_conf "''log''" 3] show ?thesis by auto
qed

text \<open>
  What \<open>flush_log\<close> buys: after a flush, with 1 no byte waits in the process, with 2 none waits in
  the kernel either.
\<close>

lemma flush_log_durable:
  assumes "RollFileFlush_Flush conf env data s = Inr s'" "rf_fs s' = Some f"
  shows "conf_flush_log conf \<in> {1, 2} \<Longrightarrow> f_pending f = []"
    and "conf_flush_log conf = 2 \<Longrightarrow> f_disk f = f_bytes f"
  using assms by (auto simp: RollFileFlush_Flush_def Let_def f_bytes_def split: option.splits)

end
