(* ===== verification/Thread_Pool.thy ===== *)
theory Thread_Pool
  imports Prelude "HOL-Library.Multiset"
begin

text \<open>
  The two thread pools: the one of the logging system (\<open>logs_code/ThreadPoll.hpp\<close>) and the one of
  the server (\<open>code/pool/threadpool.h\<close>). A worker thread is cut where it takes and leaves the
  mutex: it waits, runs a task, or has returned. A schedule is any sequence of operations and of
  steps of the workers. What both pools promise is the locale \<open>task_pool\<close>, interpreted on each;
  from it the lemmas show that tasks start in the order they were added, each exactly once, and
  that closing a pool runs everything that is queued before the workers leave.
\<close>

section \<open>Workers and schedules\<close>

datatype 't pool_worker = Idle | Busy 't | Gone

datatype 't pool_action = Add 't | Close | Step nat

datatype 't pool_event = Started 't | Finished 't

text \<open>
  One action of a schedule: a refused \<open>Add\<close> and the step of a worker that waits or has returned
  change nothing. The result has the events the action caused and the tasks that were accepted.
\<close>

definition pool_act ::
  "('t \<Rightarrow> 'p \<Rightarrow> 'p res) \<Rightarrow> ('p \<Rightarrow> 'p) \<Rightarrow> (nat \<Rightarrow> 'p \<Rightarrow> ('t pool_event list \<times> 'p) option) \<Rightarrow>
   't pool_action \<Rightarrow> 'p \<Rightarrow> 't list \<times> 't pool_event list \<times> 'p" where
  "pool_act add close step a p =
     (case a of
        Add t \<Rightarrow> (case add t p of Inl _ \<Rightarrow> ([], [], p) | Inr p' \<Rightarrow> ([t], [], p'))
      | Close \<Rightarrow> ([], [], close p)
      | Step i \<Rightarrow> (case step i p of None \<Rightarrow> ([], [], p) | Some (es, p') \<Rightarrow> ([], es, p')))"

fun pool_run ::
  "('t \<Rightarrow> 'p \<Rightarrow> 'p res) \<Rightarrow> ('p \<Rightarrow> 'p) \<Rightarrow> (nat \<Rightarrow> 'p \<Rightarrow> ('t pool_event list \<times> 'p) option) \<Rightarrow>
   't pool_action list \<Rightarrow> 'p \<Rightarrow> 't list \<times> 't pool_event list \<times> 'p" where
  "pool_run add close step [] p = ([], [], p)"
| "pool_run add close step (a # as) p =
     (case pool_act add close step a p of (ts, es, p1) \<Rightarrow>
        (case pool_run add close step as p1 of (ts', es', p') \<Rightarrow> (ts @ ts', es @ es', p')))"

fun started :: "'t pool_event list \<Rightarrow> 't list" where
  "started [] = []"
| "started (Started t # es) = t # started es"
| "started (Finished t # es) = started es"

fun finished :: "'t pool_event list \<Rightarrow> 't list" where
  "finished [] = []"
| "finished (Started t # es) = finished es"
| "finished (Finished t # es) = t # finished es"

lemma started_append [simp]: "started (a @ b) = started a @ started b"
  by (induction a rule: started.induct) auto

lemma finished_append [simp]: "finished (a @ b) = finished a @ finished b"
  by (induction a rule: finished.induct) auto

fun busy_tasks :: "'t pool_worker list \<Rightarrow> 't multiset" where
  "busy_tasks [] = {#}"
| "busy_tasks (Busy t # ws) = add_mset t (busy_tasks ws)"
| "busy_tasks (_ # ws) = busy_tasks ws"

lemma busy_tasks_update:
  assumes "i < length ws"
  shows "busy_tasks (ws[i := w]) + busy_tasks [ws ! i] = busy_tasks ws + busy_tasks [w]"
  using assms
proof (induction ws arbitrary: i)
  case (Cons x xs)
  have split: "busy_tasks (y # ys) = busy_tasks [y] + busy_tasks ys" for y :: "'a pool_worker" and ys
    by (cases y) auto
  show ?case
  proof (cases i)
    case 0
    then show ?thesis by (simp add: split [of _ xs] ac_simps)
  next
    case (Suc j)
    with Cons have "busy_tasks (xs[j := w]) + busy_tasks [xs ! j] = busy_tasks xs + busy_tasks [w]" by simp
    with Suc show ?thesis by (simp add: split [of x xs] split [of x "xs[j := w]"] ac_simps)
  qed
qed simp

fun weight :: "'t pool_worker \<Rightarrow> nat" where
  "weight Idle = 1"
| "weight (Busy t) = 2"
| "weight Gone = 0"

lemma weight_update:
  "i < length ws \<Longrightarrow> sum_list (map weight (ws[i := w])) + weight (ws ! i) = sum_list (map weight ws) + weight w"
proof (induction ws arbitrary: i)
  case (Cons x xs)
  then show ?case by (cases i) fastforce+
qed simp

lemma weight_zero: "weight w = 0 \<longleftrightarrow> w = Gone"
  by (cases w) auto

section \<open>What a pool promises\<close>

locale task_pool =
  fixes add :: "'t \<Rightarrow> 'p \<Rightarrow> 'p res"
    and close :: "'p \<Rightarrow> 'p"
    and step :: "nat \<Rightarrow> 'p \<Rightarrow> ('t pool_event list \<times> 'p) option"
    and tasks :: "'p \<Rightarrow> 't list"
    and closed :: "'p \<Rightarrow> bool"
    and workers :: "'p \<Rightarrow> 't pool_worker list"
  assumes add_law: "add t p = Inr p' \<Longrightarrow> tasks p' = tasks p @ [t] \<and> closed p' = closed p \<and> workers p' = workers p"
    and close_law: "tasks (close p) = tasks p \<and> closed (close p) \<and> workers (close p) = workers p"
    and step_none: "length (workers p) \<le> i \<Longrightarrow> step i p = None"
    and step_idle: "i < length (workers p) \<Longrightarrow> workers p ! i = Idle \<Longrightarrow>
      (case tasks p of
         t # ts \<Rightarrow> \<exists>p'. step i p = Some ([Started t], p') \<and> tasks p' = ts \<and> closed p' = closed p
                       \<and> workers p' = (workers p)[i := Busy t]
       | [] \<Rightarrow> (if closed p then \<exists>p'. step i p = Some ([], p') \<and> tasks p' = [] \<and> closed p'
                                  \<and> workers p' = (workers p)[i := Gone]
               else step i p = None))"
    and step_busy: "i < length (workers p) \<Longrightarrow> workers p ! i = Busy t \<Longrightarrow>
      \<exists>p'. step i p = Some ([Finished t], p') \<and> tasks p' = tasks p \<and> closed p' = closed p
           \<and> workers p' = (workers p)[i := Idle]"
    and step_gone: "i < length (workers p) \<Longrightarrow> workers p ! i = Gone \<Longrightarrow> step i p = None"
begin

lemma worker_books:
  assumes "pool_act add close step (Step i) p = (ts, es, p')" "i < length (workers p)"
  shows "tasks p @ ts = started es @ tasks p'
    \<and> mset (started es) + busy_tasks (workers p) = mset (finished es) + busy_tasks (workers p')
    \<and> length (workers p') = length (workers p)"
proof (cases "workers p ! i")
  case Idle
  note up = busy_tasks_update [OF assms(2)]
  show ?thesis
  proof (cases "tasks p")
    case Nil
    then show ?thesis using assms(1) step_idle [OF assms(2) Idle] Idle up [of Gone] by (cases "closed p") (auto simp: pool_act_def)
  next
    case (Cons t ts)
    then show ?thesis using assms(1) step_idle [OF assms(2) Idle] Idle up [of "Busy t"] by (auto simp: pool_act_def)
  qed
next
  case (Busy t)
  then show ?thesis
    using assms(1) step_busy [OF assms(2) Busy] busy_tasks_update [OF assms(2), of Idle] by (auto simp: pool_act_def)
next
  case Gone
  then show ?thesis using assms(1) step_gone [OF assms(2)] by (simp add: pool_act_def)
qed

lemma act_books:
  assumes "pool_act add close step a p = (ts, es, p')"
  shows "tasks p @ ts = started es @ tasks p'"
    and "mset (started es) + busy_tasks (workers p) = mset (finished es) + busy_tasks (workers p')"
    and "length (workers p') = length (workers p)"
proof (atomize (full), cases a)
  case (Add t)
  then show "tasks p @ ts = started es @ tasks p' \<and> mset (started es) + busy_tasks (workers p) = mset (finished es) + busy_tasks (workers p')
      \<and> length (workers p') = length (workers p)"
    using assms add_law by (auto simp: pool_act_def split: sum.splits)
next
  case Close
  then show "tasks p @ ts = started es @ tasks p' \<and> mset (started es) + busy_tasks (workers p) = mset (finished es) + busy_tasks (workers p')
      \<and> length (workers p') = length (workers p)"
    using assms close_law by (auto simp: pool_act_def)
next
  case (Step i)
  then show "tasks p @ ts = started es @ tasks p' \<and> mset (started es) + busy_tasks (workers p) = mset (finished es) + busy_tasks (workers p')
      \<and> length (workers p') = length (workers p)"
    using assms worker_books [of i p ts es p'] step_none [of p i] by (cases "i < length (workers p)") (auto simp: pool_act_def)
qed

lemma run_books:
  assumes "pool_run add close step as p = (ts, es, p')"
  shows "tasks p @ ts = started es @ tasks p'
    \<and> mset (started es) + busy_tasks (workers p) = mset (finished es) + busy_tasks (workers p')
    \<and> length (workers p') = length (workers p)"
  using assms
proof (induction as arbitrary: p ts es)
  case (Cons a as)
  obtain ts1 es1 p1 where a: "pool_act add close step a p = (ts1, es1, p1)" by (metis prod_cases3)
  obtain ts2 es2 where r: "pool_run add close step as p1 = (ts2, es2, p')" "ts = ts1 @ ts2" "es = es1 @ es2"
    using Cons.prems a by (auto split: prod.splits)
  note b = act_books [OF a] and ih = Cons.IH [OF r(1)]
  have "tasks p @ ts = started es @ tasks p'" using b(1) ih r by (metis append.assoc started_append)
  moreover have "mset (started es) + busy_tasks (workers p) = mset (finished es) + busy_tasks (workers p')"
  proof -
    have "mset (started es2) + (mset (started es1) + busy_tasks (workers p))
        = mset (finished es1) + (mset (finished es2) + busy_tasks (workers p'))"
      unfolding b(2) using ih by (simp add: ac_simps)
    then show ?thesis using r by (simp add: ac_simps)
  qed
  ultimately show ?case using b(3) ih by simp
qed simp

text \<open>
  The work left in a closed pool: two units for a queued task, two for a worker in a task, one
  for a worker that has yet to see that the queue is empty. Every step takes one unit.
\<close>

definition work :: "'p \<Rightarrow> nat" where
  "work p = 2 * length (tasks p) + sum_list (map weight (workers p))"

definition settled :: "'p \<Rightarrow> bool" where
  "settled p \<longleftrightarrow> (Gone \<in> set (workers p) \<longrightarrow> closed p \<and> tasks p = [])"

lemma step_work:
  assumes "closed p" "i < length (workers p)" "workers p ! i \<noteq> Gone"
  shows "\<exists>es p'. step i p = Some (es, p') \<and> closed p' \<and> Suc (work p') = work p \<and> (settled p \<longrightarrow> settled p')"
proof (cases "workers p ! i")
  case Idle
  show ?thesis
  proof (cases "tasks p")
    case Nil
    then show ?thesis
      using step_idle [OF assms(2) Idle] assms weight_update [OF assms(2), of Gone] Idle
      by (auto simp: work_def settled_def)
  next
    case (Cons t ts)
    then obtain p' where p': "step i p = Some ([Started t], p')" "tasks p' = ts" "closed p'" "workers p' = (workers p)[i := Busy t]"
      using step_idle [OF assms(2) Idle] assms(1) by auto
    have "Gone \<in> set ((workers p)[i := Busy t]) \<Longrightarrow> Gone \<in> set (workers p)"
      using set_update_subset_insert [of "workers p" i "Busy t"] by auto
    then show ?thesis
      using p' Cons weight_update [OF assms(2), of "Busy t"] Idle by (auto simp: work_def settled_def)
  qed
next
  case (Busy t)
  then obtain p' where p': "step i p = Some ([Finished t], p')" "tasks p' = tasks p" "closed p'" "workers p' = (workers p)[i := Idle]"
    using step_busy [OF assms(2) Busy] assms(1) by auto
  have "Gone \<in> set ((workers p)[i := Idle]) \<Longrightarrow> Gone \<in> set (workers p)"
    using set_update_subset_insert [of "workers p" i Idle] by auto
  then show ?thesis
    using p' weight_update [OF assms(2), of Idle] Busy assms(1) by (auto simp: work_def settled_def)
qed (use assms in simp)

lemma steps_work:
  assumes "closed p" "settled p" "\<forall>a \<in> set as. \<exists>i. a = Step i"
  shows "\<exists>es p'. pool_run add close step as p = ([], es, p') \<and> closed p' \<and> settled p' \<and> work p' \<le> work p"
  using assms
proof (induction as arbitrary: p)
  case (Cons a as)
  obtain i where a: "a = Step i" using Cons.prems(3) by auto
  show ?case
  proof (cases "i < length (workers p) \<and> workers p ! i \<noteq> Gone")
    case True
    then obtain es p1 where p1: "step i p = Some (es, p1)" "closed p1" "Suc (work p1) = work p" "settled p1"
      using step_work Cons.prems by blast
    then obtain es' p' where "pool_run add close step as p1 = ([], es', p')" "closed p'" "settled p'" "work p' \<le> work p1"
      using Cons.IH [of p1] Cons.prems(3) by auto
    then show ?thesis using p1 a by (auto simp: pool_act_def)
  next
    case False
    then have "step i p = None" using step_none step_gone by (cases "i < length (workers p)") auto
    then show ?thesis using Cons a by (auto simp: pool_act_def)
  qed
qed simp

lemma pool_run_append:
  "pool_run add close step (as @ bs) p =
     (case pool_run add close step as p of (ts, es, p1) \<Rightarrow>
        (case pool_run add close step bs p1 of (ts', es', p') \<Rightarrow> (ts @ ts', es @ es', p')))"
  by (induction as arbitrary: p) (auto split: prod.splits)

text \<open>In a round every worker has a turn.\<close>

lemma round_work:
  assumes "closed p" "settled p" "\<exists>i < length (workers p). workers p ! i \<noteq> Gone"
    and "pool_run add close step (map Step [0..<length (workers p)]) p = (ts, es, p')"
  shows "closed p' \<and> settled p' \<and> work p' < work p"
proof -
  let ?P = "\<lambda>i. i < length (workers p) \<and> workers p ! i \<noteq> Gone"
  define i where "i = (LEAST i. ?P i)"
  have i: "i < length (workers p)" "workers p ! i \<noteq> Gone"
    using LeastI_ex [of ?P] assms(3) unfolding i_def by auto
  have before: "workers p ! j = Gone" if "j < i" for j
    using not_less_Least [of j ?P] that i(1) unfolding i_def by auto
  have skip: "pool_run add close step (map Step xs) p = ([], [], p)" if "\<forall>x \<in> set xs. x < i" for xs
    using that
  proof (induction xs)
    case (Cons x xs)
    then have "step x p = None" using step_gone [of x p] before [of x] i(1) by simp
    then show ?case using Cons by (simp add: pool_act_def)
  qed simp
  have split: "[0..<length (workers p)] = [0..<i] @ i # [Suc i..<length (workers p)]"
    using i(1) upt_add_eq_append [of 0 i "length (workers p) - i"] by (simp add: upt_conv_Cons)
  obtain es1 p1 where p1: "step i p = Some (es1, p1)" "closed p1" "Suc (work p1) = work p" "settled p1"
    using step_work [OF assms(1) i] assms(2) by blast
  obtain es2 p2 where p2: "pool_run add close step (map Step [Suc i..<length (workers p)]) p1 = ([], es2, p2)"
      "closed p2" "settled p2" "work p2 \<le> work p1"
    using steps_work [OF p1(2,4), of "map Step [Suc i..<length (workers p)]"] by auto
  have "pool_run add close step (map Step [0..<length (workers p)]) p = ([], es1 @ es2, p2)"
    unfolding split map_append pool_run_append using skip [of "[0..<i]"] p1 p2 by (simp add: pool_act_def)
  then show ?thesis using assms(4) p1 p2 by simp
qed

lemma drain:
  assumes "closed p" "settled p" "workers p \<noteq> []" "work p \<le> k"
  shows "\<exists>es p'. pool_run add close step (concat (replicate k (map Step [0..<length (workers p)]))) p = ([], es, p')
    \<and> tasks p' = [] \<and> (\<forall>w \<in> set (workers p'). w = Gone)"
  using assms
proof (induction k arbitrary: p)
  case 0
  then have "\<forall>w \<in> set (workers p). w = Gone" by (auto simp: work_def weight_zero)
  then show ?case using 0 by (auto simp: settled_def work_def)
next
  case (Suc k)
  let ?r = "map Step [0..<length (workers p)]"
  obtain ts es p1 where r: "pool_run add close step ?r p = (ts, es, p1)" by (metis prod_cases3)
  have ts: "ts = []" "closed p1" "settled p1" "work p1 \<le> work p"
    using steps_work [OF Suc.prems(1,2), of ?r] r by auto
  have len: "length (workers p1) = length (workers p)" using run_books [OF r] by simp
  have "work p1 \<le> k"
  proof (cases "\<exists>i < length (workers p). workers p ! i \<noteq> Gone")
    case True
    then show ?thesis using round_work [OF Suc.prems(1,2) True r] Suc.prems(4) by simp
  next
    case False
    then have all: "\<forall>w \<in> set (workers p). w = Gone" by (metis in_set_conv_nth)
    then have "tasks p = []" using Suc.prems(2,3) by (cases "workers p") (auto simp: settled_def)
    moreover have "sum_list (map weight (workers p)) = 0" using all by (auto simp: weight_zero)
    ultimately have "work p = 0" by (simp add: work_def)
    then show ?thesis using ts(4) by simp
  qed
  moreover have "workers p1 \<noteq> []" using len Suc.prems(3) by auto
  ultimately obtain es' p' where "pool_run add close step (concat (replicate k (map Step [0..<length (workers p1)]))) p1 = ([], es', p')"
      "tasks p' = []" "\<forall>w \<in> set (workers p'). w = Gone"
    using Suc.IH ts by blast
  then show ?case using r ts(1) len by (simp add: pool_run_append)
qed

end

lemma busy_gone: "\<forall>w \<in> set ws. w = Gone \<Longrightarrow> busy_tasks ws = {#}"
  by (induction ws rule: busy_tasks.induct) auto

section \<open>The pool of the logging system\<close>

record 't ThreadPool =
  tp_workers :: "'t pool_worker list"
  tp_tasks :: "'t list"
  tp_stop :: bool

definition ThreadPool_new :: "nat \<Rightarrow> 't ThreadPool" where
  "ThreadPool_new threads = \<lparr>tp_workers = replicate threads Idle, tp_tasks = [], tp_stop = False\<rparr>"

text \<open>
  The body of a worker: the locked part waits, returns or takes a task; the unlocked part runs
  it. A \<open>packaged_task\<close> keeps what the function throws for the future, so running a task always
  comes back to the loop.
\<close>

definition worker_loop :: "nat \<Rightarrow> 't ThreadPool \<Rightarrow> ('t pool_event list \<times> 't ThreadPool) option" where
  "worker_loop i p =
     (if i < length (tp_workers p)
      then (case tp_workers p ! i of
              Idle \<Rightarrow>
                (if \<not> (tp_stop p \<or> tp_tasks p \<noteq> []) then None
                 else if tp_stop p \<and> tp_tasks p = []
                 then Some ([], p\<lparr>tp_workers := (tp_workers p)[i := Gone]\<rparr>)
                 else Some ([Started (hd (tp_tasks p))],
                            p\<lparr>tp_tasks := tl (tp_tasks p), tp_workers := (tp_workers p)[i := Busy (hd (tp_tasks p))]\<rparr>))
            | Busy t \<Rightarrow> Some ([Finished t], p\<lparr>tp_workers := (tp_workers p)[i := Idle]\<rparr>)
            | Gone \<Rightarrow> None)
      else None)"

definition enqueue :: "'t \<Rightarrow> 't ThreadPool \<Rightarrow> 't ThreadPool res" where
  "enqueue t p =
     (if tp_stop p then Inl (Exception (Runtime_Error ''enqueue on stopped ThreadPool''))
      else Inr (p\<lparr>tp_tasks := tp_tasks p @ [t]\<rparr>))"

text \<open>The destructor before it joins the workers.\<close>

definition ThreadPool_destroy :: "'t ThreadPool \<Rightarrow> 't ThreadPool" where
  "ThreadPool_destroy p = p\<lparr>tp_stop := True\<rparr>"

interpretation log_pool: task_pool enqueue ThreadPool_destroy worker_loop tp_tasks tp_stop tp_workers
  by unfold_locales
     (auto simp: enqueue_def ThreadPool_destroy_def worker_loop_def split: list.splits if_splits)

section \<open>The pool of the server\<close>

record 't Pool =
  pl_workers :: "'t pool_worker list"
  pl_isClosed :: bool
  pl_tasks :: "'t list"

definition Pool_new :: "nat \<Rightarrow> 't Pool res" where
  "Pool_new threadCount =
     bind_res (assert_res (threadCount > 0))
       (\<lambda>_. Inr \<lparr>pl_workers = replicate threadCount Idle, pl_isClosed = False, pl_tasks = []\<rparr>)"

definition pool_loop :: "nat \<Rightarrow> 't Pool \<Rightarrow> ('t pool_event list \<times> 't Pool) option" where
  "pool_loop i p =
     (if i < length (pl_workers p)
      then (case pl_workers p ! i of
              Idle \<Rightarrow>
                (if pl_tasks p \<noteq> []
                 then Some ([Started (hd (pl_tasks p))],
                            p\<lparr>pl_tasks := tl (pl_tasks p), pl_workers := (pl_workers p)[i := Busy (hd (pl_tasks p))]\<rparr>)
                 else if pl_isClosed p then Some ([], p\<lparr>pl_workers := (pl_workers p)[i := Gone]\<rparr>)
                 else None)
            | Busy t \<Rightarrow> Some ([Finished t], p\<lparr>pl_workers := (pl_workers p)[i := Idle]\<rparr>)
            | Gone \<Rightarrow> None)
      else None)"

definition AddTask :: "'t \<Rightarrow> 't Pool \<Rightarrow> 't Pool res" where
  "AddTask t p = Inr (p\<lparr>pl_tasks := pl_tasks p @ [t]\<rparr>)"

definition Pool_destroy :: "'t Pool \<Rightarrow> 't Pool" where
  "Pool_destroy p = p\<lparr>pl_isClosed := True\<rparr>"

interpretation web_pool: task_pool AddTask Pool_destroy pool_loop pl_tasks pl_isClosed pl_workers
  by unfold_locales
     (auto simp: AddTask_def Pool_destroy_def pool_loop_def split: list.splits if_splits)

section \<open>Tasks run in order, once, and all of them\<close>

lemma busy_new [simp]: "busy_tasks (replicate n Idle) = {#}"
  by (induction n) auto

text \<open>
  C12: Whatever the schedule of the threads, the logging system's pool starts the accepted tasks in
  the order in which they were accepted, none twice: the accepted tasks are those started, in
  that order, followed by those still queued; and those started are those finished and those a
  worker is running now.
\<close>

theorem thread_pool_fifo:
  assumes "pool_run enqueue ThreadPool_destroy worker_loop as (ThreadPool_new n) = (accepted, es, p)"
  shows "accepted = started es @ tp_tasks p \<and> mset (started es) = mset (finished es) + busy_tasks (tp_workers p)"
  using log_pool.run_books [OF assms] by (simp add: ThreadPool_new_def)

theorem thread_pool_fifo_witness:
  "\<exists>es p. pool_run enqueue ThreadPool_destroy worker_loop [Add (1::nat), Add 2, Step 0, Step 1, Step 0] (ThreadPool_new 2) = ([1, 2], es, p)
    \<and> [1, 2] = started es @ tp_tasks p \<and> finished es = [1]"
proof -
  let ?r = "pool_run enqueue ThreadPool_destroy worker_loop [Add (1::nat), Add 2, Step 0, Step 1, Step 0] (ThreadPool_new 2)"
  obtain es p where r: "?r = ([1, 2], es, p)" "finished es = [1]"
    by (simp add: pool_act_def enqueue_def worker_loop_def ThreadPool_new_def numeral_2_eq_2)
  from thread_pool_fifo [OF r(1)] r show ?thesis by auto
qed

lemma log_pool_settled:
  assumes "pool_run enqueue ThreadPool_destroy worker_loop as p = (ts, es, p')" "log_pool.settled p"
  shows "log_pool.settled p'"
  using assms
proof (induction as arbitrary: p ts es)
  case (Cons a as)
  obtain ts1 es1 p1 where a: "pool_act enqueue ThreadPool_destroy worker_loop a p = (ts1, es1, p1)" by (metis prod_cases3)
  have "log_pool.settled p1"
    using a Cons.prems(2) set_update_subset_insert [of "tp_workers p"]
    by (fastforce simp: pool_act_def log_pool.settled_def enqueue_def ThreadPool_destroy_def worker_loop_def
        split: pool_action.splits if_splits pool_worker.splits)
  moreover obtain ts2 es2 where "pool_run enqueue ThreadPool_destroy worker_loop as p1 = (ts2, es2, p')"
    using Cons.prems(1) a by (auto split: prod.splits)
  ultimately show ?case using Cons.IH by blast
qed simp

text \<open>
  C13: Destroying the logging system's pool finishes its work. After any schedule, once the
  destructor has set \<open>stop\<close>, giving every worker as many turns as there are units of work left
  (two for a queued task, two for a running one, one for an idle worker) brings all of them to
  their \<open>return\<close>, so that the joins succeed, with every accepted task run exactly once.
\<close>

theorem thread_pool_drains:
  assumes "pool_run enqueue ThreadPool_destroy worker_loop as (ThreadPool_new n) = (accepted, es, p)" "0 < n"
    and "2 * length (tp_tasks p) + sum_list (map weight (tp_workers p)) \<le> k"
  shows "\<exists>es' p'. pool_run enqueue ThreadPool_destroy worker_loop (concat (replicate k (map Step [0..<n]))) (ThreadPool_destroy p)
      = ([], es', p') \<and> (\<forall>w \<in> set (tp_workers p'). w = Gone) \<and> mset (finished (es @ es')) = mset accepted"
proof -
  let ?p = "ThreadPool_destroy p"
  have len: "length (tp_workers p) = n" using log_pool.run_books [OF assms(1)] by (simp add: ThreadPool_new_def)
  have "log_pool.settled p"
    by (rule log_pool_settled [OF assms(1)]) (simp add: log_pool.settled_def ThreadPool_new_def)
  then have d: "tp_stop ?p" "log_pool.settled ?p" "tp_workers ?p \<noteq> []" "log_pool.work ?p \<le> k" "length (tp_workers ?p) = n"
    using assms(2,3) len by (auto simp: ThreadPool_destroy_def log_pool.settled_def log_pool.work_def)
  obtain es' p' where r: "pool_run enqueue ThreadPool_destroy worker_loop (concat (replicate k (map Step [0..<n]))) ?p = ([], es', p')"
      "tp_tasks p' = []" "\<forall>w \<in> set (tp_workers p'). w = Gone"
    using log_pool.drain [OF d(1-4)] d(5) by auto
  have idle: "busy_tasks (tp_workers p') = {#}"
    by (rule busy_gone [OF r(3)])
  have "accepted @ [] = started (es @ es')"
    using log_pool.run_books [OF assms(1)] log_pool.run_books [OF r(1)] r(2) by (simp add: ThreadPool_new_def ThreadPool_destroy_def)
  moreover have "mset (started (es @ es')) = mset (finished (es @ es'))"
    using log_pool.run_books [OF assms(1)] log_pool.run_books [OF r(1)] idle
    by (simp add: ThreadPool_new_def ThreadPool_destroy_def ac_simps)
  ultimately show ?thesis using r by auto
qed

theorem thread_pool_drains_witness:
  "\<exists>es' p'. pool_run enqueue ThreadPool_destroy worker_loop (concat (replicate 3 (map Step [0..<1])))
      (ThreadPool_destroy ((ThreadPool_new 1)\<lparr>tp_tasks := [7 :: nat]\<rparr>)) = ([], es', p')
    \<and> (\<forall>w \<in> set (tp_workers p'). w = Gone) \<and> mset (finished es') = {#7#}"
proof -
  have "pool_run enqueue ThreadPool_destroy worker_loop [Add (7 :: nat)] (ThreadPool_new 1)
      = ([7], [], (ThreadPool_new 1)\<lparr>tp_tasks := [7]\<rparr>)"
    by (simp add: pool_act_def enqueue_def ThreadPool_new_def)
  from thread_pool_drains [OF this, of 3] show ?thesis by (simp add: ThreadPool_new_def)
qed

end
