(* ===== verification/Logger.thy ===== *)
theory Logger
  imports Log_Sinks Thread_Pool
begin

text \<open>
  The front of the logging system: levels and messages (\<open>Level.hpp\<close>, \<open>Message.hpp\<close>), the logger
  with its builder (\<open>AsyncLogger.hpp\<close>), the registry of loggers (\<open>Manager.hpp\<close>) and the remote
  backup of errors, both ends (\<open>backlog/CliBackupLog.hpp\<close>, \<open>backlog/ServerBackupLog.hpp\<close> and
  \<open>.cpp\<close>). A logger is its sinks and its worker; running one refines running the worker alone, and
  with the contract of the sinks this gives the main property: each sink receives every message,
  whole, once and in order.
\<close>

section \<open>Messages\<close>

datatype LogLevel = DEBUG | INFO | WARN | ERROR | FATAL

text \<open>The order of the enumeration.\<close>

fun level_rank :: "LogLevel \<Rightarrow> nat" where
  "level_rank DEBUG = 0"
| "level_rank INFO = 1"
| "level_rank WARN = 2"
| "level_rank ERROR = 3"
| "level_rank FATAL = 4"

instantiation LogLevel :: linorder
begin

definition less_eq_LogLevel :: "LogLevel \<Rightarrow> LogLevel \<Rightarrow> bool" where
  "less_eq_LogLevel a b \<longleftrightarrow> level_rank a \<le> level_rank b"

definition less_LogLevel :: "LogLevel \<Rightarrow> LogLevel \<Rightarrow> bool" where
  "less_LogLevel a b \<longleftrightarrow> level_rank a < level_rank b"

instance
proof
  fix x y :: LogLevel
  show "x \<le> y \<Longrightarrow> y \<le> x \<Longrightarrow> x = y" by (cases x; cases y) (simp_all add: less_eq_LogLevel_def)
qed (auto simp: less_eq_LogLevel_def less_LogLevel_def)

end

fun ToString :: "LogLevel \<Rightarrow> string" where
  "ToString DEBUG = ''DEBUG''"
| "ToString INFO = ''INFO''"
| "ToString WARN = ''WARN''"
| "ToString ERROR = ''ERROR''"
| "ToString FATAL = ''FATAL''"

text \<open>\<open>msg_ctime\<close> is the broken-down local time and \<open>msg_tid\<close> the text \<open><<\<close> prints for the thread.\<close>

record LogMessage =
  msg_line :: nat
  msg_ctime :: tm
  msg_file_name :: string
  msg_name :: string
  msg_payload :: string
  msg_tid :: string
  msg_level :: LogLevel

text \<open>A field of \<open>strftime\<close>: at least two digits.\<close>

definition two_digits :: "int \<Rightarrow> string" where
  "two_digits n = (if n < 10 then ''0'' @ string_of_nat (nat n) else string_of_nat (nat n))"

definition LogMessage_format :: "LogMessage \<Rightarrow> string" where
  "LogMessage_format m =
     ''['' @ two_digits (tm_hour (msg_ctime m)) @ '':'' @ two_digits (tm_min (msg_ctime m)) @ '':''
       @ two_digits (tm_sec (msg_ctime m)) @ ''][''
     @ msg_tid m
     @ ''['' @ ToString (msg_level m) @ '']['' @ msg_name m @ '']['' @ msg_file_name m @ '':''
       @ string_of_nat (msg_line m) @ '']'' @ [CHR 0x09] @ msg_payload m @ [CHR 0x0A]"

section \<open>The logger\<close>

record AsyncLogger =
  al_name :: string
  al_flushs :: "LogFlush list"
  al_worker :: worker

definition AsyncLogger_new :: "JsonData \<Rightarrow> string \<Rightarrow> LogFlush list \<Rightarrow> AsyncType \<Rightarrow> AsyncLogger" where
  "AsyncLogger_new conf logger_name flushs ty =
     \<lparr>al_name = logger_name, al_flushs = flushs, al_worker = AsyncWorker_new conf ty\<rparr>"

text \<open>\<open>Flush\<close> pushes to the worker; \<open>None\<close> while it waits for room.\<close>

definition AsyncLogger_Flush :: "JsonData \<Rightarrow> string \<Rightarrow> AsyncLogger \<Rightarrow> AsyncLogger res option" where
  "AsyncLogger_Flush conf data l =
     map_option (\<lambda>r. bind_res r (\<lambda>w. Inr (l\<lparr>al_worker := w\<rparr>))) (wk_Push conf data (al_worker l))"

text \<open>\<open>RealFlush\<close>, the callback of the worker: every sink in turn; \<open>envs i\<close> is what sink \<open>i\<close> meets.\<close>

fun flush_each :: "JsonData \<Rightarrow> (nat \<Rightarrow> flush_env) \<Rightarrow> string \<Rightarrow> LogFlush list \<Rightarrow> LogFlush list res" where
  "flush_each conf envs data [] = Inr []"
| "flush_each conf envs data (e # es) =
     bind_res (LogFlush_Flush conf (envs 0) data e)
       (\<lambda>e'. bind_res (flush_each conf (\<lambda>i. envs (Suc i)) data es) (\<lambda>es'. Inr (e' # es')))"

definition RealFlush :: "JsonData \<Rightarrow> (nat \<Rightarrow> flush_env) \<Rightarrow> log_buffer \<Rightarrow> AsyncLogger \<Rightarrow> AsyncLogger res" where
  "RealFlush conf envs buffer l =
     (if al_flushs l = [] then Inr l
      else bind_res (flush_each conf envs (lb_bytes buffer) (al_flushs l)) (\<lambda>es. Inr (l\<lparr>al_flushs := es\<rparr>)))"

text \<open>A step of the logger's thread: the callback is \<open>RealFlush\<close>.\<close>

definition logger_thread :: "JsonData \<Rightarrow> (nat \<Rightarrow> flush_env) \<Rightarrow> AsyncLogger \<Rightarrow> AsyncLogger res option" where
  "logger_thread conf envs l =
     (if wk_pc (al_worker l) = Swapped
      then Some (bind_res (RealFlush conf envs (wk_consumer (al_worker l)) l)
                  (\<lambda>l'. Inr (l'\<lparr>al_worker := wk_callback (al_worker l')\<rparr>)))
      else map_option (\<lambda>w. Inr (l\<lparr>al_worker := w\<rparr>)) (ThreadEntry (al_worker l)))"

section \<open>Logging a message\<close>

text \<open>
  The part of \<open>serialize\<close> that backs up: for \<open>FATAL\<close> and \<open>ERROR\<close> the message is given to the thread
  pool and the caller waits for the future; \<open>sched\<close> is what the pool does meanwhile, and \<open>None\<close>
  says that the task has not run yet. A stopped pool throws, which is caught.
\<close>

definition serialize_backup ::
  "LogLevel \<Rightarrow> string \<Rightarrow> string pool_action list \<Rightarrow> string ThreadPool \<Rightarrow> string ThreadPool option" where
  "serialize_backup level data sched tp =
     (if level = FATAL \<or> level = ERROR
      then (case enqueue data tp of
              Inl _ \<Rightarrow> Some tp
            | Inr tp1 \<Rightarrow>
                (case pool_run enqueue ThreadPool_destroy worker_loop sched tp1 of (_, es, tp2) \<Rightarrow>
                   if data \<in> set (finished es) then Some tp2 else None))
      else Some tp)"

text \<open>What is backed up is what has level \<open>ERROR\<close> or above; a lower level never waits for the pool.\<close>

lemma serialize_backup_below: "level < ERROR \<Longrightarrow> serialize_backup level data sched tp = Some tp"
  by (cases level) (simp_all add: serialize_backup_def less_LogLevel_def)

lemma serialize_backup_enqueues:
  assumes "ERROR \<le> level" "enqueue data tp = Inr tp1" "serialize_backup level data sched tp = Some tp2"
  shows "\<exists>ts es. pool_run enqueue ThreadPool_destroy worker_loop sched tp1 = (ts, es, tp2) \<and> data \<in> set (finished es)"
proof -
  have "level = FATAL \<or> level = ERROR" using assms(1) by (cases level) (simp_all add: less_eq_LogLevel_def)
  then show ?thesis using assms(2,3) by (auto simp: serialize_backup_def split: prod.splits if_splits)
qed

definition serialize ::
  "JsonData \<Rightarrow> tm \<Rightarrow> string \<Rightarrow> string pool_action list \<Rightarrow> LogLevel \<Rightarrow> string \<Rightarrow> nat \<Rightarrow> string \<Rightarrow>
   AsyncLogger \<times> string ThreadPool \<Rightarrow> (AsyncLogger \<times> string ThreadPool) res option" where
  "serialize conf now tid sched level file line ret lt =
     (case lt of (l, tp) \<Rightarrow>
        (let msg = \<lparr>msg_line = line, msg_ctime = now, msg_file_name = file, msg_name = al_name l,
                    msg_payload = ret, msg_tid = tid, msg_level = level\<rparr>;
             data = LogMessage_format msg in
         case serialize_backup level data sched tp of
           None \<Rightarrow> None
         | Some tp' \<Rightarrow> map_option (\<lambda>r. bind_res r (\<lambda>l'. Inr (l', tp'))) (AsyncLogger_Flush conf data l)))"

text \<open>
  The five functions a user calls differ in the level only. \<open>vasprintf\<close> gives the payload; when
  it fails, \<open>ret\<close> is read and freed without having been set.
\<close>

definition log_at ::
  "LogLevel \<Rightarrow> JsonData \<Rightarrow> tm \<Rightarrow> string \<Rightarrow> string pool_action list \<Rightarrow> string \<Rightarrow> nat \<Rightarrow> string option \<Rightarrow>
   AsyncLogger \<times> string ThreadPool \<Rightarrow> (AsyncLogger \<times> string ThreadPool) res option" where
  "log_at level conf now tid sched file line formatted lt =
     (case formatted of
        None \<Rightarrow> Some (Inl Undefined_Behaviour)
      | Some ret \<Rightarrow> serialize conf now tid sched level file line (takeWhile (\<lambda>c. c \<noteq> CHR 0x00) ret) lt)"

definition Debug where "Debug = log_at DEBUG"
definition Info where "Info = log_at INFO"
definition Warn where "Warn = log_at WARN"
definition Error where "Error = log_at ERROR"
definition Fatal where "Fatal = log_at FATAL"

section \<open>Every sink gets every message\<close>

lemma flush_each_written:
  assumes "\<forall>e \<in> set es. lf_ready e" "\<And>i. env_good (envs i)"
  shows "\<exists>es'. flush_each conf envs data es = Inr es' \<and> (\<forall>e \<in> set es'. lf_ready e)
    \<and> map lf_written es' = map (\<lambda>e. lf_written e @ data) es"
  using assms
proof (induction es arbitrary: envs)
  case (Cons e es)
  obtain e' where e': "LogFlush_Flush conf (envs 0) data e = Inr e'"
    using any_sink.flush_total [of e "envs 0" conf data] Cons.prems by auto
  obtain es' where "flush_each conf (\<lambda>i. envs (Suc i)) data es = Inr es'" "\<forall>e \<in> set es'. lf_ready e"
      "map lf_written es' = map (\<lambda>e. lf_written e @ data) es"
    using Cons.IH [of "\<lambda>i. envs (Suc i)"] Cons.prems by auto
  then show ?case
    using e' any_sink.flush_ready [OF _ e'] any_sink.flush_written [OF _ _ e'] Cons.prems by simp
qed simp

text \<open>
  The runs of a logger: its messages, in the order they are accepted, interleaved with \<open>Stop\<close> and
  with steps of its thread in a good outside.
\<close>

inductive logger_step :: "JsonData \<Rightarrow> string list \<times> AsyncLogger \<times> string ThreadPool \<Rightarrow>
    string list \<times> AsyncLogger \<times> string ThreadPool \<Rightarrow> bool" for conf where
  log: "log_at level conf now tid sched file line formatted (l, tp) = Some (Inr (l', tp')) \<Longrightarrow>
    formatted = Some ret \<Longrightarrow>
    data = LogMessage_format \<lparr>msg_line = line, msg_ctime = now, msg_file_name = file, msg_name = al_name l,
      msg_payload = takeWhile (\<lambda>c. c \<noteq> CHR 0x00) ret, msg_tid = tid, msg_level = level\<rparr> \<Longrightarrow>
    logger_step conf (msgs, l, tp) (msgs @ [data], l', tp')"
| pool: "pool_act enqueue ThreadPool_destroy worker_loop a tp = (ts, es, tp') \<Longrightarrow>
    logger_step conf (msgs, l, tp) (msgs, l, tp')"
| stop: "logger_step conf (msgs, l, tp) (msgs, l\<lparr>al_worker := wk_Stop (al_worker l)\<rparr>, tp)"
| thread: "logger_thread conf envs l = Some (Inr l') \<Longrightarrow> (\<And>i. env_good (envs i)) \<Longrightarrow>
    logger_step conf (msgs, l, tp) (msgs, l', tp)"

inductive logger_reachable :: "JsonData \<Rightarrow> AsyncLogger \<times> string ThreadPool \<Rightarrow>
    string list \<times> AsyncLogger \<times> string ThreadPool \<Rightarrow> bool" for conf s0 where
  init: "logger_reachable conf s0 ([], s0)"
| step: "logger_reachable conf s0 s \<Longrightarrow> logger_step conf s s' \<Longrightarrow> logger_reachable conf s0 s'"

text \<open>The simulation: dropping the sinks, the pool and the cuts between messages gives a run of the worker.\<close>

definition logger_inv :: "JsonData \<Rightarrow> AsyncType \<Rightarrow> LogFlush list \<Rightarrow> string list \<times> AsyncLogger \<times> string ThreadPool \<Rightarrow> bool" where
  "logger_inv conf ty flushs s \<longleftrightarrow> (case s of (msgs, l, tp) \<Rightarrow>
     log_reachable conf ty (concat msgs, al_worker l)
     \<and> (\<forall>e \<in> set (al_flushs l). lf_ready e)
     \<and> map lf_written (al_flushs l) = map (\<lambda>e. lf_written e @ wk_out (al_worker l)) flushs)"

lemma logger_thread_inv:
  assumes "logger_inv conf ty flushs (msgs, l, tp)" "\<And>i. env_good (envs i)" "logger_thread conf envs l = Some r"
  shows "\<exists>l'. r = Inr l' \<and> logger_inv conf ty flushs (msgs, l', tp)"
proof (cases "wk_pc (al_worker l) = Swapped")
  case True
  let ?w = "al_worker l" and ?data = "lb_bytes (wk_consumer (al_worker l))"
  have ready: "\<forall>e \<in> set (al_flushs l). lf_ready e" using assms(1) by (simp add: logger_inv_def)
  obtain es where es: "flush_each conf envs ?data (al_flushs l) = Inr es" "\<forall>e \<in> set es. lf_ready e"
      "map lf_written es = map (\<lambda>e. lf_written e @ ?data) (al_flushs l)"
    using flush_each_written [where conf = conf and data = ?data and envs = envs, OF ready assms(2)] by blast
  then have "RealFlush conf envs (wk_consumer ?w) l = Inr (l\<lparr>al_flushs := es\<rparr>)"
    by (auto simp: RealFlush_def)
  then have r: "r = Inr (l\<lparr>al_flushs := es, al_worker := wk_callback ?w\<rparr>)"
    using assms(3) True by (simp add: logger_thread_def)
  have "map lf_written es = map (\<lambda>x. x @ ?data) (map lf_written (al_flushs l))" using es(3) by simp
  also have "\<dots> = map (\<lambda>x. x @ ?data) (map (\<lambda>e. lf_written e @ wk_out ?w) flushs)"
    using assms(1) by (simp add: logger_inv_def)
  also have "\<dots> = map (\<lambda>e. lf_written e @ wk_out (wk_callback ?w)) flushs" by (simp add: wk_callback_def)
  finally have out: "map lf_written es = map (\<lambda>e. lf_written e @ wk_out (wk_callback ?w)) flushs" .
  have "ThreadEntry ?w = Some (wk_callback ?w)" using True by (simp add: ThreadEntry_def)
  then have "log_reachable conf ty (concat msgs, wk_callback ?w)"
    using assms(1) by (auto simp: logger_inv_def intro: log_reachable.step log_step.thread)
  then show ?thesis using r es out by (simp add: logger_inv_def)
next
  case False
  then obtain w' where w': "ThreadEntry (al_worker l) = Some w'" "r = Inr (l\<lparr>al_worker := w'\<rparr>)"
    using assms(3) by (auto simp: logger_thread_def)
  have "wk_out w' = wk_out (al_worker l)"
    using w'(1) False by (auto simp: ThreadEntry_def wk_swap_def wk_check_def lb_Swap_def split: worker_pc.splits if_splits)
  moreover have "log_reachable conf ty (concat msgs, w')"
    using assms(1) w'(1) by (auto simp: logger_inv_def intro: log_reachable.step log_step.thread)
  ultimately show ?thesis using w' assms(1) by (simp add: logger_inv_def)
qed

lemma wk_Push_out: "wk_Push conf data w = Some (Inr w') \<Longrightarrow> wk_out w' = wk_out w"
  by (auto simp: wk_Push_def cxx_res split: if_splits)

lemma logger_step_inv:
  assumes "logger_step conf s s'" "logger_inv conf ty flushs s"
  shows "logger_inv conf ty flushs s'"
  using assms(1)
proof cases
  case (log level now tid sched fl line formatted l tp l' tp' ret data msgs)
  then obtain w' where w': "wk_Push conf data (al_worker l) = Some (Inr w')" "l' = l\<lparr>al_worker := w'\<rparr>"
    by (auto simp: log_at_def serialize_def Let_def AsyncLogger_Flush_def cxx_res split: option.splits)
  have "log_reachable conf ty (concat msgs @ data, w')"
    using assms(2) log(1) w'(1) by (auto simp: logger_inv_def intro: log_reachable.step log_step.push)
  then show ?thesis using assms(2) log(1,2) w' wk_Push_out [OF w'(1)] by (simp add: logger_inv_def)
next
  case (stop msgs l tp)
  have "log_reachable conf ty (concat msgs, wk_Stop (al_worker l))"
    using assms(2) stop by (auto simp: logger_inv_def intro: log_reachable.step log_step.stop)
  then show ?thesis using assms(2) stop by (simp add: logger_inv_def wk_Stop_def)
next
  case (thread envs l l' msgs tp)
  then show ?thesis using logger_thread_inv [of conf ty flushs msgs l tp envs "Inr l'"] assms(2) by simp
qed (use assms(2) in \<open>auto simp: logger_inv_def\<close>)

lemma logger_reachable_inv:
  assumes "logger_reachable conf (AsyncLogger_new conf name flushs ty, tp) s" "\<forall>e \<in> set flushs. lf_ready e"
  shows "logger_inv conf ty flushs s"
  using assms(1)
proof (induction rule: logger_reachable.induct)
  case init
  then show ?case using assms(2) log_reachable.init [of conf ty] by (simp add: logger_inv_def AsyncLogger_new_def AsyncWorker_new_def)
next
  case (step s s')
  then show ?case using logger_step_inv by blast
qed

text \<open>The thread, run for a number of steps.\<close>

fun run_logger :: "JsonData \<Rightarrow> (nat \<Rightarrow> flush_env) \<Rightarrow> nat \<Rightarrow> AsyncLogger \<Rightarrow> AsyncLogger res" where
  "run_logger conf envs 0 l = Inr l"
| "run_logger conf envs (Suc n) l =
     (case logger_thread conf envs l of None \<Rightarrow> Inr l | Some r \<Rightarrow> bind_res r (run_logger conf envs n))"

lemma logger_thread_worker:
  assumes "logger_thread conf envs l = Some (Inr l')"
  shows "ThreadEntry (al_worker l) = Some (al_worker l')"
  using assms by (auto simp: logger_thread_def RealFlush_def ThreadEntry_def cxx_res split: if_splits)

lemma run_logger_worker:
  assumes "logger_inv conf ty flushs (msgs, l, tp)" "\<And>i. env_good (envs i)"
  shows "\<exists>l'. run_logger conf envs n l = Inr l' \<and> al_worker l' = run_thread n (al_worker l) \<and> logger_inv conf ty flushs (msgs, l', tp)"
  using assms(1)
proof (induction n arbitrary: l)
  case (Suc n)
  show ?case
  proof (cases "logger_thread conf envs l")
    case None
    then have "ThreadEntry (al_worker l) = None" by (auto simp: logger_thread_def split: if_splits)
    then show ?thesis using None Suc.prems by simp
  next
    case (Some r)
    obtain l1 where l1: "r = Inr l1" "logger_inv conf ty flushs (msgs, l1, tp)"
      using logger_thread_inv [OF Suc.prems assms(2) Some] by blast
    then show ?thesis using Some Suc.IH [OF l1(2)] logger_thread_worker [of conf envs l l1] by simp
  qed
qed simp

text \<open>
  C8: Every sink gets every message. In every run of a logger (messages of any level from any number
  of callers, interleaved with its thread), what each of its sinks has received beyond what it
  held at first is a prefix of the messages accepted so far, in the order they were accepted;
  and once \<open>Stop\<close> has been called, five steps of the thread complete it: each sink then holds all
  the messages, whole, once and in order.
\<close>

theorem logger_sinks_complete:
  assumes "logger_reachable conf (AsyncLogger_new conf name flushs ty, tp) (msgs, l, tp')"
    and "\<forall>e \<in> set flushs. lf_ready e" "\<And>i. env_good (envs i)"
  shows "(\<exists>out rest. concat msgs = out @ rest \<and> map lf_written (al_flushs l) = map (\<lambda>e. lf_written e @ out) flushs)
    \<and> (wk_stop (al_worker l) \<and> wk_pc (al_worker l) \<noteq> Returned \<longrightarrow>
        (\<exists>l'. run_logger conf envs 5 l = Inr l' \<and> wk_pc (al_worker l') = Returned
          \<and> map lf_written (al_flushs l') = map (\<lambda>e. lf_written e @ concat msgs) flushs))"
proof -
  have inv: "logger_inv conf ty flushs (msgs, l, tp')" by (rule logger_reachable_inv [OF assms(1,2)])
  then have r: "log_reachable conf ty (concat msgs, al_worker l)"
      and w: "map lf_written (al_flushs l) = map (\<lambda>e. lf_written e @ wk_out (al_worker l)) flushs"
    by (simp_all add: logger_inv_def)
  have "concat msgs = wk_out (al_worker l) @ lb_bytes (wk_consumer (al_worker l)) @ lb_bytes (wk_productor (al_worker l))"
    using log_reachable_inv [OF r] by (simp add: log_inv_def)
  then have prefix: "\<exists>out rest. concat msgs = out @ rest \<and> map lf_written (al_flushs l) = map (\<lambda>e. lf_written e @ out) flushs"
    using w by blast
  obtain l' where l': "run_logger conf envs 5 l = Inr l'" "al_worker l' = run_thread 5 (al_worker l)"
      "logger_inv conf ty flushs (msgs, l', tp')"
    using run_logger_worker [where envs = envs and n = 5, OF inv assms(3)] by blast
  have "wk_pc (al_worker l') = Returned \<and> map lf_written (al_flushs l') = map (\<lambda>e. lf_written e @ concat msgs) flushs"
    if "wk_stop (al_worker l)" "wk_pc (al_worker l) \<noteq> Returned"
    using stop_drain_steps [OF r that] l'(2,3) by (simp add: logger_inv_def)
  with prefix l'(1) show ?thesis by blast
qed

theorem logger_sinks_complete_witness:
  "\<exists>l'. run_logger small_conf (\<lambda>_. some_env) 5
      ((AsyncLogger_new small_conf ''x'' [Stdout ''old''] ASYNC_SAFE)\<lparr>al_worker := wk_Stop (AsyncWorker_new small_conf ASYNC_SAFE)\<rparr>) = Inr l'
    \<and> map lf_written (al_flushs l') = [''old'']"
proof -
  let ?l = "AsyncLogger_new small_conf ''x'' [Stdout ''old''] ASYNC_SAFE"
  have r: "logger_reachable small_conf (?l, ThreadPool_new 1) ([], ?l\<lparr>al_worker := wk_Stop (al_worker ?l)\<rparr>, ThreadPool_new 1)"
    by (rule logger_reachable.step [OF logger_reachable.init]) (rule logger_step.stop)
  have g: "\<And>i::nat. env_good some_env" by (simp add: env_good_def some_env_def)
  have ready: "\<forall>e \<in> set [Stdout ''old'']. lf_ready e" by simp
  from logger_sinks_complete [OF r ready g] show ?thesis
    by (auto simp: AsyncLogger_new_def wk_Stop_def AsyncWorker_new_def)
qed

section \<open>Building and finding loggers\<close>

record LoggerBuilder =
  bd_logger_name :: string
  bd_flushs :: "LogFlush list"
  bd_async_type :: AsyncType

definition LoggerBuilder_new :: LoggerBuilder where
  "LoggerBuilder_new = \<lparr>bd_logger_name = ''async_logger'', bd_flushs = [], bd_async_type = ASYNC_SAFE\<rparr>"

definition BuildLoggerName :: "string \<Rightarrow> LoggerBuilder \<Rightarrow> LoggerBuilder" where
  "BuildLoggerName name b = b\<lparr>bd_logger_name := name\<rparr>"

definition BuildLopperType :: "AsyncType \<Rightarrow> LoggerBuilder \<Rightarrow> LoggerBuilder" where
  "BuildLopperType ty b = b\<lparr>bd_async_type := ty\<rparr>"

definition BuildLoggerFlush :: "LogFlush \<Rightarrow> LoggerBuilder \<Rightarrow> LoggerBuilder" where
  "BuildLoggerFlush e b = b\<lparr>bd_flushs := bd_flushs b @ [e]\<rparr>"

definition Build :: "JsonData \<Rightarrow> LoggerBuilder \<Rightarrow> (AsyncLogger \<times> LoggerBuilder) res" where
  "Build conf b =
     bind_res (assert_res (bd_logger_name b \<noteq> []))
       (\<lambda>_. let b1 = (if bd_flushs b = [] then b\<lparr>bd_flushs := [Stdout []]\<rparr> else b) in
            Inr (AsyncLogger_new conf (bd_logger_name b1) (bd_flushs b1) (bd_async_type b1), b1))"

text \<open>A built logger has a sink: with none chosen it logs to the standard output.\<close>

lemma Build_has_sink: "Build conf b = Inr (l, b') \<Longrightarrow> al_flushs l \<noteq> [] \<and> al_name l = bd_logger_name b"
  by (auto simp: Build_def AsyncLogger_new_def cxx_res Let_def assert_res_def split: if_splits)

text \<open>
  The registry holds pointers to loggers, of which it reads the name only: the argument
  \<open>Name\<close>. \<open>AddLogger\<close> asks and inserts under two separate locks; \<open>insert\<close> keeps an entry that
  is there.
\<close>

record 'l LoggerManager =
  mg_default_logger :: 'l
  mg_loggers :: "string \<Rightarrow> 'l option"

definition LoggerManager_new :: "'l \<Rightarrow> 'l LoggerManager" where
  "LoggerManager_new default_logger =
     \<lparr>mg_default_logger = default_logger, mg_loggers = [''default'' \<mapsto> default_logger]\<rparr>"

definition LoggerExist :: "string \<Rightarrow> 'l LoggerManager \<Rightarrow> bool" where
  "LoggerExist name m \<longleftrightarrow> mg_loggers m name \<noteq> None"

definition map_insert :: "string \<Rightarrow> 'l \<Rightarrow> (string \<Rightarrow> 'l option) \<Rightarrow> string \<Rightarrow> 'l option" where
  "map_insert k v m = (if m k = None then m(k \<mapsto> v) else m)"

definition AddLogger :: "('l \<Rightarrow> string) \<Rightarrow> 'l \<Rightarrow> 'l LoggerManager \<Rightarrow> 'l LoggerManager" where
  "AddLogger Name l m =
     (if LoggerExist (Name l) m then m else m\<lparr>mg_loggers := map_insert (Name l) l (mg_loggers m)\<rparr>)"

definition GetLogger :: "string \<Rightarrow> 'l LoggerManager \<Rightarrow> 'l option" where
  "GetLogger name m = mg_loggers m name"

definition DefaultLogger :: "'l LoggerManager \<Rightarrow> 'l" where
  "DefaultLogger m = mg_default_logger m"

lemma GetLogger_fold:
  "GetLogger name (fold (AddLogger Name) ls m) =
     (case GetLogger name m of Some l \<Rightarrow> Some l | None \<Rightarrow> find (\<lambda>l. Name l = name) ls)"
proof (induction ls arbitrary: m)
  case (Cons l ls)
  then show ?case
    by (auto simp: AddLogger_def LoggerExist_def GetLogger_def map_insert_def split: option.splits)
qed (auto split: option.splits)

text \<open>
  A name is taken once. After any sequence of \<open>AddLogger\<close> calls on a new manager, \<open>GetLogger\<close>
  finds for \<open>default\<close> the logger the manager was created with, which is also \<open>DefaultLogger\<close>, and
  for any other name the first logger added under it, and nothing when there is none.
\<close>

theorem GetLogger_first_added:
  "GetLogger name (fold (AddLogger Name) ls (LoggerManager_new d)) =
     (if name = ''default'' then Some d else find (\<lambda>l. Name l = name) ls)
   \<and> DefaultLogger (fold (AddLogger Name) ls (LoggerManager_new d)) = d"
proof -
  have "mg_default_logger (fold (AddLogger Name) ls m) = mg_default_logger m" for m
    by (induction ls arbitrary: m) (simp_all add: AddLogger_def)
  then show ?thesis
    by (simp add: GetLogger_fold LoggerManager_new_def GetLogger_def [of _ "LoggerManager.make _ _"] DefaultLogger_def)
       (simp add: GetLogger_def)
qed

section \<open>The remote backup\<close>

text \<open>
  The sending end, \<open>start_backup\<close>: \<open>connects i\<close> says whether the \<open>i\<close>-th call of \<open>connect\<close> succeeds and
  \<open>write_ret\<close> how many bytes \<open>write\<close> takes (\<open>None\<close> for an error). The result is the number of
  calls of \<open>connect\<close> and the bytes sent.
\<close>

function (sequential) connect_loop :: "(nat \<Rightarrow> bool) \<Rightarrow> int \<Rightarrow> nat \<Rightarrow> bool \<times> nat" where
  "connect_loop connects cnt i =
     (if connects i then (True, i + 1)
      else if cnt - 1 \<le> 0 then (False, i + 1)
      else connect_loop connects (cnt - 1) (i + 1))"
  by pat_completeness auto
termination by (relation "measure (\<lambda>(_, cnt, _). nat cnt)") auto

declare connect_loop.simps [simp del]

definition start_backup :: "(nat \<Rightarrow> bool) \<Rightarrow> nat option \<Rightarrow> string \<Rightarrow> nat \<times> string" where
  "start_backup connects write_ret message =
     (case connect_loop connects 5 0 of
        (False, n) \<Rightarrow> (n, [])
      | (True, n) \<Rightarrow> (n, (case write_ret of None \<Rightarrow> [] | Some k \<Rightarrow> take k message)))"

lemma connect_loop_five:
  "connect_loop connects 5 0 = (case find connects [0, 1, 2, 3, 4] of None \<Rightarrow> (False, 5) | Some i \<Rightarrow> (True, i + 1))"
  by (simp add: connect_loop.simps [of _ 5] connect_loop.simps [of _ 4] connect_loop.simps [of _ 3] connect_loop.simps [of _ 2]
      connect_loop.simps [of _ 1] numeral_eq_Suc)

text \<open>
  The receiving end. \<open>service\<close> reads once into an array of 1024 bytes and puts a zero after what
  it read; \<open>received\<close> is what \<open>read\<close> returned, \<open>None\<close> for an error. The text goes to the callback.
\<close>

definition service :: "string option \<Rightarrow> string \<Rightarrow> string option res" where
  "service received client_info =
     (case received of
        None \<Rightarrow> Inr None
      | Some buf \<Rightarrow>
          if buf = [] then Inr None
          else if length buf < 1024 then Inr (Some (client_info @ takeWhile (\<lambda>c. c \<noteq> CHR 0x00) buf))
          else Inl Undefined_Behaviour)"

text \<open>\<open>threadRoutine\<close> names the client; \<open>backup_log\<close>, the callback, appends to the log file.\<close>

definition backup_log :: "bool \<Rightarrow> nat \<Rightarrow> string \<Rightarrow> string \<Rightarrow> string res" where
  "backup_log can_open write_byte message logfile =
     bind_res (assert_res can_open)
       (\<lambda>_. bind_res (assert_res (write_byte = length message)) (\<lambda>_. Inr (logfile @ message)))"

definition threadRoutine ::
  "bool \<Rightarrow> nat \<Rightarrow> string option \<Rightarrow> string \<Rightarrow> nat \<Rightarrow> string \<Rightarrow> string res" where
  "threadRoutine can_open write_byte received client_ip client_port logfile =
     bind_res (service received (client_ip @ '':'' @ string_of_nat client_port))
       (\<lambda>r. case r of None \<Rightarrow> Inr logfile | Some message \<Rightarrow> backup_log can_open write_byte message logfile)"

text \<open>
  The backup of an error. When one of the first five attempts to connect succeeds and the socket
  carries the message in one piece, the backup file grows by the client's address and the whole
  message, provided the message is shorter than 1024 bytes and has no zero byte; from 1024 bytes
  on (what \<open>read\<close> then returns is 1024 bytes) the receiver writes outside its array. With five
  failed attempts nothing is sent.
\<close>

theorem backup_delivers:
  assumes "write_ret = Some (length message)" "message \<noteq> []" "CHR 0x00 \<notin> set message"
  shows "start_backup connects write_ret message =
      (case find connects [0, 1, 2, 3, 4] of None \<Rightarrow> (5, []) | Some i \<Rightarrow> (i + 1, message))
    \<and> threadRoutine True (length ip + 1 + length (string_of_nat port) + length message) (Some (take 1024 message)) ip port logfile =
      (if length message < 1024 then Inr (logfile @ ip @ '':'' @ string_of_nat port @ message)
       else Inl Undefined_Behaviour)"
proof
  show "start_backup connects write_ret message =
      (case find connects [0, 1, 2, 3, 4] of None \<Rightarrow> (5, []) | Some i \<Rightarrow> (i + 1, message))"
    using assms(1) by (auto simp: start_backup_def connect_loop_five split: option.splits)
  have tw: "takeWhile (\<lambda>c. c \<noteq> CHR 0x00) message = message"
    using assms(3) by (induction message) auto
  then show "threadRoutine True (length ip + 1 + length (string_of_nat port) + length message) (Some (take 1024 message)) ip port logfile =
      (if length message < 1024 then Inr (logfile @ ip @ '':'' @ string_of_nat port @ message) else Inl Undefined_Behaviour)"
    using assms(2) by (simp add: threadRoutine_def service_def backup_log_def tw)
qed

theorem backup_delivers_witness:
  "start_backup (\<lambda>i. i = 2) (Some 2) ''hi'' = (3, ''hi'')
   \<and> threadRoutine True 5 (Some ''hi'') ''a'' 7 [] = Inr ''a:7hi''"
proof -
  have "string_of_nat 7 = ''7''" by code_simp
  then show ?thesis
    using backup_delivers [of "Some 2" "''hi''" "\<lambda>i. i = 2" "''a''" 7 "[]"] by (simp add: numeral_eq_Suc)
qed

end
