(* ===== verification/Timer.thy ===== *)
theory Timer
  imports Prelude "HOL-Library.Multiset"
begin

text \<open>
  The timer heap (\<open>code/timer/timer.hpp\<close>, \<open>code/timer/timer.cpp\<close>). Times are nanoseconds of
  the steady clock, as integers; a callback is known by the value given to \<open>add\<close>, and running
  callbacks is the list of those run. The lemmas show that the heap order holds under every
  operation, which order that is, and what follows for \<open>tick\<close>; that \<open>add\<close> keeps the index exact;
  and how deleting breaks it.
\<close>

section \<open>The code\<close>

record 'c timerNode =
  timer_id :: int
  expires :: int
  cb :: 'c

definition node_less :: "'c timerNode \<Rightarrow> 'c timerNode \<Rightarrow> bool" where
  "node_less a b \<longleftrightarrow> expires a > expires b"

record 'c timer =
  heap :: "'c timerNode list"
  ref :: "int \<Rightarrow> nat option"

definition timer_new :: "'c timer" where
  "timer_new = \<lparr>heap = [], ref = Map.empty\<rparr>"

definition swapNode :: "nat \<Rightarrow> nat \<Rightarrow> 'c timer \<Rightarrow> 'c timer" where
  "swapNode i j t =
     (let h = (heap t)[i := heap t ! j, j := heap t ! i] in
      \<lparr>heap = h, ref = (ref t)(timer_id (h ! i) \<mapsto> i, timer_id (h ! j) \<mapsto> j)\<rparr>)"

lemma heap_swapNode: "heap (swapNode i j t) = (heap t)[i := heap t ! j, j := heap t ! i]"
  by (simp add: swapNode_def Let_def)

lemma length_swapNode [simp]: "length (heap (swapNode i j t)) = length (heap t)"
  by (simp add: heap_swapNode)

text \<open>The loops of \<open>siftup_\<close> and \<open>siftdown_\<close>; \<open>siftdown_\<close> also returns whether the node moved.\<close>

fun siftup_loop :: "nat \<Rightarrow> 'c timer \<Rightarrow> 'c timer" where
  "siftup_loop i t =
     (if i > 0
      then (let parent = (i - 1) div 2 in
            if node_less (heap t ! parent) (heap t ! i) then t
            else siftup_loop parent (swapNode i parent t))
      else t)"

declare siftup_loop.simps [simp del]

definition siftup :: "nat \<Rightarrow> 'c timer \<Rightarrow> 'c timer res" where
  "siftup i t = bind_res (assert_res (i < length (heap t))) (\<lambda>_. Inr (siftup_loop i t))"

function (sequential) siftdown_loop :: "nat \<Rightarrow> nat \<Rightarrow> 'c timer \<Rightarrow> nat \<times> 'c timer" where
  "siftdown_loop i n t =
     (let j = i * 2 + 1 in
      if j < n
      then (let j = (if j + 1 < n \<and> node_less (heap t ! (j + 1)) (heap t ! j) then j + 1 else j) in
            if node_less (heap t ! i) (heap t ! j) then (i, t)
            else siftdown_loop j n (swapNode i j t))
      else (i, t))"
  by pat_completeness auto
termination by (relation "measure (\<lambda>(i, n, _). n - i)") auto

declare siftdown_loop.simps [simp del]

definition siftdown :: "nat \<Rightarrow> nat \<Rightarrow> 'c timer \<Rightarrow> (bool \<times> 'c timer) res" where
  "siftdown index n t =
     bind_res (assert_res (index < length (heap t)))
       (\<lambda>_. case siftdown_loop index n t of (i, t') \<Rightarrow> Inr (i > index, t'))"

text \<open>The pair of calls \<open>if (!siftdown_(i, heap_.size())) siftup_(i)\<close>.\<close>

definition sift :: "nat \<Rightarrow> 'c timer \<Rightarrow> 'c timer res" where
  "sift i t =
     bind_res (siftdown i (length (heap t)) t)
       (\<lambda>r. case r of (moved, t') \<Rightarrow> if moved then Inr t' else siftup i t')"

text \<open>An index outside the heap is undefined.\<close>

definition add :: "int \<Rightarrow> int \<Rightarrow> int \<Rightarrow> 'c \<Rightarrow> 'c timer \<Rightarrow> 'c timer res" where
  "add now i timeout c t =
     bind_res (assert_res (i \<ge> 0))
       (\<lambda>_. case ref t i of
              None \<Rightarrow>
                (let n = length (heap t) in
                 siftup n (t\<lparr>ref := (ref t)(i \<mapsto> n),
                             heap := heap t @ [\<lparr>timer_id = i, expires = now + timeout * 1000000, cb = c\<rparr>]\<rparr>))
            | Some k \<Rightarrow>
                if k < length (heap t)
                then sift k (t\<lparr>heap := (heap t)[k := (heap t ! k)\<lparr>expires := now + timeout * 1000000, cb := c\<rparr>]\<rparr>)
                else Inl Undefined_Behaviour)"

definition del :: "nat \<Rightarrow> 'c timer \<Rightarrow> 'c timer res" where
  "del index t =
     bind_res (assert_res (heap t \<noteq> [] \<and> index < length (heap t)))
       (\<lambda>_. let n = length (heap t) - 1 in
            if index < n
            then (let t1 = swapNode index n t;
                      t2 = t1\<lparr>heap := butlast (heap t1)\<rparr>;
                      t3 = t2\<lparr>ref := (ref t2)(timer_id (heap t2 ! index) := None)\<rparr> in
                  sift index t3)
            else Inr (t\<lparr>ref := (ref t)(timer_id (last (heap t)) := None), heap := butlast (heap t)\<rparr>))"

definition doWork :: "int \<Rightarrow> 'c timer \<Rightarrow> ('c list \<times> 'c timer) res" where
  "doWork i t =
     (if heap t = [] then Inr ([], t)
      else (case ref t i of
              None \<Rightarrow> Inr ([], t)
            | Some k \<Rightarrow>
                if k < length (heap t)
                then bind_res (del k t) (\<lambda>t'. Inr ([cb (heap t ! k)], t'))
                else Inl Undefined_Behaviour))"

definition pop :: "'c timer \<Rightarrow> 'c timer res" where
  "pop t = del 0 t"

text \<open>\<open>duration_cast<ms>\<close> truncates.\<close>

definition duration_ms :: "int \<Rightarrow> int" where
  "duration_ms d = (if d < 0 then - ((- d) div 1000000) else d div 1000000)"

lemma duration_ms_pos: "duration_ms d > 0 \<longleftrightarrow> d \<ge> 1000000"
  by (auto simp: duration_ms_def pos_imp_zdiv_pos_iff)

text \<open>
  The loop of \<open>tick\<close>; \<open>nows k\<close> is what the clock shows in turn \<open>k\<close>. Every turn that goes on takes
  a node from the heap, so as many turns as there are nodes are enough.
\<close>

fun tick_loop :: "nat \<Rightarrow> (nat \<Rightarrow> int) \<Rightarrow> 'c timer \<Rightarrow> ('c list \<times> 'c timer) res" where
  "tick_loop 0 nows t = Inr ([], t)"
| "tick_loop (Suc k) nows t =
     (if heap t = [] then Inr ([], t)
      else if duration_ms (expires (hd (heap t)) - nows 0) > 0 then Inr ([], t)
      else bind_res (pop t)
             (\<lambda>t'. bind_res (tick_loop k (\<lambda>n. nows (Suc n)) t')
                     (\<lambda>r. case r of (fired, t'') \<Rightarrow> Inr (cb (hd (heap t)) # fired, t''))))"

definition tick :: "(nat \<Rightarrow> int) \<Rightarrow> 'c timer \<Rightarrow> ('c list \<times> 'c timer) res" where
  "tick nows t = tick_loop (length (heap t)) nows t"

definition clear :: "'c timer \<Rightarrow> 'c timer" where
  "clear t = \<lparr>heap = [], ref = Map.empty\<rparr>"

definition getNextTick :: "(nat \<Rightarrow> int) \<Rightarrow> int \<Rightarrow> 'c timer \<Rightarrow> (int \<times> 'c list \<times> 'c timer) res" where
  "getNextTick nows now t =
     bind_res (tick nows t)
       (\<lambda>r. case r of (fired, t') \<Rightarrow>
          if heap t' \<noteq> [] then Inr (- 1, fired, t')
          else Inl Undefined_Behaviour)"

section \<open>Heap order\<close>

text \<open>
  No node expires later than its parent: the front is the node that expires last.
\<close>

definition heap_ok :: "'c timerNode list \<Rightarrow> bool" where
  "heap_ok h \<longleftrightarrow> (\<forall>k. 0 < k \<and> k < length h \<longrightarrow> expires (h ! k) \<le> expires (h ! ((k - 1) div 2)))"

text \<open>The order holds but for node \<open>i\<close> and its parent, and the children of \<open>i\<close> are in order with that parent.\<close>

definition up_ok :: "nat \<Rightarrow> 'c timerNode list \<Rightarrow> bool" where
  "up_ok i h \<longleftrightarrow> i < length h
     \<and> (\<forall>k. 0 < k \<and> k < length h \<and> k \<noteq> i \<longrightarrow> expires (h ! k) \<le> expires (h ! ((k - 1) div 2)))
     \<and> (\<forall>k. 0 < i \<and> k < length h \<and> 0 < k \<and> (k - 1) div 2 = i \<longrightarrow> expires (h ! k) \<le> expires (h ! ((i - 1) div 2)))"

lemma siftup_loop_0 [simp]: "siftup_loop 0 t = t"
  by (simp add: siftup_loop.simps)

lemma up_ok_done:
  assumes "up_ok i h" "i > 0 \<Longrightarrow> node_less (h ! ((i - 1) div 2)) (h ! i)"
  shows "heap_ok h"
  unfolding heap_ok_def
proof (intro allI impI)
  fix k assume "0 < k \<and> k < length h"
  then show "expires (h ! k) \<le> expires (h ! ((k - 1) div 2))"
    using assms by (cases "k = i") (auto simp: up_ok_def node_less_def)
qed

text \<open>Exchanging a node with its parent moves the one place where the order may fail to the parent.\<close>

lemma up_ok_swap:
  assumes "up_ok i (heap t)" "0 < i" "\<not> node_less (heap t ! ((i - 1) div 2)) (heap t ! i)" "p = (i - 1) div 2"
  shows "up_ok p (heap (swapNode i p t))"
proof -
  let ?h = "heap t" and ?h' = "heap (swapNode i p t)"
  have i: "i < length ?h" "p < i" "p < length ?h" using assms(1,2,4) by (auto simp: up_ok_def)
  have at: "?h' ! k = (if k = p then ?h ! i else if k = i then ?h ! p else ?h ! k)" if "k < length ?h" for k
    using that i by (auto simp: heap_swapNode nth_list_update)
  have le: "expires (?h ! p) \<le> expires (?h ! i)" using assms(3,4) by (simp add: node_less_def)
  have rest: "expires (?h ! k) \<le> expires (?h ! ((k - 1) div 2))" if "0 < k" "k < length ?h" "k \<noteq> i" for k
    using assms(1) that by (simp add: up_ok_def)
  have kids: "expires (?h ! k) \<le> expires (?h ! p)" if "0 < k" "k < length ?h" "(k - 1) div 2 = i" for k
    using assms(1,2,4) that by (simp add: up_ok_def)
  show ?thesis unfolding up_ok_def
  proof (intro conjI allI impI)
    show "p < length ?h'" using i by simp
  next
    fix k assume k: "0 < k \<and> k < length ?h' \<and> k \<noteq> p"
    define q where "q = (k - 1) div 2"
    have b: "k < length ?h" "q < length ?h" using k by (auto simp: q_def)
    have "expires (?h ! k) \<le> expires (?h ! q)" if "k \<noteq> i" using rest [of k] k that by (simp add: q_def)
    moreover have "k = i \<Longrightarrow> q = p" by (simp add: q_def assms(4))
    moreover have "expires (?h ! k) \<le> expires (?h ! p)" if "q = i" using kids [of k] k that by (simp add: q_def)
    ultimately have "expires (?h' ! k) \<le> expires (?h' ! q)"
      using k b le i unfolding at [OF b(1)] at [OF b(2)] by (auto split: if_splits)
    then show "expires (?h' ! k) \<le> expires (?h' ! ((k - 1) div 2))" by (simp add: q_def)
  next
    fix k assume k: "0 < p \<and> k < length ?h' \<and> 0 < k \<and> (k - 1) div 2 = p"
    define g where "g = (p - 1) div 2"
    have "(x - 1) div 2 < x" if "0 < x" for x :: nat using that by auto
    then have "g < p" using k unfolding g_def by blast
    then have b: "k < length ?h" "g < length ?h" "g < p" "k \<noteq> p" using k i by auto
    have "expires (?h ! p) \<le> expires (?h ! g)" using rest [of p] k b i by (simp add: g_def)
    moreover have "expires (?h ! k) \<le> expires (?h ! p)" if "k \<noteq> i" using rest [of k] k that by auto
    ultimately have "expires (?h' ! k) \<le> expires (?h' ! g)"
      using b i unfolding at [OF b(1)] at [OF b(2)] by (auto split: if_splits)
    then show "expires (?h' ! k) \<le> expires (?h' ! ((p - 1) div 2))" by (simp add: g_def)
  qed
qed

lemma siftup_loop_ok: "up_ok i (heap t) \<Longrightarrow> heap_ok (heap (siftup_loop i t))"
proof (induction i t rule: siftup_loop.induct)
  case (1 i t)
  show ?case
  proof (cases "i > 0 \<and> \<not> node_less (heap t ! ((i - 1) div 2)) (heap t ! i)")
    case True
    then show ?thesis using 1(1) [OF _ refl] up_ok_swap [OF 1(2) _ _ refl] by (simp add: siftup_loop.simps [of i] Let_def)
  next
    case False
    then have "siftup_loop i t = t" by (auto simp: siftup_loop.simps [of i] Let_def)
    moreover have "heap_ok (heap t)" by (rule up_ok_done [OF 1(2)]) (use False in simp)
    ultimately show ?thesis by simp
  qed
qed

text \<open>
  For sifting down: the order holds but for node \<open>i\<close> and its neighbours (\<open>mid_ok\<close>), or but for \<open>i\<close>
  and its children (\<open>down_ok\<close>); in both the children are in order with the parent of \<open>i\<close>.
\<close>

definition mid_ok :: "nat \<Rightarrow> 'c timerNode list \<Rightarrow> bool" where
  "mid_ok i h \<longleftrightarrow> i < length h
     \<and> (\<forall>k. 0 < k \<and> k < length h \<and> k \<noteq> i \<and> (k - 1) div 2 \<noteq> i \<longrightarrow> expires (h ! k) \<le> expires (h ! ((k - 1) div 2)))
     \<and> (\<forall>k. 0 < i \<and> k < length h \<and> 0 < k \<and> (k - 1) div 2 = i \<longrightarrow> expires (h ! k) \<le> expires (h ! ((i - 1) div 2)))"

definition down_ok :: "nat \<Rightarrow> 'c timerNode list \<Rightarrow> bool" where
  "down_ok i h \<longleftrightarrow> mid_ok i h \<and> (0 < i \<longrightarrow> expires (h ! i) \<le> expires (h ! ((i - 1) div 2)))"

lemma heap_ok_mid: "heap_ok h \<Longrightarrow> i < length h \<Longrightarrow> mid_ok i (h[i := x])"
  unfolding mid_ok_def heap_ok_def
proof (intro conjI allI impI)
  assume ok: "\<forall>k. 0 < k \<and> k < length h \<longrightarrow> expires (h ! k) \<le> expires (h ! ((k - 1) div 2))" and i: "i < length h"
  then show "i < length (h[i := x])" by simp
  fix k
  show "expires (h[i := x] ! k) \<le> expires (h[i := x] ! ((k - 1) div 2))"
    if "0 < k \<and> k < length (h[i := x]) \<and> k \<noteq> i \<and> (k - 1) div 2 \<noteq> i"
    using ok that by simp
  show "expires (h[i := x] ! k) \<le> expires (h[i := x] ! ((i - 1) div 2))"
    if k: "0 < i \<and> k < length (h[i := x]) \<and> 0 < k \<and> (k - 1) div 2 = i"
  proof -
    have "expires (h ! k) \<le> expires (h ! i)" "expires (h ! i) \<le> expires (h ! ((i - 1) div 2))"
      using ok k i by auto
    moreover have "k \<noteq> i" "(i - 1) div 2 \<noteq> i" using k by auto
    ultimately show ?thesis by simp
  qed
qed

definition max_child :: "nat \<Rightarrow> 'c timerNode list \<Rightarrow> nat" where
  "max_child i h =
     (if i * 2 + 1 + 1 < length h \<and> node_less (h ! (i * 2 + 1 + 1)) (h ! (i * 2 + 1)) then i * 2 + 1 + 1 else i * 2 + 1)"

lemma max_child_props:
  assumes "i * 2 + 1 < length h"
  shows "max_child i h < length h" "i < max_child i h" "(max_child i h - 1) div 2 = i"
    and "\<And>k. 0 < k \<Longrightarrow> k < length h \<Longrightarrow> (k - 1) div 2 = i \<Longrightarrow> expires (h ! k) \<le> expires (h ! max_child i h)"
proof -
  show "max_child i h < length h" "i < max_child i h" "(max_child i h - 1) div 2 = i"
    using assms by (auto simp: max_child_def)
  fix k assume "0 < k" "k < length h" "(k - 1) div 2 = i"
  then have "k = i * 2 + 1 \<or> k = i * 2 + 1 + 1" by auto
  then show "expires (h ! k) \<le> expires (h ! max_child i h)"
    using \<open>k < length h\<close> by (auto simp: max_child_def node_less_def)
qed

lemma siftdown_loop_unfold:
  assumes "length (heap t) = n"
  shows "siftdown_loop i n t =
    (if i * 2 + 1 < n \<and> \<not> node_less (heap t ! i) (heap t ! max_child i (heap t))
     then siftdown_loop (max_child i (heap t)) n (swapNode i (max_child i (heap t)) t) else (i, t))"
  using assms by (subst siftdown_loop.simps) (auto simp: max_child_def Let_def)

lemma sift_step:
  assumes "mid_ok i (heap t)" "i * 2 + 1 < length (heap t)"
    and "\<not> node_less (heap t ! i) (heap t ! max_child i (heap t))"
  shows "down_ok (max_child i (heap t)) (heap (swapNode i (max_child i (heap t)) t))"
proof -
  let ?h = "heap t" and ?j = "max_child i (heap t)"
  let ?h' = "heap (swapNode i ?j t)"
  note c = max_child_props [OF assms(2)]
  have i: "i < length ?h" using assms(1) by (simp add: mid_ok_def)
  have at: "?h' ! k = (if k = i then ?h ! ?j else if k = ?j then ?h ! i else ?h ! k)" if "k < length ?h" for k
    using that i c(1) by (auto simp: heap_swapNode nth_list_update)
  have le: "expires (?h ! i) \<le> expires (?h ! ?j)" using assms(3) by (simp add: node_less_def)
  have rest: "expires (?h ! k) \<le> expires (?h ! ((k - 1) div 2))" if "0 < k" "k < length ?h" "k \<noteq> i" "(k - 1) div 2 \<noteq> i" for k
    using assms(1) that by (simp add: mid_ok_def)
  have grand: "expires (?h ! ?j) \<le> expires (?h ! ((i - 1) div 2))" if "0 < i"
    using assms(1) that c by (simp add: mid_ok_def)
  show ?thesis unfolding down_ok_def mid_ok_def
  proof (intro conjI allI impI)
    show "?j < length ?h'" using c(1) by simp
  next
    fix k assume k: "0 < k \<and> k < length ?h' \<and> k \<noteq> ?j \<and> (k - 1) div 2 \<noteq> ?j"
    let ?q = "(k - 1) div 2"
    have b: "k < length ?h" "?q < k" "?q < length ?h" using k by auto
    show "expires (?h' ! k) \<le> expires (?h' ! ?q)"
    proof (cases "k = i")
      case True
      then show ?thesis using k b grand by (auto simp: at)
    next
      case False
      then show ?thesis using k b rest [of k] c(4) [of k] by (auto simp: at)
    qed
  next
    fix k assume k: "0 < ?j \<and> k < length ?h' \<and> 0 < k \<and> (k - 1) div 2 = ?j"
    then have "k \<noteq> i" "k \<noteq> ?j" using c(2) by auto
    then show "expires (?h' ! k) \<le> expires (?h' ! ((?j - 1) div 2))"
      using k rest [of k] c(2,3) i by (auto simp: at)
  next
    show "expires (?h' ! ?j) \<le> expires (?h' ! ((?j - 1) div 2))"
      using c(1,2,3) i le by (simp add: at)
  qed
qed

lemma down_stops:
  assumes "mid_ok i h" "\<not> (i * 2 + 1 < length h \<and> \<not> node_less (h ! i) (h ! max_child i h))"
  shows "up_ok i h"
proof -
  have kids: "expires (h ! k) \<le> expires (h ! i)" if k: "0 < k" "k < length h" "(k - 1) div 2 = i" for k
  proof -
    have "i * 2 + 1 < length h" using k by auto
    then show ?thesis using max_child_props(4) [of i h k] k assms(2) by (auto simp: node_less_def)
  qed
  show ?thesis unfolding up_ok_def
  proof (intro conjI allI impI)
    fix k assume k: "0 < k \<and> k < length h \<and> k \<noteq> i"
    then show "expires (h ! k) \<le> expires (h ! ((k - 1) div 2))"
      using assms(1) kids by (cases "(k - 1) div 2 = i") (auto simp: mid_ok_def)
  qed (use assms(1) in \<open>auto simp: mid_ok_def\<close>)
qed

lemma up_ok_heap_ok:
  assumes "up_ok i h" "0 < i \<longrightarrow> expires (h ! i) \<le> expires (h ! ((i - 1) div 2))"
  shows "heap_ok h"
  unfolding heap_ok_def
proof (intro allI impI)
  fix k assume "0 < k \<and> k < length h"
  then show "expires (h ! k) \<le> expires (h ! ((k - 1) div 2))"
    using assms by (cases "k = i") (auto simp: up_ok_def)
qed

lemma siftdown_loop_down:
  "down_ok i (heap t) \<Longrightarrow> n = length (heap t) \<Longrightarrow> heap_ok (heap (snd (siftdown_loop i n t))) \<and> i \<le> fst (siftdown_loop i n t)"
proof (induction "n - i" arbitrary: i t rule: less_induct)
  case less
  let ?j = "max_child i (heap t)"
  show ?case
  proof (cases "i * 2 + 1 < n \<and> \<not> node_less (heap t ! i) (heap t ! ?j)")
    case True
    note c = max_child_props [of i "heap t"]
    have "down_ok ?j (heap (swapNode i ?j t))"
      using sift_step True less.prems by (auto simp: down_ok_def)
    moreover have "i < ?j" "?j < n" using c(1,2) True less.prems(2) by simp_all
    ultimately have "heap_ok (heap (snd (siftdown_loop ?j n (swapNode i ?j t)))) \<and> ?j \<le> fst (siftdown_loop ?j n (swapNode i ?j t))"
      using less.hyps [of ?j "swapNode i ?j t"] less.prems(2) by simp
    then show ?thesis using True \<open>i < ?j\<close> siftdown_loop_unfold [of t n i] less.prems(2) by simp
  next
    case False
    then have "up_ok i (heap t)" using down_stops less.prems by (auto simp: down_ok_def)
    then have "heap_ok (heap t)" using up_ok_heap_ok less.prems(1) by (auto simp: down_ok_def)
    moreover have "siftdown_loop i n t = (i, t)" using False siftdown_loop_unfold [of t n i] less.prems(2) by auto
    ultimately show ?thesis by simp
  qed
qed

lemma siftdown_loop_mid:
  assumes "mid_ok i (heap t)" "siftdown_loop i (length (heap t)) t = (i', t')"
  shows "if i < i' then heap_ok (heap t') else t' = t \<and> up_ok i (heap t)"
proof (cases "i * 2 + 1 < length (heap t) \<and> \<not> node_less (heap t ! i) (heap t ! max_child i (heap t))")
  case True
  have "down_ok (max_child i (heap t)) (heap (swapNode i (max_child i (heap t)) t))"
    using sift_step True assms(1) by blast
  from siftdown_loop_down [OF this] show ?thesis
    using True assms(2) siftdown_loop_unfold [of t "length (heap t)" i] max_child_props(2) [of i "heap t"] by auto
next
  case False
  then show ?thesis using down_stops [OF assms(1)] assms(2) siftdown_loop_unfold [of t "length (heap t)" i] by auto
qed

lemma siftup_loop_length [simp]: "length (heap (siftup_loop i t)) = length (heap t)"
proof (induction i t rule: siftup_loop.induct)
  case (1 i t)
  then show ?case by (subst siftup_loop.simps) (simp add: Let_def)
qed

lemma sift_ok:
  assumes "mid_ok i (heap t)"
  shows "\<exists>t'. sift i t = Inr t' \<and> heap_ok (heap t')"
proof -
  have i: "i < length (heap t)" using assms by (simp add: mid_ok_def)
  obtain i' t' where r: "siftdown_loop i (length (heap t)) t = (i', t')" by (cases "siftdown_loop i (length (heap t)) t")
  then show ?thesis
    using siftdown_loop_mid [OF assms r] i siftup_loop_ok [of i t]
    by (cases "i < i'") (auto simp: sift_def siftdown_def siftup_def)
qed

lemma up_ok_snoc:
  assumes "heap_ok h"
  shows "up_ok (length h) (h @ [x])"
  unfolding up_ok_def
proof (intro conjI allI impI)
  fix k assume k: "0 < k \<and> k < length (h @ [x]) \<and> k \<noteq> length h"
  then have "k < length h" "(k - 1) div 2 < length h" by auto
  then show "expires ((h @ [x]) ! k) \<le> expires ((h @ [x]) ! ((k - 1) div 2))"
    using assms k by (auto simp: heap_ok_def nth_append)
next
  fix k assume "0 < length h \<and> k < length (h @ [x]) \<and> 0 < k \<and> (k - 1) div 2 = length h"
  then have False by auto
  then show "expires ((h @ [x]) ! k) \<le> expires ((h @ [x]) ! ((length h - 1) div 2))" ..
qed simp

section \<open>Every operation keeps the order\<close>

lemma heap_ok_butlast: "heap_ok h \<Longrightarrow> heap_ok (butlast h)"
  by (auto simp: heap_ok_def nth_butlast)

lemma add_ok:
  assumes "heap_ok (heap t)" "add now i timeout c t = Inr t'"
  shows "heap_ok (heap t')"
proof (cases "ref t i")
  case None
  let ?x = "\<lparr>timer_id = i, expires = now + timeout * 1000000, cb = c\<rparr>"
  have "t' = siftup_loop (length (heap t)) (t\<lparr>ref := (ref t)(i \<mapsto> length (heap t)), heap := heap t @ [?x]\<rparr>)"
    using assms(2) None by (auto simp: add_def siftup_def cxx_res Let_def)
  then show ?thesis using up_ok_snoc [OF assms(1), of ?x] by (simp add: siftup_loop_ok)
next
  case (Some k)
  let ?x = "(heap t ! k)\<lparr>expires := now + timeout * 1000000, cb := c\<rparr>"
  have k: "k < length (heap t)" "sift k (t\<lparr>heap := (heap t)[k := ?x]\<rparr>) = Inr t'"
    using assms(2) Some by (auto simp: add_def cxx_res split: if_splits)
  then show ?thesis using sift_ok [of k "t\<lparr>heap := (heap t)[k := ?x]\<rparr>"] heap_ok_mid [OF assms(1) k(1)] by auto
qed

lemma del_heap:
  assumes "index < length (heap t) - 1"
  shows "butlast (heap (swapNode index (length (heap t) - 1) t)) = (butlast (heap t))[index := last (heap t)]"
proof -
  have "heap t \<noteq> []" using assms by auto
  then have "last (heap t) = heap t ! (length (heap t) - 1)" by (rule last_conv_nth)
  then show ?thesis using assms by (simp add: heap_swapNode butlast_list_update)
qed

lemma del_ok:
  assumes "heap_ok (heap t)" "index < length (heap t)"
  shows "\<exists>t'. del index t = Inr t' \<and> heap_ok (heap t')"
proof (cases "index < length (heap t) - 1")
  case True
  let ?t1 = "swapNode index (length (heap t) - 1) t"
  let ?t2 = "?t1\<lparr>heap := butlast (heap ?t1)\<rparr>"
  let ?t3 = "?t2\<lparr>ref := (ref ?t2)(timer_id (heap ?t2 ! index) := None)\<rparr>"
  have "heap ?t3 = (butlast (heap t))[index := last (heap t)]" using del_heap [OF True] by simp
  then have "mid_ok index (heap ?t3)" using heap_ok_mid [OF heap_ok_butlast [OF assms(1)]] True by simp
  moreover have "heap t \<noteq> []" using assms(2) by auto
  ultimately show ?thesis using True assms(2) sift_ok [of index ?t3] by (auto simp: del_def Let_def)
next
  case False
  moreover have "heap t \<noteq> []" using assms(2) by auto
  ultimately show ?thesis using assms heap_ok_butlast by (auto simp: del_def)
qed

lemma tick_loop_ok:
  "heap_ok (heap t) \<Longrightarrow> \<exists>fired t'. tick_loop k nows t = Inr (fired, t') \<and> heap_ok (heap t')"
proof (induction k arbitrary: nows t)
  case (Suc k)
  show ?case
  proof (cases "heap t = [] \<or> duration_ms (expires (hd (heap t)) - nows 0) > 0")
    case False
    then obtain t1 where "pop t = Inr t1" "heap_ok (heap t1)"
      using del_ok [OF Suc.prems, of 0] by (auto simp: pop_def)
    then show ?thesis using False Suc.IH [of t1 "\<lambda>n. nows (Suc n)"] by auto
  qed (use Suc.prems in auto)
qed simp

datatype 'c timer_op =
    Do_add int int int 'c
  | Do_work int
  | Do_tick "nat \<Rightarrow> int"
  | Do_clear

fun timer_step :: "'c timer_op \<Rightarrow> 'c timer \<Rightarrow> ('c list \<times> 'c timer) res" where
  "timer_step (Do_add now i timeout c) t = bind_res (add now i timeout c t) (\<lambda>t'. Inr ([], t'))"
| "timer_step (Do_work i) t = doWork i t"
| "timer_step (Do_tick nows) t = tick nows t"
| "timer_step Do_clear t = Inr ([], clear t)"

fun timer_run :: "'c timer_op list \<Rightarrow> 'c timer \<Rightarrow> ('c list \<times> 'c timer) res" where
  "timer_run [] t = Inr ([], t)"
| "timer_run (op # ops) t =
     bind_res (timer_step op t)
       (\<lambda>(f, t1). bind_res (timer_run ops t1) (\<lambda>(f', t'). Inr (f @ f', t')))"

lemma timer_step_ok:
  assumes "heap_ok (heap t)" "timer_step op t = Inr (f, t')"
  shows "heap_ok (heap t')"
proof (cases op)
  case (Do_work i)
  then show ?thesis
    using assms del_ok [OF assms(1)] by (fastforce simp: doWork_def cxx_res split: if_splits option.splits)
next
  case (Do_tick nows)
  then show ?thesis using assms tick_loop_ok [OF assms(1), of "length (heap t)" nows] by (auto simp: tick_def)
next
  case Do_clear
  then show ?thesis using assms by (auto simp: clear_def heap_ok_def)
qed (use assms add_ok in \<open>auto simp: cxx_res\<close>)

lemma timer_run_ok:
  "heap_ok (heap t) \<Longrightarrow> timer_run ops t = Inr (f, t') \<Longrightarrow> heap_ok (heap t')"
proof (induction ops arbitrary: t f)
  case (Cons op ops)
  then obtain f1 t1 f2 where "timer_step op t = Inr (f1, t1)" "timer_run ops t1 = Inr (f2, t')"
    by (auto simp: cxx_res split: prod.splits)
  then show ?case using Cons.IH timer_step_ok [OF Cons.prems(1)] by blast
qed simp

lemma heap_ok_front:
  assumes "heap_ok h" "k < length h"
  shows "expires (h ! k) \<le> expires (h ! 0)"
  using assms(2)
proof (induction k rule: less_induct)
  case (less k)
  show ?case
  proof (cases "k = 0")
    case False
    then have "(k - 1) div 2 < k" by auto
    then have "expires (h ! ((k - 1) div 2)) \<le> expires (h ! 0)" using less by simp
    moreover have "expires (h ! k) \<le> expires (h ! ((k - 1) div 2))" using assms(1) less.prems False by (simp add: heap_ok_def)
    ultimately show ?thesis by simp
  qed simp
qed

section \<open>Nodes and the index\<close>

lemma mset_swapNode: "i < length (heap t) \<Longrightarrow> j < length (heap t) \<Longrightarrow> mset (heap (swapNode i j t)) = mset (heap t)"
  by (simp add: heap_swapNode mset_swap)

text \<open>The index is exact: it says where each timer is, and has nothing else.\<close>

definition ref_ok :: "'c timer \<Rightarrow> bool" where
  "ref_ok t \<longleftrightarrow> (\<forall>i k. ref t i = Some k \<longleftrightarrow> k < length (heap t) \<and> timer_id (heap t ! k) = i)"

lemma ref_ok_inj:
  "ref_ok t \<Longrightarrow> j < length (heap t) \<Longrightarrow> k < length (heap t) \<Longrightarrow> timer_id (heap t ! j) = timer_id (heap t ! k) \<Longrightarrow> j = k"
  unfolding ref_ok_def by (metis option.inject)

lemma ref_swapNode:
  "i < length (heap t) \<Longrightarrow> j < length (heap t) \<Longrightarrow>
   ref (swapNode i j t) = (ref t)(timer_id (heap (swapNode i j t) ! i) \<mapsto> i, timer_id (heap t ! i) \<mapsto> j)"
  by (simp add: swapNode_def Let_def)

lemma ref_ok_swapNode:
  assumes "ref_ok t" "i < length (heap t)" "j < length (heap t)" "i \<noteq> j"
  shows "ref_ok (swapNode i j t)"
  unfolding ref_ok_def
proof (intro allI)
  fix x k
  have at: "heap (swapNode i j t) ! k = (if k = j then heap t ! i else if k = i then heap t ! j else heap t ! k)" if "k < length (heap t)" for k
    using that assms by (auto simp: heap_swapNode nth_list_update)
  have ref: "ref (swapNode i j t) = (ref t)(timer_id (heap t ! j) \<mapsto> i, timer_id (heap t ! i) \<mapsto> j)"
    using ref_swapNode [OF assms(2,3)] at [OF assms(2)] assms(4) by simp
  have r: "ref t y = Some m \<longleftrightarrow> m < length (heap t) \<and> timer_id (heap t ! m) = y" for y m
    using assms(1) by (simp add: ref_ok_def)
  have inj: "timer_id (heap t ! m) = timer_id (heap t ! m') \<longleftrightarrow> m = m'" if "m < length (heap t)" "m' < length (heap t)" for m m'
    using ref_ok_inj [OF assms(1) that] by auto
  show "ref (swapNode i j t) x = Some k \<longleftrightarrow> k < length (heap (swapNode i j t)) \<and> timer_id (heap (swapNode i j t) ! k) = x"
    using assms(2,3,4) by (cases "k < length (heap t)") (auto simp: ref at r inj)
qed

text \<open>What the swaps of the two loops preserve; \<open>P\<close> is instantiated below.\<close>

lemma siftup_loop_induct:
  assumes "P t" "i < length (heap t)"
    and "\<And>t a b. P t \<Longrightarrow> a < length (heap t) \<Longrightarrow> b < length (heap t) \<Longrightarrow> a \<noteq> b \<Longrightarrow> P (swapNode a b t)"
  shows "P (siftup_loop i t)"
  using assms(1,2)
proof (induction i t rule: siftup_loop.induct)
  case (1 i t)
  show ?case
  proof (cases "i > 0 \<and> \<not> node_less (heap t ! ((i - 1) div 2)) (heap t ! i)")
    case True
    then have "(i - 1) div 2 < i" by auto
    then have "P (swapNode i ((i - 1) div 2) t)" using assms(3) [OF 1(2), of i "(i - 1) div 2"] 1(3) by simp
    then show ?thesis using 1(1) True 1(3) \<open>(i - 1) div 2 < i\<close> by (simp add: siftup_loop.simps [of i] Let_def)
  next
    case False
    then have "siftup_loop i t = t" by (subst siftup_loop.simps) (auto simp: Let_def)
    then show ?thesis using 1(2) by simp
  qed
qed

lemma siftdown_loop_induct:
  assumes "P t" "n = length (heap t)"
    and "\<And>t a b. P t \<Longrightarrow> a < length (heap t) \<Longrightarrow> b < length (heap t) \<Longrightarrow> a \<noteq> b \<Longrightarrow> P (swapNode a b t)"
  shows "P (snd (siftdown_loop i n t)) \<and> length (heap (snd (siftdown_loop i n t))) = n"
  using assms(1,2)
proof (induction "n - i" arbitrary: i t rule: less_induct)
  case less
  let ?j = "max_child i (heap t)"
  show ?case
  proof (cases "i * 2 + 1 < n \<and> \<not> node_less (heap t ! i) (heap t ! ?j)")
    case True
    then have j: "i < ?j" "?j < n" using max_child_props [of i "heap t"] less.prems(2) by simp_all
    then have "P (swapNode i ?j t)" using assms(3) [OF less.prems(1), of i ?j] less.prems(2) by simp
    then show ?thesis
      using less.hyps [of ?j "swapNode i ?j t"] j less.prems(2) True siftdown_loop_unfold [of t n i] by simp
  next
    case False
    then have "siftdown_loop i n t = (i, t)" using siftdown_loop_unfold [of t n i] less.prems(2) by auto
    then show ?thesis using less.prems by simp
  qed
qed

lemma sift_induct:
  assumes "P t" "sift i t = Inr t'"
    and "\<And>t a b. P t \<Longrightarrow> a < length (heap t) \<Longrightarrow> b < length (heap t) \<Longrightarrow> a \<noteq> b \<Longrightarrow> P (swapNode a b t)"
  shows "P t'"
proof -
  obtain m t1 where r: "siftdown_loop i (length (heap t)) t = (m, t1)" by (cases "siftdown_loop i (length (heap t)) t")
  have i: "i < length (heap t)" using assms(2) by (auto simp: sift_def siftdown_def cxx_res assert_res_def split: if_splits)
  have "P (snd (siftdown_loop i (length (heap t)) t)) \<and> length (heap (snd (siftdown_loop i (length (heap t)) t))) = length (heap t)"
    by (rule siftdown_loop_induct) (use assms(1,3) in auto)
  then have p1: "P t1" "length (heap t1) = length (heap t)" using r by simp_all
  show ?thesis
  proof (cases "i < m")
    case True
    then show ?thesis using assms(2) r i p1 by (simp add: sift_def siftdown_def)
  next
    case False
    then have "t' = siftup_loop i t1" using assms(2) r i p1 by (simp add: sift_def siftdown_def siftup_def)
    moreover have "P (siftup_loop i t1)" by (rule siftup_loop_induct) (use assms(3) p1 i in auto)
    ultimately show ?thesis by simp
  qed
qed

lemma sift_mset: "sift i t = Inr t' \<Longrightarrow> mset (heap t') = mset (heap t)"
  by (rule sift_induct [where P = "\<lambda>u. mset (heap u) = mset (heap t)"]) (auto simp: mset_swapNode)

lemma sift_ref_ok: "ref_ok t \<Longrightarrow> sift i t = Inr t' \<Longrightarrow> ref_ok t'"
  by (rule sift_induct [where P = ref_ok]) (auto simp: ref_ok_swapNode)

lemma add_ref_ok:
  assumes "ref_ok t" "add now i timeout c t = Inr t'"
  shows "ref_ok t'"
proof (cases "ref t i")
  case None
  let ?x = "\<lparr>timer_id = i, expires = now + timeout * 1000000, cb = c\<rparr>"
  let ?t = "t\<lparr>ref := (ref t)(i \<mapsto> length (heap t)), heap := heap t @ [?x]\<rparr>"
  have t': "t' = siftup_loop (length (heap t)) ?t"
    using assms(2) None by (auto simp: add_def siftup_def cxx_res Let_def)
  have r: "ref t y = Some m \<longleftrightarrow> m < length (heap t) \<and> timer_id (heap t ! m) = y" for y m
    using assms(1) by (simp add: ref_ok_def)
  have "timer_id (heap t ! m) \<noteq> i" if "m < length (heap t)" for m using None r [of i m] that by auto
  then have "ref_ok ?t" unfolding ref_ok_def
    using r by (auto simp: nth_append less_Suc_eq)
  then show ?thesis unfolding t' by (rule siftup_loop_induct) (simp_all add: ref_ok_swapNode)
next
  case (Some k)
  let ?x = "(heap t ! k)\<lparr>expires := now + timeout * 1000000, cb := c\<rparr>"
  have k: "k < length (heap t)" "sift k (t\<lparr>heap := (heap t)[k := ?x]\<rparr>) = Inr t'"
    using assms(2) Some by (auto simp: add_def cxx_res split: if_splits)
  have "timer_id ((heap t)[k := ?x] ! m) = timer_id (heap t ! m)" if "m < length (heap t)" for m
    using that by (cases "m = k") auto
  then have "ref_ok (t\<lparr>heap := (heap t)[k := ?x]\<rparr>)" using assms(1) by (auto simp: ref_ok_def)
  then show ?thesis using sift_ref_ok k(2) by blast
qed

section \<open>Properties\<close>

text \<open>
  C37: The heap keeps its order, the wrong way round. Under any sequence of \<open>add\<close>, \<open>doWork\<close>, \<open>tick\<close> and
  \<open>clear\<close> on a new timer, no node of the heap expires later than its parent, so that the front,
  which \<open>tick\<close> looks at, is the timer that expires last.
\<close>

theorem timer_heap_order:
  assumes "timer_run ops timer_new = Inr (fired, t)"
  shows "(\<forall>k. 0 < k \<and> k < length (heap t) \<longrightarrow> expires (heap t ! k) \<le> expires (heap t ! ((k - 1) div 2)))
    \<and> (\<forall>n \<in> set (heap t). expires n \<le> expires (hd (heap t)))"
proof -
  have ok: "heap_ok (heap t)"
    using timer_run_ok [OF _ assms] by (simp add: timer_new_def heap_ok_def)
  then have "expires n \<le> expires (hd (heap t))" if "n \<in> set (heap t)" for n
    using that heap_ok_front [OF ok] by (metis hd_conv_nth in_set_conv_nth length_greater_0_conv length_pos_if_in_set)
  with ok show ?thesis by (simp add: heap_ok_def)
qed

definition two_timers :: "nat timer_op list" where
  "two_timers = [Do_add 0 1 5 10, Do_add 0 2 9 20]"

lemma two_timers_run:
  "timer_run two_timers timer_new = Inr ([], \<lparr>heap = [\<lparr>timer_id = 2, expires = 9000000, cb = 20\<rparr>,
     \<lparr>timer_id = 1, expires = 5000000, cb = 10\<rparr>], ref = [1 \<mapsto> 1, 2 \<mapsto> 0]\<rparr>)"
  by (simp add: two_timers_def timer_new_def add_def siftup_def siftup_loop.simps [of "Suc 0"] swapNode_def node_less_def fun_eq_iff)

theorem timer_heap_order_witness:
  "\<exists>t. timer_run two_timers timer_new = Inr ([], t) \<and> (\<forall>n \<in> set (heap t). expires n \<le> expires (hd (heap t)))"
  using timer_heap_order [OF two_timers_run] two_timers_run by blast

lemma pop_mset:
  assumes "heap_ok (heap t)" "heap t \<noteq> []"
  shows "\<exists>t'. pop t = Inr t' \<and> heap_ok (heap t') \<and> add_mset (hd (heap t)) (mset (heap t')) = mset (heap t)"
proof -
  obtain t' where t': "del 0 t = Inr t'" "heap_ok (heap t')" using del_ok [OF assms(1), of 0] assms(2) by auto
  have "add_mset (hd (heap t)) (mset (heap t')) = mset (heap t)"
  proof (cases "0 < length (heap t) - 1")
    case True
    let ?t1 = "swapNode 0 (length (heap t) - 1) t"
    let ?t2 = "?t1\<lparr>heap := butlast (heap ?t1)\<rparr>"
    let ?t3 = "?t2\<lparr>ref := (ref ?t2)(timer_id (heap ?t2 ! 0) := None)\<rparr>"
    have "sift 0 ?t3 = Inr t'" using t'(1) True assms(2) by (simp add: del_def Let_def)
    then have "mset (heap t') = mset ((butlast (heap t))[0 := last (heap t)])"
      using sift_mset del_heap [OF True] by fastforce
    moreover obtain x xs y where h: "heap t = x # xs @ [y]"
      using True by (cases "heap t" rule: list.exhaust; cases "tl (heap t)" rule: rev_cases) auto
    ultimately show ?thesis by simp
  next
    case False
    then obtain x where "heap t = [x]" using assms(2) by (cases "heap t") auto
    then show ?thesis using t'(1) by (auto simp: del_def)
  qed
  then show ?thesis using t' by (auto simp: pop_def)
qed

lemma tick_loop_all:
  assumes "heap_ok (heap t)" "\<forall>n \<in> set (heap t). expires n - now < 1000000" "length (heap t) \<le> k"
  shows "\<exists>fired t'. tick_loop k (\<lambda>_. now) t = Inr (fired, t') \<and> heap t' = [] \<and> mset fired = image_mset cb (mset (heap t))"
  using assms
proof (induction k arbitrary: t)
  case (Suc k)
  show ?case
  proof (cases "heap t = []")
    case False
    obtain t1 where t1: "pop t = Inr t1" "heap_ok (heap t1)" "add_mset (hd (heap t)) (mset (heap t1)) = mset (heap t)"
      using pop_mset [OF Suc.prems(1) False] by blast
    then have sub: "set (heap t1) \<subseteq> set (heap t)" "length (heap t1) \<le> k"
      using Suc.prems(3) by (metis set_mset_add_mset_insert set_mset_mset subset_insertI, metis Suc_le_mono size_add_mset size_mset)
    obtain fired t' where "tick_loop k (\<lambda>_. now) t1 = Inr (fired, t')" "heap t' = []" "mset fired = image_mset cb (mset (heap t1))"
      using Suc.IH [OF t1(2) _ sub(2)] sub(1) Suc.prems(2) by blast
    moreover have "\<not> duration_ms (expires (hd (heap t)) - now) > 0"
      using Suc.prems(2) False by (simp add: duration_ms_pos not_le)
    moreover have "mset (heap t) = add_mset (hd (heap t)) (mset (heap t1))" using t1(3) by simp
    ultimately show ?thesis using False t1(1) by simp
  qed simp
qed simp

text \<open>
  \<open>tick\<close> fires all or nothing. For a heap in its order and a clock that stands still, as long
  as a single timer has a millisecond or more to go, no callback runs, however long the other
  timers have been due; when none has, all of them run and the heap is empty.
\<close>

theorem tick_all_or_nothing:
  assumes "timer_run ops timer_new = Inr (f, t)"
  shows "if \<exists>n \<in> set (heap t). 1000000 \<le> expires n - now then tick (\<lambda>_. now) t = Inr ([], t)
    else \<exists>fired t'. tick (\<lambda>_. now) t = Inr (fired, t') \<and> heap t' = [] \<and> mset fired = image_mset cb (mset (heap t))"
proof -
  have ok: "heap_ok (heap t)"
    using timer_run_ok [OF _ assms] by (simp add: timer_new_def heap_ok_def)
  show ?thesis
  proof (cases "\<exists>n \<in> set (heap t). 1000000 \<le> expires n - now")
    case True
    then obtain k where k: "k < length (heap t)" "1000000 \<le> expires (heap t ! k) - now" by (metis in_set_conv_nth)
    then have ne: "heap t \<noteq> []" by auto
    then have "1000000 \<le> expires (hd (heap t)) - now"
      using heap_ok_front [OF ok k(1)] k(2) by (simp add: hd_conv_nth)
    then have "tick (\<lambda>_. now) t = Inr ([], t)"
      using ne by (cases "length (heap t)") (simp_all add: tick_def duration_ms_pos)
    then show ?thesis using True by simp
  next
    case False
    then show ?thesis using tick_loop_all [OF ok, of now "length (heap t)"] by (auto simp: tick_def not_le)
  qed
qed

theorem tick_all_or_nothing_witness:
  "\<exists>t. timer_run two_timers timer_new = Inr ([], t) \<and> tick (\<lambda>_. 8000000) t = Inr ([], t)"
  using tick_all_or_nothing [OF two_timers_run, of 8000000] two_timers_run by auto

text \<open>
  Deleting a timer that is not the last of the heap leaves its entry in the index. When the
  index is exact and \<open>doWork\<close> runs the timer \<open>i\<close> from a place before the end of the heap, \<open>i\<close> still has
  an entry, which points just past the end: adding \<open>i\<close> again, or calling \<open>doWork\<close> on it again, reads
  outside the heap.
\<close>

theorem doWork_dangling_entry:
  assumes "ref_ok t" "ref t i = Some k" "k < length (heap t) - 1" "doWork i t = Inr (fired, t')"
  shows "fired = [cb (heap t ! k)] \<and> ref t' i = Some (length (heap t'))
    \<and> add now i timeout c t' = (if 0 \<le> i then Inl Undefined_Behaviour else Inl Assertion_Failure)
    \<and> doWork i t' = Inl Undefined_Behaviour"
proof -
  let ?n = "length (heap t) - 1"
  let ?t1 = "swapNode k ?n t"
  let ?t2 = "?t1\<lparr>heap := butlast (heap ?t1)\<rparr>"
  let ?t3 = "?t2\<lparr>ref := (ref ?t2)(timer_id (heap ?t2 ! k) := None)\<rparr>"
  have k: "timer_id (heap t ! k) = i" "k < length (heap t)" "?n < length (heap t)" "heap t \<noteq> []"
    using assms(1,2,3) by (auto simp: ref_ok_def)
  have d: "sift k ?t3 = Inr t'" "fired = [cb (heap t ! k)]"
    using assms(2-4) k by (auto simp: doWork_def del_def Let_def cxx_res)
  have h3: "heap ?t3 = (butlast (heap t))[k := last (heap t)]" using del_heap [OF assms(3)] by simp
  have other: "timer_id (heap t ! m) \<noteq> i" if "m < length (heap t)" "m \<noteq> k" for m
    using ref_ok_inj [OF assms(1) that(1) k(2)] k(1) that(2) by auto
  have notin: "\<forall>x \<in> set (heap ?t3). timer_id x \<noteq> i"
  proof
    fix x assume "x \<in> set (heap ?t3)"
    then obtain m where "m < ?n" "x = (if m = k then last (heap t) else heap t ! m)"
      unfolding h3 using k by (auto simp: in_set_conv_nth nth_list_update nth_butlast)
    then show "timer_id x \<noteq> i" using other assms(3) k(4) by (auto simp: last_conv_nth)
  qed
  have "heap ?t3 ! k = last (heap t)" unfolding h3 using assms(3) by simp
  moreover have "timer_id (last (heap t)) \<noteq> i" using other [OF k(3)] assms(3) k(4) by (simp add: last_conv_nth)
  ultimately have r3: "ref ?t3 i = Some ?n" using k(1) ref_swapNode [OF k(2,3)] by simp
  let ?P = "\<lambda>u. ref u i = Some ?n \<and> mset (heap u) = mset (heap ?t3)"
  have "?P t'"
  proof (rule sift_induct [where P = ?P, OF _ d(1)])
    fix u :: "'a timer" and a b
    assume u: "?P u" and ab: "a < length (heap u)" "b < length (heap u)" "a \<noteq> b"
    have "set (heap u) = set (heap ?t3)" using u by (metis set_mset_mset)
    moreover have "heap (swapNode a b u) ! a = heap u ! b" using ab by (simp add: heap_swapNode)
    ultimately have "timer_id (heap (swapNode a b u) ! a) \<noteq> i" "timer_id (heap u ! a) \<noteq> i" using ab notin by auto
    then show "?P (swapNode a b u)" using u ab by (simp add: ref_swapNode mset_swapNode)
  qed (use r3 in simp)
  then have r: "ref t' i = Some ?n" and m: "mset (heap t') = mset (heap ?t3)" by simp_all
  then have "length (heap t') = length (heap ?t3)" by (metis size_mset)
  then have len: "length (heap t') = ?n" using h3 by simp
  then have "heap t' \<noteq> []" using assms(3) by auto
  then show ?thesis using d(2) r len by (simp add: add_def doWork_def)
qed

theorem doWork_dangling_entry_witness:
  "\<exists>t t'. timer_run two_timers timer_new = Inr ([], t) \<and> doWork 2 t = Inr ([20], t')
    \<and> add 0 2 1 5 t' = Inl Undefined_Behaviour"
proof -
  let ?t = "\<lparr>heap = [\<lparr>timer_id = 2, expires = 9000000, cb = 20\<rparr>, \<lparr>timer_id = 1, expires = 5000000, cb = 10\<rparr>],
     ref = [1 \<mapsto> 1, 2 \<mapsto> 0]\<rparr> :: nat timer"
  have ok: "ref_ok ?t" by (auto simp: ref_ok_def less_Suc_eq nth_Cons')
  obtain t' where "doWork 2 ?t = Inr ([20], t')"
    by (simp add: doWork_def del_def sift_def siftdown_def siftdown_loop.simps siftup_def swapNode_def node_less_def)
  with doWork_dangling_entry [OF ok, of 2 0] two_timers_run show ?thesis by fastforce
qed

text \<open>
  \<open>getNextTick\<close> tests the wrong way: it answers that there is no timer when there is one, and reads
  the front of an empty heap when there is none.
\<close>

lemma getNextTick_inverted:
  "heap t = [] \<Longrightarrow> getNextTick nows now t = Inl Undefined_Behaviour"
  "getNextTick nows now t = Inr (d, fired, t') \<Longrightarrow> d = - 1 \<and> heap t' \<noteq> []"
  by (auto simp: getNextTick_def tick_def cxx_res split: if_splits)

text \<open>\<open>add\<close> alone keeps the index exact.\<close>

lemma adds_ref_ok:
  assumes "\<forall>op \<in> set ops. \<exists>now i timeout c. op = Do_add now i timeout c" "timer_run ops t = Inr (f, t')" "ref_ok t"
  shows "ref_ok t'"
  using assms
proof (induction ops arbitrary: t f)
  case (Cons op ops)
  then obtain f1 t1 f2 where "timer_step op t = Inr (f1, t1)" "timer_run ops t1 = Inr (f2, t')"
    by (auto simp: cxx_res split: prod.splits)
  moreover have "ref_ok t1" using Cons.prems calculation(1) add_ref_ok by (fastforce simp: cxx_res)
  ultimately show ?case using Cons by simp
qed simp

end
