(* ===== verification/Storage_Util.thy ===== *)
theory Storage_Util
  imports Prelude
begin

text \<open>
  The helpers of the storage service (\<open>HttpServer/src/server/Util.hpp\<close>): URL decoding, \<open>FileUtil\<close> over a file system, and
  \<open>JsonUtil\<close>. The file system
  is the contents of the regular files, the directories, and the two times \<open>stat\<close> reports; what
  the operating system decides (whether a file can be opened for writing, whether a write fails,
  the time) is an argument. The compression and JSON libraries are parameters of the functions that call
  them. The lemmas show that reading gives back what was written and that decoding undoes percent
  encoding.
\<close>

section \<open>URL decoding\<close>

definition ToHex :: "nat \<Rightarrow> nat" where
  "ToHex x = (if x > 9 then (x + 55) mod 256 else (x + 48) mod 256)"

definition FromHex :: "nat \<Rightarrow> nat res" where
  "FromHex x =
     (if 65 \<le> x \<and> x \<le> 90 then Inr (x - 65 + 10)
      else if 97 \<le> x \<and> x \<le> 122 then Inr (x - 97 + 10)
      else if 48 \<le> x \<and> x \<le> 57 then Inr (x - 48)
      else Inl Assertion_Failure)"

text \<open>\<open>i + 2 < length\<close> is that two more characters follow.\<close>

fun UrlDecode :: "string \<Rightarrow> string res" where
  "UrlDecode [] = Inr []"
| "UrlDecode (c # cs) =
     (if c = CHR ''%''
      then (case cs of
              h # l # rest \<Rightarrow>
                bind_res (FromHex (of_char h)) (\<lambda>high.
                bind_res (FromHex (of_char l)) (\<lambda>low.
                bind_res (UrlDecode rest) (\<lambda>s. Inr (char_of (high * 16 + low) # s))))
            | _ \<Rightarrow> Inl Assertion_Failure)
      else bind_res (UrlDecode cs) (\<lambda>s. Inr (c # s)))"

text \<open>The percent encoding of a byte, and of a string with the plain characters left as they are.\<close>

definition pct :: "char \<Rightarrow> string" where
  "pct c = [CHR ''%'', char_of (ToHex (of_char c div 16)), char_of (ToHex (of_char c mod 16))]"

definition UrlEncode :: "(char \<Rightarrow> bool) \<Rightarrow> string \<Rightarrow> string" where
  "UrlEncode plain s = concat (map (\<lambda>c. if plain c then [c] else pct c) s)"

lemma FromHex_ToHex: "d < 16 \<Longrightarrow> FromHex (of_char (char_of (ToHex d) :: char)) = Inr d"
  by (auto simp: FromHex_def ToHex_def)

lemma UrlDecode_pct: "UrlDecode (pct c @ s) = bind_res (UrlDecode s) (\<lambda>r. Inr (c # r))"
proof -
  have d: "of_char c div 16 < (16 :: nat)" "of_char c mod 16 < (16 :: nat)"
    using nat_of_char_less_256 [of c] by (simp_all add: less_mult_imp_div_less)
  have "of_char c div 16 * 16 + of_char c mod 16 = (of_char c :: nat)" by simp
  then show ?thesis
    unfolding pct_def using FromHex_ToHex [OF d(1)] FromHex_ToHex [OF d(2)] by simp
qed

lemma UrlDecode_encode:
  assumes "\<not> plain (CHR ''%'')"
  shows "UrlDecode (UrlEncode plain s) = Inr s"
proof (induction s)
  case (Cons c s)
  then show ?case
    using assms UrlDecode_pct [of c "UrlEncode plain s"] by (auto simp: UrlEncode_def)
qed (simp add: UrlEncode_def)

lemma UrlDecode_id: "CHR ''%'' \<notin> set s \<Longrightarrow> UrlDecode s = Inr s"
  by (induction s) auto

text \<open>
  URL decoding undoes percent encoding, whichever characters are left plain (not the percent
  sign itself), and never trips an assertion on such a text; a percent sign with fewer than two
  characters after it does.
\<close>

theorem UrlDecode_roundtrip:
  assumes "\<not> plain (CHR ''%'')" "length t < 2"
  shows "UrlDecode (UrlEncode plain s) = Inr s \<and> UrlDecode (UrlEncode plain s @ CHR ''%'' # t) = Inl Assertion_Failure"
proof
  show "UrlDecode (UrlEncode plain s) = Inr s" using UrlDecode_encode [of plain s] assms(1) by simp
  show "UrlDecode (UrlEncode plain s @ CHR ''%'' # t) = Inl Assertion_Failure"
  proof (induction s)
    case Nil
    show ?case using assms(2) by (auto simp: UrlEncode_def split: list.splits)
  next
    case (Cons c s)
    then show ?case
      using assms(1) UrlDecode_pct [of c "UrlEncode plain s @ CHR ''%'' # t"] by (auto simp: UrlEncode_def)
  qed
qed

theorem UrlDecode_roundtrip_witness:
  "UrlDecode (UrlEncode (\<lambda>c. c = CHR ''a'') ''a b'') = Inr ''a b''"
  using UrlDecode_roundtrip [of "\<lambda>c. c = CHR ''a''" "[]" "''a b''"] by simp

section \<open>Files\<close>

record fsys =
  fs_file :: "string \<Rightarrow> string option"
  fs_dir :: "string \<Rightarrow> bool"
  fs_dirsize :: "string \<Rightarrow> nat"
  fs_mtime :: "string \<Rightarrow> int"
  fs_atime :: "string \<Rightarrow> int"

text \<open>What the system decides when a file is written: can it be opened, after how many bytes does the write fail, and the time.\<close>

record write_env =
  we_open :: "string \<Rightarrow> bool"
  we_fail :: "string \<Rightarrow> nat option"
  we_now :: int

definition Exists :: "string \<Rightarrow> fsys \<Rightarrow> bool" where
  "Exists p fs \<longleftrightarrow> fs_file fs p \<noteq> None \<or> fs_dir fs p"

definition FileSize :: "string \<Rightarrow> fsys \<Rightarrow> int" where
  "FileSize p fs =
     (case fs_file fs p of
        Some c \<Rightarrow> int (length c)
      | None \<Rightarrow> if fs_dir fs p then int (fs_dirsize fs p) else - 1)"

definition LastAccessTime :: "string \<Rightarrow> fsys \<Rightarrow> int" where
  "LastAccessTime p fs = (if Exists p fs then fs_atime fs p else - 1)"

definition LastModifyTime :: "string \<Rightarrow> fsys \<Rightarrow> int" where
  "LastModifyTime p fs = (if Exists p fs then fs_mtime fs p else - 1)"

definition FileName :: "string \<Rightarrow> string" where
  "FileName p = (case find_last (CHR ''/'') p of None \<Rightarrow> p | Some pos \<Rightarrow> drop (pos + 1) p)"

text \<open>The comparison is between \<open>size_t\<close>, so that the \<open>-1\<close> of a missing file is the largest value.\<close>

definition GetPosLen :: "nat \<Rightarrow> nat \<Rightarrow> string \<Rightarrow> fsys \<Rightarrow> string option" where
  "GetPosLen pos len p fs =
     (if (pos + len) mod 2 ^ 64 > nat (FileSize p fs mod 2 ^ 64) then None
      else (case fs_file fs p of
              None \<Rightarrow> None
            | Some c \<Rightarrow> if pos + len \<le> length c then Some (take len (drop pos c)) else None))"

definition GetContent :: "string \<Rightarrow> fsys \<Rightarrow> string option" where
  "GetContent p fs = GetPosLen 0 (nat (FileSize p fs mod 2 ^ 64)) p fs"

text \<open>A write that fails is logged, and the function still returns true.\<close>

definition SetContent :: "write_env \<Rightarrow> string \<Rightarrow> string \<Rightarrow> fsys \<Rightarrow> bool \<times> fsys" where
  "SetContent w p content fs =
     (if \<not> we_open w p then (False, fs)
      else (True,
            fs\<lparr>fs_file := (fs_file fs)(p \<mapsto> (case we_fail w p of None \<Rightarrow> content | Some n \<Rightarrow> take n content)),
               fs_mtime := (fs_mtime fs)(p := we_now w)\<rparr>))"

definition Compress ::
  "(int \<Rightarrow> string \<Rightarrow> string) \<Rightarrow> write_env \<Rightarrow> string \<Rightarrow> string \<Rightarrow> int \<Rightarrow> fsys \<Rightarrow> bool \<times> fsys" where
  "Compress pack w p content fmt fs =
     (let packed = pack fmt content in
      if length packed = 0 then (False, fs)
      else (case SetContent w p packed fs of (ok, fs') \<Rightarrow> if ok then (True, fs') else (False, fs')))"

definition UnCompress ::
  "(string \<Rightarrow> string) \<Rightarrow> write_env \<Rightarrow> string \<Rightarrow> string \<Rightarrow> fsys \<Rightarrow> bool \<times> fsys" where
  "UnCompress unpack w p download_path fs =
     (case GetContent p fs of
        None \<Rightarrow> (False, fs)
      | Some body \<Rightarrow>
          (case SetContent w download_path (unpack body) fs of (ok, fs') \<Rightarrow> if ok then (True, fs') else (False, fs')))"

text \<open>
  \<open>fs::create_directories\<close> makes the directory and those above it; the file system lets it, so that the result, which
  no caller looks at, is true.
\<close>

definition above :: "string \<Rightarrow> string list" where
  "above p = map (\<lambda>i. take i p) (filter (\<lambda>i. p ! i = CHR ''/'') [1..<length p])"

definition create_directories :: "string \<Rightarrow> fsys \<Rightarrow> fsys" where
  "create_directories p fs = fs\<lparr>fs_dir := (\<lambda>q. fs_dir fs q \<or> q = p \<or> q \<in> set (above p))\<rparr>"

definition FileUtil_CreateDirectory :: "string \<Rightarrow> fsys \<Rightarrow> fsys" where
  "FileUtil_CreateDirectory p fs = (if Exists p fs then fs else create_directories p fs)"

text \<open>
  The entries of a directory come from the iterator, in its order, with the path it was given in front; the iterator
  throws for a path that is no directory. \<open>relative_path\<close> drops the root.
\<close>

definition relative_path :: "string \<Rightarrow> string" where
  "relative_path p = dropWhile (\<lambda>c. c = CHR ''/'') p"

definition scan_entries :: "string list \<Rightarrow> fsys \<Rightarrow> string list" where
  "scan_entries ps fs = map relative_path (filter (\<lambda>p. \<not> fs_dir fs p) ps)"

definition FileUtil_ScanDirectory :: "(string \<Rightarrow> fsys \<Rightarrow> string list) \<Rightarrow> string \<Rightarrow> string list \<Rightarrow> fsys \<Rightarrow> string list res" where
  "FileUtil_ScanDirectory listing dir arry fs =
     (if fs_dir fs dir then Inr (arry @ scan_entries (listing dir fs) fs)
      else Inl (Exception (Runtime_Error ''directory iterator cannot open directory'')))"

definition remove_file :: "string \<Rightarrow> fsys \<Rightarrow> fsys" where
  "remove_file p fs = fs\<lparr>fs_file := (fs_file fs)(p := None)\<rparr>"

section \<open>What the file operations give\<close>

lemma GetContent_file:
  assumes "fs_file fs p = Some c" "length c < 2 ^ 64"
  shows "GetContent p fs = Some c"
proof -
  have "nat (FileSize p fs mod 2 ^ 64) = length c"
    using assms by (simp add: FileSize_def mod_pos_pos_trivial)
  then show ?thesis using assms unfolding GetContent_def GetPosLen_def by simp
qed

lemma GetContent_missing: "fs_file fs p = None \<Longrightarrow> GetContent p fs = None"
  by (simp add: GetContent_def GetPosLen_def)

definition write_ok :: "write_env \<Rightarrow> string \<Rightarrow> bool" where
  "write_ok w p \<longleftrightarrow> we_open w p \<and> we_fail w p = None"

lemma SetContent_ok:
  "write_ok w p \<Longrightarrow> SetContent w p c fs = (True, fs\<lparr>fs_file := (fs_file fs)(p \<mapsto> c), fs_mtime := (fs_mtime fs)(p := we_now w)\<rparr>)"
  by (simp add: SetContent_def write_ok_def)

lemma FileUtil_CreateDirectory_file [simp]: "fs_file (FileUtil_CreateDirectory p fs) = fs_file fs"
  by (simp add: FileUtil_CreateDirectory_def create_directories_def)

lemma CreateDirectory_Exists [simp]: "Exists p (FileUtil_CreateDirectory p fs)"
  by (simp add: FileUtil_CreateDirectory_def create_directories_def Exists_def)

lemma SetContent_Exists: "Exists q fs \<Longrightarrow> Exists q (snd (SetContent w p c fs))"
  by (auto simp: SetContent_def Exists_def)

lemma UnCompress_Exists: "Exists q fs \<Longrightarrow> Exists q (snd (UnCompress unpack w p d fs))"
  using SetContent_Exists [of q fs w d] by (simp add: UnCompress_def case_prod_beta split: option.split)

text \<open>A directory that was made is there, with all above it, and scanning it does not throw.\<close>

lemma CreateDirectory_there:
  assumes "fs_file fs p = None"
  shows "fs_dir (FileUtil_CreateDirectory p fs) p"
    and "\<not> Exists p fs \<Longrightarrow> q \<in> set (above p) \<Longrightarrow> fs_dir (FileUtil_CreateDirectory p fs) q"
    and "\<exists>es. FileUtil_ScanDirectory listing p arry (FileUtil_CreateDirectory p fs) = Inr (arry @ es)"
  using assms by (auto simp: FileUtil_CreateDirectory_def create_directories_def Exists_def FileUtil_ScanDirectory_def)

lemma FileName_slash: "CHR ''/'' \<notin> set n \<Longrightarrow> FileName (d @ CHR ''/'' # n) = n"
  by (simp add: FileName_def)

section \<open>JSON\<close>

text \<open>
  \<open>JsonUtil\<close> over a writer and a parser of the JSON library. \<open>UnSerialize\<close> gives \<open>false\<close> in both cases; a text that does not parse
  leaves the value as it was.
\<close>

definition Serialize :: "('v \<Rightarrow> string option) \<Rightarrow> 'v \<Rightarrow> string \<Rightarrow> bool \<times> string" where
  "Serialize write val str = (case write val of None \<Rightarrow> (False, str) | Some s \<Rightarrow> (True, s))"

definition UnSerialize :: "(string \<Rightarrow> 'v option) \<Rightarrow> string \<Rightarrow> 'v \<Rightarrow> bool \<times> 'v" where
  "UnSerialize parse str val = (case parse str of None \<Rightarrow> (False, val) | Some v \<Rightarrow> (False, v))"

lemma Serialize_str [simp]: "snd (Serialize write val str) = (case write val of None \<Rightarrow> str | Some s \<Rightarrow> s)"
  by (simp add: Serialize_def split: option.split)

lemma UnSerialize_val [simp]: "snd (UnSerialize parse str val) = (case parse str of None \<Rightarrow> val | Some v \<Rightarrow> v)"
  by (simp add: UnSerialize_def split: option.split)

text \<open>The value comes back when the library's parser reads what its writer wrote, but the result tells the opposite.\<close>

lemma Serialize_UnSerialize:
  assumes "write v = Some s" "parse s = Some v"
  shows "UnSerialize parse (snd (Serialize write v [])) w = (False, v)"
  using assms by (simp add: UnSerialize_def)

end
