(* ===== verification/Storage_Data.thy ===== *)
theory Storage_Data
  imports Storage_Util "HOL-Library.AList"
begin

text \<open>
  The table of stored files (\<open>HttpServer/src/server/DataManager.hpp\<close>) with the configuration it
  reads (\<open>Config.hpp\<close>). The JSON library is a parameter: a printer and a parser of lists of items,
  assumed to be inverse where a lemma needs it; the order in which the \<open>unordered_map\<close> is walked
  is a parameter too. The lock is whether it is held by the service's only thread; asking for it
  again either fails with \<open>EDEADLK\<close> or never returns, the argument \<open>edeadlk\<close>. A result
  \<^term>\<open>None\<close> is a call that never returns.
\<close>

section \<open>The code\<close>

record Config =
  cf_server_port :: int
  cf_server_ip :: string
  cf_download_prefix :: string
  cf_deep_storage_dir :: string
  cf_low_storage_dir :: string
  cf_storage_info :: string
  cf_bundle_format :: int

text \<open>
  Reading the configuration: the JSON library gives the members of the parsed text (of an empty value when it does not
  parse), and \<open>asInt\<close> and \<open>asString\<close> throw for a value of another type. Before that the numbers are indeterminate.
\<close>

record conf_lib =
  cj_int :: "string \<Rightarrow> string \<Rightarrow> int res"
  cj_string :: "string \<Rightarrow> string \<Rightarrow> string res"

definition Config_File :: string where
  "Config_File = ''Storage.conf''"

definition ReadConfig :: "conf_lib \<Rightarrow> fsys \<Rightarrow> Config \<Rightarrow> (bool \<times> Config) res" where
  "ReadConfig L fs conf =
     (case GetContent Config_File fs of
        None \<Rightarrow> Inr (False, conf)
      | Some content \<Rightarrow>
          bind_res (cj_int L content ''server_port'') (\<lambda>port.
          bind_res (cj_string L content ''server_ip'') (\<lambda>ip.
          bind_res (cj_string L content ''download_prefix'') (\<lambda>pre.
          bind_res (cj_string L content ''storage_info'') (\<lambda>info.
          bind_res (cj_string L content ''deep_storage_dir'') (\<lambda>deep.
          bind_res (cj_string L content ''low_storage_dir'') (\<lambda>low.
          bind_res (cj_int L content ''bundle_format'') (\<lambda>fmt.
            Inr (True, \<lparr>cf_server_port = port, cf_server_ip = ip, cf_download_prefix = pre, cf_deep_storage_dir = deep,
                        cf_low_storage_dir = low, cf_storage_info = info, cf_bundle_format = fmt\<rparr>)))))))))"

definition Config_new :: "conf_lib \<Rightarrow> fsys \<Rightarrow> int \<Rightarrow> int \<Rightarrow> Config res" where
  "Config_new L fs port fmt =
     bind_res (ReadConfig L fs \<lparr>cf_server_port = port, cf_server_ip = [], cf_download_prefix = [], cf_deep_storage_dir = [],
                 cf_low_storage_dir = [], cf_storage_info = [], cf_bundle_format = fmt\<rparr>) (\<lambda>r. Inr (snd r))"

text \<open>The singleton: the mutex is locked and unlocked by hand, so that it stays locked when the constructor throws. \<open>None\<close> is a call that blocks.\<close>

record config_single =
  cs_instance :: "Config option"
  cs_locked :: bool

definition GetInstance :: "Config res \<Rightarrow> config_single \<Rightarrow> (Config res \<times> config_single) option" where
  "GetInstance made s =
     (case cs_instance s of
        Some c \<Rightarrow> Some (Inr c, s)
      | None \<Rightarrow>
          if cs_locked s then None
          else (case made of
                  Inl e \<Rightarrow> Some (Inl e, s\<lparr>cs_locked := True\<rparr>)
                | Inr c \<Rightarrow> Some (Inr c, s\<lparr>cs_instance := Some c\<rparr>)))"

text \<open>
  The first configuration that is read stays; after a constructor that threw, every later call blocks.
\<close>

lemma GetInstance_stable:
  assumes "GetInstance (Config_new L fs p f) \<lparr>cs_instance = None, cs_locked = False\<rparr> = Some (r, s)"
  shows "case r of Inr c \<Rightarrow> GetInstance (Config_new L' fs' p' f') s = Some (Inr c, s) | Inl _ \<Rightarrow> GetInstance (Config_new L' fs' p' f') s = None"
  using assms by (auto simp: GetInstance_def split: sum.splits)

record StorageInfo =
  si_mtime :: int
  si_atime :: int
  si_fsize :: nat
  si_storage_path :: string
  si_url :: string

text \<open>
  \<open>NewStorageInfo\<close> leaves the information as it was when the file is not there. The two times are
  stored the wrong way round, as in the code.
\<close>

definition NewStorageInfo :: "Config \<Rightarrow> string \<Rightarrow> fsys \<Rightarrow> StorageInfo option" where
  "NewStorageInfo conf storage_path fs =
     (if \<not> Exists storage_path fs then None
      else Some \<lparr>si_mtime = LastAccessTime storage_path fs, si_atime = LastModifyTime storage_path fs,
                 si_fsize = nat (FileSize storage_path fs mod 2 ^ 64), si_storage_path = storage_path,
                 si_url = cf_download_prefix conf @ FileName storage_path\<rparr>)"

record DataManager =
  dm_storage_file :: string
  dm_locked :: bool
  dm_table :: "(string \<times> StorageInfo) list"

text \<open>An item of the JSON text: all numbers are 64-bit.\<close>

record item =
  it_mtime :: int
  it_atime :: int
  it_fsize :: int
  it_url :: string
  it_storage_path :: string

record json =
  js_write :: "item list \<Rightarrow> string option"
  js_parse :: "string \<Rightarrow> item list option"
  js_iter :: "(string \<times> StorageInfo) list \<Rightarrow> (string \<times> StorageInfo) list"

definition wrlock :: "bool \<Rightarrow> bool \<Rightarrow> bool option" where
  "wrlock edeadlk locked = (if locked \<and> \<not> edeadlk then None else Some True)"

definition GetAll :: "bool \<Rightarrow> json \<Rightarrow> DataManager \<Rightarrow> (StorageInfo list \<times> DataManager) option" where
  "GetAll edeadlk js dm =
     (case wrlock edeadlk (dm_locked dm) of
        None \<Rightarrow> None
      | Some _ \<Rightarrow> Some (map snd (js_iter js (dm_table dm)), dm\<lparr>dm_locked := False\<rparr>))"

text \<open>The casts to \<open>Int64\<close>; the strings are cut at a zero byte by \<open>c_str\<close>.\<close>

definition cstr :: "string \<Rightarrow> string" where
  "cstr s = takeWhile (\<lambda>c. c \<noteq> CHR 0x00) s"

definition as_int64 :: "nat \<Rightarrow> int" where
  "as_int64 n = (if n < 2 ^ 63 then int n else int n - 2 ^ 64)"

definition to_item :: "StorageInfo \<Rightarrow> item" where
  "to_item e = \<lparr>it_mtime = si_mtime e, it_atime = si_atime e, it_fsize = as_int64 (si_fsize e),
                it_url = cstr (si_url e), it_storage_path = cstr (si_storage_path e)\<rparr>"

definition Storage :: "bool \<Rightarrow> json \<Rightarrow> write_env \<Rightarrow> DataManager \<Rightarrow> fsys \<Rightarrow> (DataManager \<times> fsys) option" where
  "Storage edeadlk js w dm fs =
     (case GetAll edeadlk js dm of
        None \<Rightarrow> None
      | Some (arr, dm1) \<Rightarrow>
          (let body = snd (Serialize (js_write js) (map to_item arr) []) in
           Some (dm1, snd (SetContent w (dm_storage_file dm1) body fs))))"

definition DataManager_Insert ::
  "bool \<Rightarrow> json \<Rightarrow> write_env \<Rightarrow> StorageInfo \<Rightarrow> DataManager \<Rightarrow> fsys \<Rightarrow> (DataManager \<times> fsys) option" where
  "DataManager_Insert edeadlk js w info dm fs =
     (case wrlock edeadlk (dm_locked dm) of
        None \<Rightarrow> None
      | Some _ \<Rightarrow> Storage edeadlk js w (dm\<lparr>dm_table := AList.update (si_url info) info (dm_table dm), dm_locked := False\<rparr>) fs)"

text \<open>\<open>Update\<close> is the same.\<close>

definition DataManager_Update where
  "DataManager_Update = DataManager_Insert"

text \<open>
  Both lookups ask for the lock where they should release it, and \<open>GetOneByURL\<close> does not release it
  when the key is missing.
\<close>

definition GetOneByURL :: "bool \<Rightarrow> string \<Rightarrow> DataManager \<Rightarrow> (StorageInfo option \<times> DataManager) option" where
  "GetOneByURL edeadlk key dm =
     (case wrlock edeadlk (dm_locked dm) of
        None \<Rightarrow> None
      | Some l \<Rightarrow>
          (case map_of (dm_table dm) key of
             None \<Rightarrow> Some (None, dm\<lparr>dm_locked := l\<rparr>)
           | Some info \<Rightarrow>
               (case wrlock edeadlk l of
                  None \<Rightarrow> None
                | Some l' \<Rightarrow> Some (Some info, dm\<lparr>dm_locked := l'\<rparr>))))"

definition GetOneByStoragePath ::
  "bool \<Rightarrow> json \<Rightarrow> string \<Rightarrow> DataManager \<Rightarrow> (StorageInfo option \<times> DataManager) option" where
  "GetOneByStoragePath edeadlk js storage_path dm =
     (case wrlock edeadlk (dm_locked dm) of
        None \<Rightarrow> None
      | Some l \<Rightarrow>
          (case find (\<lambda>e. si_storage_path (snd e) = storage_path) (js_iter js (dm_table dm)) of
             None \<Rightarrow> Some (None, dm\<lparr>dm_locked := False\<rparr>)
           | Some e \<Rightarrow>
               (case wrlock edeadlk l of
                  None \<Rightarrow> None
                | Some l' \<Rightarrow> Some (Some (snd e), dm\<lparr>dm_locked := l'\<rparr>))))"

text \<open>\<open>asInt\<close> throws when the value does not fit an \<open>int\<close>; the \<open>int\<close> goes to a \<open>size_t\<close> for the size.\<close>

definition as_int :: "int \<Rightarrow> int res" where
  "as_int v = (if - (2 ^ 31) \<le> v \<and> v < 2 ^ 31 then Inr v
               else Inl (Exception (Runtime_Error ''LargestInt out of Int range'')))"

definition of_item :: "item \<Rightarrow> StorageInfo res" where
  "of_item i =
     bind_res (as_int (it_fsize i)) (\<lambda>fsize.
     bind_res (as_int (it_atime i)) (\<lambda>atime.
     bind_res (as_int (it_mtime i)) (\<lambda>mtime.
       Inr \<lparr>si_mtime = mtime, si_atime = atime, si_fsize = nat (fsize mod 2 ^ 64),
            si_storage_path = it_storage_path i, si_url = it_url i\<rparr>)))"

text \<open>Each \<open>Insert\<close> of the loop writes the file again; a throw leaves the loop.\<close>

fun load_loop ::
  "bool \<Rightarrow> json \<Rightarrow> write_env \<Rightarrow> item list \<Rightarrow> DataManager \<Rightarrow> fsys \<Rightarrow> (fault option \<times> DataManager \<times> fsys) option" where
  "load_loop edeadlk js w [] dm fs = Some (None, dm, fs)"
| "load_loop edeadlk js w (i # is) dm fs =
     (case of_item i of
        Inl e \<Rightarrow> Some (Some e, dm, fs)
      | Inr info \<Rightarrow>
          (case DataManager_Insert edeadlk js w info dm fs of
             None \<Rightarrow> None
           | Some (dm1, fs1) \<Rightarrow> load_loop edeadlk js w is dm1 fs1))"

definition InitLoad ::
  "bool \<Rightarrow> json \<Rightarrow> write_env \<Rightarrow> DataManager \<Rightarrow> fsys \<Rightarrow> (fault option \<times> DataManager \<times> fsys) option" where
  "InitLoad edeadlk js w dm fs =
     (if \<not> Exists (dm_storage_file dm) fs then Some (None, dm, fs)
      else (case GetContent (dm_storage_file dm) fs of
              None \<Rightarrow> Some (None, dm, fs)
            | Some body \<Rightarrow>
                load_loop edeadlk js w (snd (UnSerialize (js_parse js) body [])) dm fs))"

definition DataManager_new ::
  "bool \<Rightarrow> json \<Rightarrow> write_env \<Rightarrow> Config \<Rightarrow> fsys \<Rightarrow> (fault option \<times> DataManager \<times> fsys) option" where
  "DataManager_new edeadlk js w conf fs =
     InitLoad edeadlk js w \<lparr>dm_storage_file = cf_storage_info conf, dm_locked = False, dm_table = []\<rparr> fs"

section \<open>The lock\<close>

lemma Insert_returns:
  "edeadlk \<or> \<not> dm_locked dm \<Longrightarrow>
   \<exists>fs'. DataManager_Insert edeadlk js w info dm fs =
     Some (dm\<lparr>dm_table := AList.update (si_url info) info (dm_table dm), dm_locked := False\<rparr>, fs')"
  by (auto simp: DataManager_Insert_def Storage_def GetAll_def wrlock_def Let_def)

text \<open>
  A lookup never gives the lock back. Whenever \<open>GetOneByURL\<close> returns, the lock is held
  afterwards; on a system whose lock blocks a second request of its owner, a lookup of a stored
  file never returns at all, and after a lookup of an unknown one no operation of the table
  returns any more.
\<close>

theorem GetOneByURL_keeps_lock:
  assumes "\<not> dm_locked dm"
  shows "(\<forall>edeadlk r dm'. GetOneByURL edeadlk key dm = Some (r, dm') \<longrightarrow> dm_locked dm')
    \<and> (map_of (dm_table dm) key \<noteq> None \<longrightarrow> GetOneByURL False key dm = None)
    \<and> (map_of (dm_table dm) key = None \<longrightarrow>
        (\<exists>dm'. GetOneByURL False key dm = Some (None, dm') \<and> GetOneByURL False k dm' = None
          \<and> GetAll False js dm' = None \<and> DataManager_Insert False js w info dm' fs = None))"
  using assms
  by (auto simp: GetOneByURL_def GetAll_def DataManager_Insert_def wrlock_def split: option.splits if_splits)

theorem GetOneByURL_keeps_lock_witness:
  "GetOneByURL False ''/download/a''
     \<lparr>dm_storage_file = ''s'', dm_locked = False, dm_table = [(''/download/a'', \<lparr>si_mtime = 0, si_atime = 0, si_fsize = 1,
        si_storage_path = ''a'', si_url = ''/download/a''\<rparr>)]\<rparr> = None"
proof -
  let ?dm = "\<lparr>dm_storage_file = ''s'', dm_locked = False, dm_table = [(''/download/a'', \<lparr>si_mtime = 0, si_atime = 0, si_fsize = 1,
        si_storage_path = ''a'', si_url = ''/download/a''\<rparr>)]\<rparr> :: DataManager"
  have "\<not> dm_locked ?dm" by simp
  from GetOneByURL_keeps_lock [OF this, of "''/download/a''" "[]"] show ?thesis by simp
qed

section \<open>Persistence\<close>

definition info_fits :: "StorageInfo \<Rightarrow> bool" where
  "info_fits e \<longleftrightarrow> si_fsize e < 2 ^ 31 \<and> - (2 ^ 31) \<le> si_mtime e \<and> si_mtime e < 2 ^ 31
     \<and> - (2 ^ 31) \<le> si_atime e \<and> si_atime e < 2 ^ 31"

definition info_plain :: "StorageInfo \<Rightarrow> bool" where
  "info_plain e \<longleftrightarrow> si_fsize e < 2 ^ 63 \<and> CHR 0x00 \<notin> set (si_url e) \<and> CHR 0x00 \<notin> set (si_storage_path e)"

lemma cstr_id: "CHR 0x00 \<notin> set s \<Longrightarrow> cstr s = s"
  unfolding cstr_def by (induction s) auto

lemma as_int64_small: "n < 2 ^ 31 \<Longrightarrow> as_int64 n = int n"
  by (simp add: as_int64_def)

lemma of_to_item: "info_fits e \<Longrightarrow> info_plain e \<Longrightarrow> of_item (to_item e) = Inr e"
  by (simp add: of_item_def to_item_def as_int_def info_fits_def info_plain_def cstr_id as_int64_small)

lemma load_loop_all:
  assumes "\<forall>e \<in> set es. info_fits e \<and> info_plain e" "\<not> dm_locked dm"
  shows "\<exists>fs'. load_loop edeadlk js w (map to_item es) dm fs =
    Some (None, dm\<lparr>dm_table := fold (\<lambda>e. AList.update (si_url e) e) es (dm_table dm)\<rparr>, fs')"
  using assms
proof (induction es arbitrary: dm fs)
  case (Cons e es)
  obtain fs1 where "DataManager_Insert edeadlk js w e dm fs =
      Some (dm\<lparr>dm_table := AList.update (si_url e) e (dm_table dm), dm_locked := False\<rparr>, fs1)"
    using Insert_returns [of edeadlk dm] Cons.prems(2) by blast
  then show ?case
    using Cons.IH [of "dm\<lparr>dm_table := AList.update (si_url e) e (dm_table dm), dm_locked := False\<rparr>" fs1] Cons.prems of_to_item [of e]
    by (cases dm) simp
qed simp

lemma of_item_throws:
  assumes "\<not> info_fits e" "info_plain e"
  shows "of_item (to_item e) = Inl (Exception (Runtime_Error ''LargestInt out of Int range''))"
proof -
  have "as_int64 (si_fsize e) = int (si_fsize e)" using assms(2) by (simp add: as_int64_def info_plain_def)
  then show ?thesis using assms(1) by (auto simp: of_item_def to_item_def as_int_def info_fits_def)
qed

lemma load_loop_throws:
  assumes "\<forall>e \<in> set es. info_plain e" "\<exists>e \<in> set es. \<not> info_fits e" "\<not> dm_locked dm"
  shows "\<exists>dm' fs'. load_loop edeadlk js w (map to_item es) dm fs =
    Some (Some (Exception (Runtime_Error ''LargestInt out of Int range'')), dm', fs')"
  using assms
proof (induction es arbitrary: dm fs)
  case (Cons e es)
  show ?case
  proof (cases "info_fits e")
    case True
    obtain fs1 where "DataManager_Insert edeadlk js w e dm fs =
        Some (dm\<lparr>dm_table := AList.update (si_url e) e (dm_table dm), dm_locked := False\<rparr>, fs1)"
      using Insert_returns [of edeadlk dm] Cons.prems(3) by blast
    then show ?thesis using Cons True of_to_item [of e] by simp
  next
    case False
    then show ?thesis using Cons.prems of_item_throws [of e] by simp
  qed
qed simp

text \<open>The entries of a table are filed under their own URL, once.\<close>

definition table_ok :: "(string \<times> StorageInfo) list \<Rightarrow> bool" where
  "table_ok t \<longleftrightarrow> distinct (map fst t) \<and> (\<forall>(k, e) \<in> set t. k = si_url e)"

lemma table_ok_update:
  assumes "table_ok t"
  shows "table_ok (AList.update (si_url e) e t)"
proof -
  have "distinct (map fst (AList.update (si_url e) e t))" using assms by (simp add: table_ok_def distinct_update)
  moreover have "set (AList.update (si_url e) e t) \<subseteq> insert (si_url e, e) (set t)"
    by (induction t) auto
  ultimately show ?thesis using assms by (auto simp: table_ok_def)
qed

lemma fold_update_map_of:
  "map_of (fold (\<lambda>e. AList.update (si_url e) e) es t) = map_of t ++ map_of (rev (map (\<lambda>e. (si_url e, e)) es))"
  by (induction es arbitrary: t) (auto simp: update_conv map_add_def fun_eq_iff split: option.splits)

text \<open>
  The table survives a restart. When the table is written and the program starts again, the new
  table has the same entries, provided the JSON library reads what it wrote, the file can be
  written, and every size and time fits 32 bits: with a size or time beyond (a file of 2 GB, a
  time after 2038) loading throws instead.
\<close>

theorem InitLoad_restores:
  assumes "js_write js (map to_item (map snd (js_iter js (dm_table dm)))) = Some b"
    and "js_parse js b = Some (map to_item (map snd (js_iter js (dm_table dm))))" "length b < 2 ^ 64"
    and "set (js_iter js (dm_table dm)) = set (dm_table dm)" "distinct (map fst (js_iter js (dm_table dm)))"
    and "table_ok (dm_table dm)" "\<forall>(k, e) \<in> set (dm_table dm). info_plain e"
    and "\<not> dm_locked dm" "dm_storage_file dm = cf_storage_info conf" "write_ok w (cf_storage_info conf)"
  shows "\<exists>dm1 fs1 r dm2 fs2. Storage edeadlk js w dm fs = Some (dm1, fs1)
    \<and> DataManager_new edeadlk js w conf fs1 = Some (r, dm2, fs2)
    \<and> (if \<forall>(k, e) \<in> set (dm_table dm). info_fits e
       then r = None \<and> map_of (dm_table dm2) = map_of (dm_table dm)
       else r = Some (Exception (Runtime_Error ''LargestInt out of Int range'')))"
proof -
  let ?t = "js_iter js (dm_table dm)"
  let ?es = "map snd ?t"
  let ?dm0 = "\<lparr>dm_storage_file = cf_storage_info conf, dm_locked = False, dm_table = []\<rparr> :: DataManager"
  obtain fs1 where st: "Storage edeadlk js w dm fs = Some (dm\<lparr>dm_locked := False\<rparr>, fs1)" "fs_file fs1 (cf_storage_info conf) = Some b"
    using assms(1,8,9,10) by (auto simp: Storage_def GetAll_def wrlock_def SetContent_ok)
  have load: "DataManager_new edeadlk js w conf fs1 = load_loop edeadlk js w (map to_item ?es) ?dm0 fs1"
    using GetContent_file [OF st(2) assms(3)] st(2) assms(2) by (simp add: DataManager_new_def InitLoad_def Exists_def)
  have plain: "\<forall>e \<in> set ?es. info_plain e" using assms(4,7) by auto
  have fits: "(\<forall>(k, e) \<in> set (dm_table dm). info_fits e) \<longleftrightarrow> (\<forall>e \<in> set ?es. info_fits e)" using assms(4) by auto
  show ?thesis
  proof (cases "\<forall>e \<in> set ?es. info_fits e")
    case True
    have key: "map (\<lambda>e. (si_url e, e)) ?es = ?t"
      using assms(4,6) by (auto simp: table_ok_def intro!: map_idI)
    have "map_of (rev ?t) = map_of (dm_table dm)"
      using assms(4,5,6) map_of_inject_set [of "rev ?t" "dm_table dm"] by (simp add: table_ok_def flip: rev_map)
    then have "map_of (fold (\<lambda>e. AList.update (si_url e) e) ?es []) = map_of (dm_table dm)"
      unfolding fold_update_map_of key by simp
    moreover obtain fs2 where "load_loop edeadlk js w (map to_item ?es) ?dm0 fs1
        = Some (None, ?dm0\<lparr>dm_table := fold (\<lambda>e. AList.update (si_url e) e) ?es []\<rparr>, fs2)"
      using load_loop_all [of ?es ?dm0 edeadlk js w fs1] True plain by auto
    ultimately show ?thesis using st(1) load fits True by auto
  next
    case False
    then show ?thesis
      using load_loop_throws [of ?es ?dm0 edeadlk js w fs1] plain st(1) load fits by auto
  qed
qed

definition sample_info :: StorageInfo where
  "sample_info = \<lparr>si_mtime = 7, si_atime = 8, si_fsize = 9, si_storage_path = ''p'', si_url = ''u''\<rparr>"

definition sample_json :: json where
  "sample_json = \<lparr>js_write = (\<lambda>is. if is = [to_item sample_info] then Some ''1'' else Some ''0''),
     js_parse = (\<lambda>b. if b = ''1'' then Some [to_item sample_info] else Some []), js_iter = (\<lambda>t. t)\<rparr>"

definition sample_conf :: Config where
  "sample_conf = \<lparr>cf_server_port = 8081, cf_server_ip = ''127.0.0.1'', cf_download_prefix = ''/download/'',
     cf_deep_storage_dir = ''./deep_storage/'', cf_low_storage_dir = ''./low_storage/'',
     cf_storage_info = ''./storage.data'', cf_bundle_format = 4\<rparr>"

definition sample_write :: write_env where
  "sample_write = \<lparr>we_open = (\<lambda>_. True), we_fail = (\<lambda>_. None), we_now = 100\<rparr>"

definition sample_fs :: fsys where
  "sample_fs = \<lparr>fs_file = Map.empty, fs_dir = (\<lambda>_. False), fs_dirsize = (\<lambda>_. 4096), fs_mtime = (\<lambda>_. 5), fs_atime = (\<lambda>_. 6)\<rparr>"

theorem InitLoad_restores_witness:
  "\<exists>dm1 fs1 dm2 fs2. Storage True sample_json sample_write
      \<lparr>dm_storage_file = ''./storage.data'', dm_locked = False, dm_table = [(''u'', sample_info)]\<rparr> sample_fs = Some (dm1, fs1)
    \<and> DataManager_new True sample_json sample_write sample_conf fs1 = Some (None, dm2, fs2)
    \<and> map_of (dm_table dm2) ''u'' = Some sample_info"
proof -
  let ?dm = "\<lparr>dm_storage_file = ''./storage.data'', dm_locked = False, dm_table = [(''u'', sample_info)]\<rparr> :: DataManager"
  have "\<exists>dm1 fs1 r dm2 fs2. Storage True sample_json sample_write ?dm sample_fs = Some (dm1, fs1)
    \<and> DataManager_new True sample_json sample_write sample_conf fs1 = Some (r, dm2, fs2)
    \<and> (if \<forall>(k, e) \<in> set (dm_table ?dm). info_fits e
       then r = None \<and> map_of (dm_table dm2) = map_of (dm_table ?dm)
       else r = Some (Exception (Runtime_Error ''LargestInt out of Int range'')))"
    by (rule InitLoad_restores [where b = "''1''"])
       (simp_all add: sample_json_def sample_info_def table_ok_def info_plain_def sample_conf_def write_ok_def sample_write_def)
  moreover have "\<forall>(k, e) \<in> set (dm_table ?dm). info_fits e" by (simp add: sample_info_def info_fits_def)
  ultimately show ?thesis by auto
qed

end
