(* ===== verification/Base64.thy ===== *)
theory Base64
  imports Prelude
begin

unbundle bit_operations_syntax

text \<open>
  Base64 coding (\<open>HttpServer/src/server/base64.cpp\<close>), with which the storage service makes file
  names safe. Bytes are characters, their values natural numbers with the bit operations of the
  code; the narrowing to a character at the end is \<^const>\<open>char_of\<close>. The counter of the encoder is
  a 32-bit \<open>unsigned int\<close>: the model is for inputs below 4 GB. The lemmas show that decoding
  undoes encoding, in both alphabets and with line breaks.
\<close>

section \<open>The code\<close>

definition base64_chars :: "bool \<Rightarrow> string" where
  "base64_chars url =
     ''ABCDEFGHIJKLMNOPQRSTUVWXYZ'' @ ''abcdefghijklmnopqrstuvwxyz'' @ ''0123456789''
     @ (if url then ''-_'' else ''+/'')"

abbreviation ord :: "char \<Rightarrow> nat" where
  "ord c \<equiv> of_char c"

definition pos_of_char :: "char \<Rightarrow> nat res" where
  "pos_of_char chr =
     (if ord (CHR ''A'') \<le> ord chr \<and> ord chr \<le> ord (CHR ''Z'') then Inr (ord chr - ord (CHR ''A''))
      else if ord (CHR ''a'') \<le> ord chr \<and> ord chr \<le> ord (CHR ''z'')
      then Inr (ord chr - ord (CHR ''a'') + (ord (CHR ''Z'') - ord (CHR ''A'')) + 1)
      else if ord (CHR ''0'') \<le> ord chr \<and> ord chr \<le> ord (CHR ''9'')
      then Inr (ord chr - ord (CHR ''0'') + (ord (CHR ''Z'') - ord (CHR ''A'')) + (ord (CHR ''z'') - ord (CHR ''a'')) + 2)
      else if chr = CHR ''+'' \<or> chr = CHR ''-'' then Inr 62
      else if chr = CHR ''/'' \<or> chr = CHR ''_'' then Inr 63
      else Inl (Exception (Runtime_Error ''Input is not valid base64-encoded data.'')))"

text \<open>The loop inserts a line feed at \<open>pos\<close> and goes on; with a distance of zero it would never end.\<close>

partial_function (option) linebreak_loop :: "nat \<Rightarrow> nat \<Rightarrow> string \<Rightarrow> string option" where
  "linebreak_loop distance pos str =
     (if pos < length str
      then linebreak_loop distance (pos + distance + 1) (take pos str @ [CHR 0x0A] @ drop pos str)
      else Some str)"

definition insert_linebreaks :: "string \<Rightarrow> nat \<Rightarrow> string option" where
  "insert_linebreaks str distance = (if str = [] then Some [] else linebreak_loop distance distance str)"

fun encode_loop :: "bool \<Rightarrow> string \<Rightarrow> string" where
  "encode_loop url [] = []"
| "encode_loop url [a] =
     [base64_chars url ! drop_bit 2 (ord a AND 0xfc),
      base64_chars url ! push_bit 4 (ord a AND 0x03),
      (if url then CHR ''.'' else CHR ''=''), (if url then CHR ''.'' else CHR ''='')]"
| "encode_loop url [a, b] =
     [base64_chars url ! drop_bit 2 (ord a AND 0xfc),
      base64_chars url ! (push_bit 4 (ord a AND 0x03) + drop_bit 4 (ord b AND 0xf0)),
      base64_chars url ! push_bit 2 (ord b AND 0x0f),
      (if url then CHR ''.'' else CHR ''='')]"
| "encode_loop url (a # b # c # rest) =
     [base64_chars url ! drop_bit 2 (ord a AND 0xfc),
      base64_chars url ! (push_bit 4 (ord a AND 0x03) + drop_bit 4 (ord b AND 0xf0)),
      base64_chars url ! (push_bit 2 (ord b AND 0x0f) + drop_bit 6 (ord c AND 0xc0)),
      base64_chars url ! (ord c AND 0x3f)] @ encode_loop url rest"

definition base64_encode :: "string \<Rightarrow> bool \<Rightarrow> string" where
  "base64_encode s url = encode_loop url s"

definition base64_encode_pem :: "string \<Rightarrow> string option" where
  "base64_encode_pem s = insert_linebreaks (base64_encode s False) 64"

definition base64_encode_mime :: "string \<Rightarrow> string option" where
  "base64_encode_mime s = insert_linebreaks (base64_encode s False) 76"

definition is_pad :: "char \<Rightarrow> bool" where
  "is_pad c \<longleftrightarrow> c = CHR ''='' \<or> c = CHR ''.''"

text \<open>
  One turn takes four characters, or what is left; \<open>at\<close> throws when the second is missing. The
  turn emits one to three bytes.
\<close>

definition decode_chunk :: "string \<Rightarrow> string res" where
  "decode_chunk s =
     (case s of
        x # y # rest \<Rightarrow>
          bind_res (pos_of_char y) (\<lambda>p1.
          bind_res (pos_of_char x) (\<lambda>p0.
            let b0 = char_of (push_bit 2 p0 + drop_bit 4 (p1 AND 0x30)) in
            case rest of
              [] \<Rightarrow> Inr [b0]
            | z # rest2 \<Rightarrow>
                if is_pad z then Inr [b0]
                else bind_res (pos_of_char z) (\<lambda>p2.
                  let b1 = char_of (push_bit 4 (p1 AND 0x0f) + drop_bit 2 (p2 AND 0x3c)) in
                  case rest2 of
                    [] \<Rightarrow> Inr [b0, b1]
                  | w # _ \<Rightarrow>
                      if is_pad w then Inr [b0, b1]
                      else bind_res (pos_of_char w) (\<lambda>p3.
                        Inr [b0, b1, char_of (push_bit 6 (p2 AND 0x03) + p3)]))))
      | _ \<Rightarrow> Inl (Exception (Out_Of_Range ''basic_string::at'')))"

function (sequential) decode_loop :: "string \<Rightarrow> string res" where
  "decode_loop s =
     (if s = [] then Inr []
      else bind_res (decode_chunk (take 4 s))
             (\<lambda>bs. bind_res (decode_loop (drop 4 s)) (\<lambda>rest. Inr (bs @ rest))))"
  by pat_completeness auto
termination by (relation "measure length") auto

declare decode_loop.simps [simp del]

definition base64_decode :: "string \<Rightarrow> bool \<Rightarrow> string res" where
  "base64_decode s remove_linebreaks =
     (if s = [] then Inr []
      else if remove_linebreaks then decode_loop (removeAll (CHR 0x0A) s)
      else decode_loop s)"

section \<open>Characters and their places\<close>

lemma length_base64_chars [simp]: "length (base64_chars url) = 64"
  by (simp add: base64_chars_def)

definition alphabet_ok :: "bool \<Rightarrow> nat \<Rightarrow> bool" where
  "alphabet_ok url n \<longleftrightarrow> pos_of_char (base64_chars url ! n) = Inr n \<and> \<not> is_pad (base64_chars url ! n)
     \<and> base64_chars url ! n \<noteq> CHR 0x0A"

lemma alphabet_all: "list_all (alphabet_ok True) [0..<64]" "list_all (alphabet_ok False) [0..<64]"
  by code_simp+

lemma alphabet:
  assumes "n < 64"
  shows "pos_of_char (base64_chars url ! n) = Inr n" "\<not> is_pad (base64_chars url ! n)"
    "base64_chars url ! n \<noteq> CHR 0x0A"
  using alphabet_all assms by (cases url; auto simp: list_all_iff alphabet_ok_def)+

text \<open>The masks and shifts as division and remainder.\<close>

lemma ord_less [simp]: "ord c < 256"
  by (rule nat_of_char_less_256)

lemma and_low:
  fixes x :: nat
  shows "x AND 0x03 = x mod 4" "x AND 0x0f = x mod 16" "x AND 0x3f = x mod 64"
  using take_bit_eq_mask [of 2 x] take_bit_eq_mask [of 4 x] take_bit_eq_mask [of 6 x]
  by (simp_all add: mask_eq_exp_minus_1 take_bit_eq_mod)

lemma drop_bit_and_numeral:
  fixes x :: nat
  shows "drop_bit 2 (x AND 0xfc) = drop_bit 2 x AND 0x3f" "drop_bit 4 (x AND 0xf0) = drop_bit 4 x AND 0x0f"
    "drop_bit 6 (x AND 0xc0) = drop_bit 6 x AND 0x03" "drop_bit 4 (x AND 0x30) = drop_bit 4 x AND 0x03"
    "drop_bit 2 (x AND 0x3c) = drop_bit 2 x AND 0x0f"
  by (simp_all add: drop_bit_and)

lemma and_high:
  fixes x :: nat
  shows "x < 256 \<Longrightarrow> drop_bit 2 (x AND 0xfc) = x div 4"
    and "x < 256 \<Longrightarrow> drop_bit 4 (x AND 0xf0) = x div 16"
    and "x < 256 \<Longrightarrow> drop_bit 6 (x AND 0xc0) = x div 64"
    and "x < 64 \<Longrightarrow> drop_bit 4 (x AND 0x30) = x div 16"
    and "x < 64 \<Longrightarrow> drop_bit 2 (x AND 0x3c) = x div 4"
  unfolding drop_bit_and_numeral and_low by (simp_all add: drop_bit_eq_div)

lemma push_mult: "push_bit 2 (x :: nat) = x * 4" "push_bit 4 x = x * 16" "push_bit 6 x = x * 64"
  by (simp_all add: push_bit_eq_mult)

lemmas bits_as_arith = and_low and_high push_mult

text \<open>The four places of three bytes, and back.\<close>

lemma places:
  fixes a b c :: nat
  assumes "a < 256" "b < 256" "c < 256"
  shows "a div 4 < 64" "a mod 4 * 16 + b div 16 < 64" "b mod 16 * 4 + c div 64 < 64" "a mod 4 * 16 < 64" "b mod 16 * 4 < 64"
    "a div 4 * 4 + (a mod 4 * 16 + b div 16) div 16 = a"
    "(a mod 4 * 16 + b div 16) mod 16 * 16 + (b mod 16 * 4 + c div 64) div 4 = b"
    "(b mod 16 * 4 + c div 64) mod 4 * 64 + c mod 64 = c"
proof -
  have d: "b div 16 < 16" "c div 64 < 4" "a div 4 < 64" "a mod 4 < 4" "b mod 16 < 16" using assms by (auto simp: less_mult_imp_div_less)
  then show "a div 4 < 64" "a mod 4 * 16 + b div 16 < 64" "b mod 16 * 4 + c div 64 < 64" "a mod 4 * 16 < 64" "b mod 16 * 4 < 64"
    by linarith+
  show "a div 4 * 4 + (a mod 4 * 16 + b div 16) div 16 = a"
    "(a mod 4 * 16 + b div 16) mod 16 * 16 + (b mod 16 * 4 + c div 64) div 4 = b"
    "(b mod 16 * 4 + c div 64) mod 4 * 64 + c mod 64 = c"
    using d by (simp_all add: div_mult_mod_eq)
qed

lemma char_of_ord [simp]: "char_of (ord c) = c"
  by (rule char_of_char)

text \<open>Both directions in terms of places.\<close>

lemma encode_loop_places:
  "encode_loop url [a] = [base64_chars url ! (ord a div 4), base64_chars url ! (ord a mod 4 * 16),
     (if url then CHR ''.'' else CHR ''=''), (if url then CHR ''.'' else CHR ''='')]"
  "encode_loop url [a, b] = [base64_chars url ! (ord a div 4), base64_chars url ! (ord a mod 4 * 16 + ord b div 16),
     base64_chars url ! (ord b mod 16 * 4), (if url then CHR ''.'' else CHR ''='')]"
  "encode_loop url (a # b # c # rest) = [base64_chars url ! (ord a div 4), base64_chars url ! (ord a mod 4 * 16 + ord b div 16),
     base64_chars url ! (ord b mod 16 * 4 + ord c div 64), base64_chars url ! (ord c mod 64)] @ encode_loop url rest"
  unfolding encode_loop.simps
  unfolding bits_as_arith and_high(1) [OF ord_less] and_high(2) [OF ord_less] and_high(3) [OF ord_less] by (rule refl)+

lemma decode_chunk_places:
  assumes "p0 < 64" "p1 < 64"
  shows "is_pad z \<Longrightarrow> decode_chunk (base64_chars url ! p0 # base64_chars url ! p1 # z # rest) = Inr [char_of (p0 * 4 + p1 div 16)]"
    and "p2 < 64 \<Longrightarrow> is_pad w \<Longrightarrow> decode_chunk (base64_chars url ! p0 # base64_chars url ! p1 # base64_chars url ! p2 # w # rest)
      = Inr [char_of (p0 * 4 + p1 div 16), char_of (p1 mod 16 * 16 + p2 div 4)]"
    and "p2 < 64 \<Longrightarrow> p3 < 64 \<Longrightarrow>
      decode_chunk [base64_chars url ! p0, base64_chars url ! p1, base64_chars url ! p2, base64_chars url ! p3]
      = Inr [char_of (p0 * 4 + p1 div 16), char_of (p1 mod 16 * 16 + p2 div 4), char_of (p2 mod 4 * 64 + p3)]"
  using assms
  by (simp_all only: decode_chunk_def list.case alphabet bind_res_simps Let_def bits_as_arith if_True if_False simp_thms)

lemma decode_three: "decode_chunk (take 4 (encode_loop url (a # b # c # rest))) = Inr [a, b, c]"
proof -
  note pl = places [of "ord a" "ord b" "ord c", OF ord_less ord_less ord_less]
  have "take 4 (encode_loop url (a # b # c # rest)) = [base64_chars url ! (ord a div 4), base64_chars url ! (ord a mod 4 * 16 + ord b div 16),
     base64_chars url ! (ord b mod 16 * 4 + ord c div 64), base64_chars url ! (ord c mod 64)]"
    unfolding encode_loop_places by simp
  moreover have "ord c mod 64 < 64" by simp
  ultimately show ?thesis
    using decode_chunk_places(3) [of "ord a div 4" "ord a mod 4 * 16 + ord b div 16" "ord b mod 16 * 4 + ord c div 64" "ord c mod 64" url]
    unfolding pl(6-8) by (simp only: pl(1-5) char_of_ord simp_thms)
qed

lemma decode_two: "decode_chunk (take 4 (encode_loop url [a, b])) = Inr [a, b]"
proof -
  note pl = places [of "ord a" "ord b" 0, OF ord_less ord_less]
  have p: "is_pad (if url then CHR ''.'' else CHR ''='')" by (simp add: is_pad_def)
  have t: "take 4 (encode_loop url [a, b]) = [base64_chars url ! (ord a div 4), base64_chars url ! (ord a mod 4 * 16 + ord b div 16),
     base64_chars url ! (ord b mod 16 * 4), (if url then CHR ''.'' else CHR ''='')]"
    unfolding encode_loop_places by simp
  show ?thesis unfolding t
    using decode_chunk_places(2) [of "ord a div 4" "ord a mod 4 * 16 + ord b div 16" "ord b mod 16 * 4" _ url "[]", OF _ _ _ p] pl by simp
qed

lemma decode_one: "decode_chunk (take 4 (encode_loop url [a])) = Inr [a]"
proof -
  note pl = places [of "ord a" 0 0, OF ord_less]
  have p: "is_pad (if url then CHR ''.'' else CHR ''='')" by (simp add: is_pad_def)
  have t: "take 4 (encode_loop url [a]) = [base64_chars url ! (ord a div 4), base64_chars url ! (ord a mod 4 * 16),
     (if url then CHR ''.'' else CHR ''=''), (if url then CHR ''.'' else CHR ''='')]"
    unfolding encode_loop_places by simp
  show ?thesis unfolding t
    using decode_chunk_places(1) [of "ord a div 4" "ord a mod 4 * 16" _ url "[if url then CHR ''.'' else CHR ''='']", OF _ _ p] pl by simp
qed

lemma decode_encode_loop: "decode_loop (encode_loop url s) = Inr s"
proof (induction url s rule: encode_loop.induct)
  case (1 url)
  show ?case by (simp add: decode_loop.simps)
next
  case (2 url a)
  have "drop 4 (encode_loop url [a]) = []" "encode_loop url [a] \<noteq> []" by simp_all
  then show ?case using decode_one [of url a] by (subst decode_loop.simps) (simp add: decode_loop.simps [of "[]"])
next
  case (3 url a b)
  have "drop 4 (encode_loop url [a, b]) = []" "encode_loop url [a, b] \<noteq> []" by simp_all
  then show ?case using decode_two [of url a b] by (subst decode_loop.simps) (simp add: decode_loop.simps [of "[]"])
next
  case (4 url a b c rest)
  have "drop 4 (encode_loop url (a # b # c # rest)) = encode_loop url rest" "encode_loop url (a # b # c # rest) \<noteq> []" by simp_all
  then show ?case using decode_three [of url a b c rest] 4 by (subst decode_loop.simps) simp
qed

lemma encode_loop_Nil_iff [simp]: "encode_loop url s = [] \<longleftrightarrow> s = []"
  by (cases "(url, s)" rule: encode_loop.cases) auto

lemma encode_alphabet: "set (encode_loop url s) \<subseteq> set (base64_chars url) \<union> {CHR ''.'', CHR ''=''}"
proof (induction url s rule: encode_loop.induct)
  case (4 url a b c rest)
  then show ?case
    using places(1-3) [of "ord a" "ord b" "ord c", OF ord_less ord_less ord_less] unfolding encode_loop_places by simp
next
  case (3 url a b)
  show ?case using places(1,2,5) [of "ord a" "ord b" 0, OF ord_less ord_less] unfolding encode_loop_places by simp
next
  case (2 url a)
  show ?case using places(1,4) [of "ord a" 0 0, OF ord_less] unfolding encode_loop_places by simp
qed simp

lemma encode_no_linefeed: "CHR 0x0A \<notin> set (encode_loop url s)"
proof -
  have "CHR 0x0A \<notin> set (base64_chars url)" by (simp add: base64_chars_def)
  then show ?thesis using encode_alphabet [of url s] by auto
qed

lemma linebreak_loop_removes:
  assumes "0 < distance"
  shows "\<exists>r. linebreak_loop distance pos str = Some r \<and> removeAll (CHR 0x0A) r = removeAll (CHR 0x0A) str \<and> length str \<le> length r"
proof (induction "length str - pos" arbitrary: pos str rule: less_induct)
  case less
  show ?case
  proof (cases "pos < length str")
    case True
    define s where "s = take pos str @ [CHR 0x0A] @ drop pos str"
    have "removeAll (CHR 0x0A) s = removeAll (CHR 0x0A) (take pos str @ drop pos str)"
      by (simp add: s_def del: append_take_drop_id)
    then have rem: "removeAll (CHR 0x0A) s = removeAll (CHR 0x0A) str" by simp
    have len: "length s = Suc (length str)" using True by (simp add: s_def)
    have "length s - (pos + distance + 1) < length str - pos" using True assms len by simp
    from less.hyps [OF this] obtain r where "linebreak_loop distance (pos + distance + 1) s = Some r"
        "removeAll (CHR 0x0A) r = removeAll (CHR 0x0A) str" "Suc (length str) \<le> length r"
      using rem len by auto
    then show ?thesis using True by (subst linebreak_loop.simps) (simp add: s_def)
  next
    case False
    then show ?thesis by (subst linebreak_loop.simps) simp
  qed
qed

lemma base64_decode_encode: "base64_decode (base64_encode s url) False = Inr s"
  using decode_encode_loop [of url s] by (auto simp: base64_decode_def base64_encode_def)


end
