(* ===== verification/Storage_Service.thy ===== *)
theory Storage_Service
  imports Storage_Data Base64
begin

text \<open>
  The handlers of the storage service (\<open>HttpServer/src/server/Service.hpp\<close>): the dispatch, upload
  and download. A request is what the event library hands over: the path of its URI, its body, its
  headers. A handler returns the replies it sends and the new state, may stop at an exception, an
  assertion or undefined behaviour, and may never return when the table's lock blocks. The
  lemmas show that what is uploaded is what is
  downloaded, in both storage modes, and what happens to a request for an unknown file.
\<close>

section \<open>The code\<close>

record request =
  rq_path :: string
  rq_body :: "string option"
  rq_copyout :: bool
  rq_header :: "string \<Rightarrow> string option"

record reply =
  rp_code :: nat
  rp_reason :: "string option"
  rp_headers :: "(string \<times> string) list"
  rp_body :: string

definition plain_reply :: "nat \<Rightarrow> string option \<Rightarrow> reply" where
  "plain_reply code reason = \<lparr>rp_code = code, rp_reason = reason, rp_headers = [], rp_body = []\<rparr>"

record srv =
  sv_fs :: fsys
  sv_data :: DataManager

text \<open>
  The outside of the service: the configuration, the JSON and compression libraries, the lock,
  what the system says to writing and to opening for reading, and the text \<open>ctime\<close> gives for a
  time, which depends on the time zone.
\<close>

record world =
  wo_conf :: Config
  wo_json :: json
  wo_pack :: "int \<Rightarrow> string \<Rightarrow> string"
  wo_unpack :: "string \<Rightarrow> string"
  wo_edeadlk :: bool
  wo_write :: write_env
  wo_readable :: "string \<Rightarrow> bool"
  wo_ctime :: "int \<Rightarrow> string"

type_synonym handled = "(reply list \<times> srv) res option"

text \<open>The conversion of a header to a \<open>std::string\<close>: a missing header is a null pointer.\<close>

definition header_string :: "request \<Rightarrow> string \<Rightarrow> string res" where
  "header_string req name = (case rq_header req name of None \<Rightarrow> Inl Undefined_Behaviour | Some v \<Rightarrow> Inr v)"

text \<open>The part of \<open>Upload\<close> that puts the file on disk: packed unless the path says \<open>low_storage\<close>.\<close>

definition store_content :: "world \<Rightarrow> string \<Rightarrow> string \<Rightarrow> fsys \<Rightarrow> bool \<times> fsys" where
  "store_content wo storage_path content fs =
     (if find_str ''low_storage'' storage_path \<noteq> None
      then SetContent (wo_write wo) storage_path content fs
      else Compress (wo_pack wo) (wo_write wo) storage_path content (cf_bundle_format (wo_conf wo)) fs)"

definition finish_upload :: "world \<Rightarrow> string \<Rightarrow> srv \<Rightarrow> handled" where
  "finish_upload wo storage_path sv =
     (case NewStorageInfo (wo_conf wo) storage_path (sv_fs sv) of
        None \<Rightarrow> Some (Inl Undefined_Behaviour)
      | Some info \<Rightarrow>
          (case DataManager_Insert (wo_edeadlk wo) (wo_json wo) (wo_write wo) info (sv_data sv) (sv_fs sv) of
             None \<Rightarrow> None
           | Some (dm, fs) \<Rightarrow> Some (Inr ([plain_reply 200 (Some ''Success'')], \<lparr>sv_fs = fs, sv_data = dm\<rparr>))))"

definition Upload :: "world \<Rightarrow> request \<Rightarrow> srv \<Rightarrow> handled" where
  "Upload wo req sv =
     (case rq_body req of
        None \<Rightarrow> Some (Inr ([], sv))
      | Some content \<Rightarrow>
          if length content = 0 then Some (Inr ([plain_reply 400 (Some ''file empty'')], sv))
          else if \<not> rq_copyout req then Some (Inr ([plain_reply 500 None], sv))
          else
            (case bind_res (header_string req ''FileName'') (\<lambda>f. bind_res (base64_decode f False)
                    (\<lambda>filename. bind_res (header_string req ''StorageType'') (\<lambda>ty. Inr (filename, ty)))) of
               Inl e \<Rightarrow> Some (Inl e)
             | Inr (filename, storage_type) \<Rightarrow>
                 (if storage_type \<noteq> ''low'' \<and> storage_type \<noteq> ''deep''
                  then Some (Inr ([plain_reply 400 (Some ''Illegal storage type'')], sv))
                  else
                    (let dir = (if storage_type = ''low'' then cf_low_storage_dir (wo_conf wo) else cf_deep_storage_dir (wo_conf wo));
                         fs1 = FileUtil_CreateDirectory dir (sv_fs sv);
                         storage_path = dir @ filename in
                     case store_content wo storage_path content fs1 of
                       (False, fs2) \<Rightarrow> Some (Inr ([plain_reply 500 (Some ''server error'')], sv\<lparr>sv_fs := fs2\<rparr>))
                     | (True, fs2) \<Rightarrow> finish_upload wo storage_path (sv\<lparr>sv_fs := fs2\<rparr>)))))"

definition GetETag :: "StorageInfo \<Rightarrow> string" where
  "GetETag info =
     FileName (si_storage_path info) @ ''-'' @ string_of_nat (si_fsize info) @ ''-'' @ string_of_int (si_mtime info)"

text \<open>
  The first part of \<open>Download\<close>: where the file to send is, after unpacking it when its path does not
  have the low storage directory in it.
\<close>

definition prepare_download :: "world \<Rightarrow> string \<Rightarrow> fsys \<Rightarrow> string \<times> fsys" where
  "prepare_download wo storage_path fs =
     (let low = cf_low_storage_dir (wo_conf wo) in
      if find_str low storage_path = None
      then (let download_path = low @ FileName storage_path;
                fs1 = FileUtil_CreateDirectory low fs in
            (download_path, snd (UnCompress (wo_unpack wo) (wo_write wo) storage_path download_path fs1)))
      else (storage_path, fs))"

text \<open>The replies sent before the file is looked for; sending one does not return.\<close>

definition early_replies :: "bool \<Rightarrow> string \<Rightarrow> reply list" where
  "early_replies there storage_path =
     (if \<not> there \<and> find_str ''deep_storage'' storage_path \<noteq> None then [plain_reply 500 None]
      else if \<not> there \<and> find_str ''low_storage'' storage_path = None then [plain_reply 400 (Some ''file not exists'')]
      else [])"

text \<open>
  The rest of \<open>Download\<close>. \<open>info\<close> is \<^term>\<open>None\<close> when the lookup failed: the strings of the
  \<open>StorageInfo\<close> are then empty and its numbers have no value, so that reading its tag is undefined.
\<close>

definition send_file :: "world \<Rightarrow> request \<Rightarrow> StorageInfo option \<Rightarrow> string \<Rightarrow> string \<Rightarrow> srv \<Rightarrow> (reply list \<times> srv) res" where
  "send_file wo req info storage_path download_path sv =
     (let there = Exists download_path (sv_fs sv);
          replies = early_replies there storage_path in
      if rq_header req ''If-Range'' \<noteq> None \<and> info = None then Inl Undefined_Behaviour
      else
        (let retrans = (case (rq_header req ''If-Range'', info) of
                          (Some old_etag, Some i) \<Rightarrow> old_etag = GetETag i
                        | _ \<Rightarrow> False) in
         if \<not> there then Inr (replies @ [plain_reply 404 (Some (download_path @ ''not exists''))], sv)
         else if \<not> wo_readable wo download_path then Inr (replies @ [plain_reply 500 (Some ''open'')], sv)
         else
           (case info of
              None \<Rightarrow> Inl Undefined_Behaviour
            | Some i \<Rightarrow>
                (let body = (case fs_file (sv_fs sv) download_path of None \<Rightarrow> [] | Some c \<Rightarrow> c);
                     headers = [(''Accept-Ranges'', ''bytes''), (''ETag'', GetETag i), (''Content-Type'', ''application/octet-stream'')];
                     rep = (if retrans
                            then \<lparr>rp_code = 206, rp_reason = Some ''breakpoint continuous transmission'', rp_headers = headers, rp_body = body\<rparr>
                            else \<lparr>rp_code = 200, rp_reason = Some ''Success'', rp_headers = headers, rp_body = body\<rparr>);
                     fs' = (if download_path \<noteq> storage_path then remove_file download_path (sv_fs sv) else sv_fs sv) in
                 Inr (replies @ [rep], sv\<lparr>sv_fs := fs'\<rparr>)))))"

definition Download :: "world \<Rightarrow> request \<Rightarrow> srv \<Rightarrow> handled" where
  "Download wo req sv =
     (case UrlDecode (rq_path req) of
        Inl e \<Rightarrow> Some (Inl e)
      | Inr resource_path \<Rightarrow>
          (case GetOneByURL (wo_edeadlk wo) resource_path (sv_data sv) of
             None \<Rightarrow> None
           | Some (info, dm) \<Rightarrow>
               (let storage_path = (case info of None \<Rightarrow> [] | Some i \<Rightarrow> si_storage_path i) in
                case prepare_download wo storage_path (sv_fs sv) of
                  (download_path, fs1) \<Rightarrow>
                    Some (send_file wo req info storage_path download_path \<lparr>sv_fs = fs1, sv_data = dm\<rparr>))))"

text \<open>The size as the page shows it: two decimals of the exact quotient, ties to even.\<close>

fun size_units :: "nat \<Rightarrow> nat \<Rightarrow> nat \<Rightarrow> nat" where
  "size_units 0 bytes d = 0"
| "size_units (Suc k) bytes d = (if bytes \<ge> 1024 * d then Suc (size_units k bytes (1024 * d)) else 0)"

definition round_half_even :: "nat \<Rightarrow> nat \<Rightarrow> nat" where
  "round_half_even n d =
     (let q = n div d; r = n mod d in
      if 2 * r < d then q else if 2 * r > d then q + 1 else if even q then q else q + 1)"

definition formatSize :: "nat \<Rightarrow> string" where
  "formatSize bytes =
     (let u = size_units 3 bytes 1;
          h = round_half_even (100 * bytes) (1024 ^ u) in
      string_of_nat (h div 100) @ ''.'' @ [digit_chr (h mod 100 div 10), digit_chr (h mod 10)]
      @ '' '' @ [''B'', ''KB'', ''MB'', ''GB''] ! u)"

text \<open>The list of the files as HTML; the literals are UTF-8.\<close>

definition file_item :: "world \<Rightarrow> StorageInfo \<Rightarrow> string" where
  "file_item wo file =
     (let filename = FileName (si_storage_path file);
          storage_type = (if find_str ''/deep/'' (si_storage_path file) \<noteq> None then ''deep'' else ''low'') in
      ''<div class='' @ [CHR 0x27] @ ''file-item'' @ [CHR 0x27] @ ''>''
      @ ''<div class='' @ [CHR 0x27] @ ''file-info'' @ [CHR 0x27] @ ''>''
      @ ''<span>'' @ [CHR 0xF0, CHR 0x9F, CHR 0x93, CHR 0x84] @ filename @ ''</span>''
      @ ''<span class='' @ [CHR 0x27] @ ''file-type'' @ [CHR 0x27] @ ''>''
      @ (if storage_type = ''deep'' then [CHR 0xE6, CHR 0xB7, CHR 0xB1, CHR 0xE5, CHR 0xBA, CHR 0xA6, CHR 0xE5, CHR 0xAD, CHR 0x98, CHR 0xE5, CHR 0x82, CHR 0xA8]
         else [CHR 0xE6, CHR 0x99, CHR 0xAE, CHR 0xE9, CHR 0x80, CHR 0x9A, CHR 0xE5, CHR 0xAD, CHR 0x98, CHR 0xE5, CHR 0x82, CHR 0xA8])
      @ ''</span>''
      @ ''<span>'' @ formatSize (si_fsize file) @ ''</span>''
      @ ''<span>'' @ wo_ctime wo (si_mtime file) @ ''</span>''
      @ ''</div>''
      @ ''<button onclick='' @ [CHR 0x22] @ ''window.location='' @ [CHR 0x27] @ si_url file @ [CHR 0x27, CHR 0x22] @ ''>'' @ [CHR 0xE2, CHR 0xAC, CHR 0x87, CHR 0xEF, CHR 0xB8, CHR 0x8F] @ '' '' @ [CHR 0xE4, CHR 0xB8, CHR 0x8B, CHR 0xE8, CHR 0xBD, CHR 0xBD] @ ''</button>''
      @ ''</div>'')"

definition generateModernFileList :: "world \<Rightarrow> StorageInfo list \<Rightarrow> string" where
  "generateModernFileList wo files =
     ''<div class='' @ [CHR 0x27] @ ''file-list'' @ [CHR 0x27] @ ''><h3>'' @ [CHR 0xE5, CHR 0xB7, CHR 0xB2, CHR 0xE4, CHR 0xB8, CHR 0x8A, CHR 0xE4, CHR 0xBC, CHR 0xA0, CHR 0xE6, CHR 0x96, CHR 0x87, CHR 0xE4, CHR 0xBB, CHR 0xB6] @ ''</h3>''
     @ concat (map (file_item wo) files) @ ''</div>''"

text \<open>
  \<open>std::regex_replace\<close> for a pattern that is a plain text: the matches from left to right, each
  replaced by the format, in which \<open>$$\<close> is a dollar sign, \<open>$&\<close>, \<open>$`\<close> and \<open>$'\<close> stand for the match, what
  is before it and what is after it, and \<open>$\<close> with a digit for a group, of which there are none.
\<close>

fun expand_format :: "string \<Rightarrow> string \<Rightarrow> string \<Rightarrow> string \<Rightarrow> string" where
  "expand_format pre m post (c # d # fmt) =
     (if c = CHR ''$''
      then (if d = CHR ''$'' then CHR ''$'' # expand_format pre m post fmt
            else if d = CHR ''&'' then m @ expand_format pre m post fmt
            else if d = CHR 0x60 then pre @ expand_format pre m post fmt
            else if d = CHR 0x27 then post @ expand_format pre m post fmt
            else if c_isdigit d then expand_format pre m post fmt
            else c # expand_format pre m post (d # fmt))
      else c # expand_format pre m post (d # fmt))"
| "expand_format pre m post fmt = fmt"

function (sequential) regex_replace :: "string \<Rightarrow> string \<Rightarrow> string \<Rightarrow> string" where
  "regex_replace pat fmt s =
     (case find_str pat s of
        None \<Rightarrow> s
      | Some i \<Rightarrow>
          if pat = [] then s
          else (let pre = take i s; rest = drop (i + length pat) s in
                pre @ expand_format pre pat rest fmt @ regex_replace pat fmt rest))"
  by pat_completeness auto
termination
proof (relation "measure (\<lambda>(_, _, s). length s)")
  fix pat fmt s :: string and i pre rest
  assume "find_str pat s = Some i" "pat \<noteq> []" "rest = drop (i + length pat) s"
  then show "((pat, fmt, rest), (pat, fmt, s)) \<in> measure (\<lambda>(_, _, s). length s)"
    using find_str_bound [of pat s i] by (cases pat) auto
qed simp

declare regex_replace.simps [simp del]

definition list_page :: "world \<Rightarrow> string \<Rightarrow> StorageInfo list \<Rightarrow> string" where
  "list_page wo templateContent arr =
     regex_replace ''{{BACKEND_URL}}''
       (''http://'' @ cf_server_ip (wo_conf wo) @ '':'' @ string_of_int (cf_server_port (wo_conf wo)))
       (regex_replace ''{{FILE_LIST}}'' (generateModernFileList wo arr) templateContent)"

definition ListShow :: "world \<Rightarrow> srv \<Rightarrow> handled" where
  "ListShow wo sv =
     (case GetAll (wo_edeadlk wo) (wo_json wo) (sv_data sv) of
        None \<Rightarrow> None
      | Some (arr, dm) \<Rightarrow>
          (let templateContent = (case fs_file (sv_fs sv) ''index.html'' of None \<Rightarrow> [] | Some c \<Rightarrow> c) in
           Some (Inr ([\<lparr>rp_code = 200, rp_reason = None, rp_headers = [(''Content-Type'', ''text/html;charset=utf-8'')],
                        rp_body = list_page wo templateContent arr\<rparr>], sv\<lparr>sv_data := dm\<rparr>))))"

text \<open>A format without a dollar sign is copied; with one match it stands in its place.\<close>

lemma expand_format_plain: "CHR ''$'' \<notin> set fmt \<Longrightarrow> expand_format pre m post fmt = fmt"
  by (induction pre m post fmt rule: expand_format.induct) auto

lemma regex_replace_once:
  assumes "find_str pat s = Some i" "pat \<noteq> []" "find_str pat (drop (i + length pat) s) = None" "CHR ''$'' \<notin> set fmt"
  shows "regex_replace pat fmt s = take i s @ fmt @ drop (i + length pat) s"
proof -
  have "regex_replace pat fmt (drop (i + length pat) s) = drop (i + length pat) s"
    using assms(3) by (subst regex_replace.simps) simp
  then show ?thesis
    using assms by (subst regex_replace.simps) (simp add: Let_def expand_format_plain)
qed

definition GenHandler :: "world \<Rightarrow> request \<Rightarrow> srv \<Rightarrow> handled" where
  "GenHandler wo req sv =
     (case UrlDecode (rq_path req) of
        Inl e \<Rightarrow> Some (Inl e)
      | Inr path \<Rightarrow>
          if find_str ''/download/'' path \<noteq> None then Download wo req sv
          else if path = ''/upload'' then Upload wo req sv
          else if path = ''/'' then ListShow wo sv
          else Some (Inr ([plain_reply 404 (Some ''Not Found'')], sv)))"

section \<open>Uploads and downloads\<close>

lemma find_str_self: "find_str p (p @ s) = Some 0"
proof (cases p)
  case Nil
  then show ?thesis by (cases s) simp_all
qed simp

text \<open>What the configuration and the names have to be: the directories end in a slash and are told apart by their names.\<close>

definition names_ok :: "Config \<Rightarrow> string \<Rightarrow> string \<Rightarrow> string \<Rightarrow> bool" where
  "names_ok conf ld dd n \<longleftrightarrow>
     cf_low_storage_dir conf = ld @ ''/'' \<and> cf_deep_storage_dir conf = dd @ ''/''
     \<and> find_str ''low_storage'' (ld @ ''/'' @ n) \<noteq> None
     \<and> find_str ''low_storage'' (dd @ ''/'' @ n) = None \<and> find_str (ld @ ''/'') (dd @ ''/'' @ n) = None
     \<and> CHR ''/'' \<notin> set n \<and> find_str ''/download/'' (cf_download_prefix conf @ n) \<noteq> None
     \<and> cf_storage_info conf \<noteq> ld @ ''/'' @ n \<and> cf_storage_info conf \<noteq> dd @ ''/'' @ n"

definition world_ok :: "world \<Rightarrow> string \<Rightarrow> bool" where
  "world_ok wo c \<longleftrightarrow> wo_edeadlk wo \<and> (\<forall>p. write_ok (wo_write wo) p) \<and> (\<forall>p. wo_readable wo p)
     \<and> length (wo_pack wo (cf_bundle_format (wo_conf wo)) c) < 2 ^ 64
     \<and> wo_pack wo (cf_bundle_format (wo_conf wo)) c \<noteq> []
     \<and> wo_unpack wo (wo_pack wo (cf_bundle_format (wo_conf wo)) c) = c"

definition upload_request :: "string \<Rightarrow> string \<Rightarrow> string \<Rightarrow> request" where
  "upload_request ty n c = \<lparr>rq_path = ''/upload'', rq_body = Some c, rq_copyout = True,
     rq_header = [''FileName'' \<mapsto> base64_encode n False, ''StorageType'' \<mapsto> ty]\<rparr>"

definition download_request :: "string \<Rightarrow> request" where
  "download_request path = \<lparr>rq_path = path, rq_body = None, rq_copyout = True, rq_header = Map.empty\<rparr>"

text \<open>What an upload changes: its own entry and file, and the file of the table.\<close>

lemma finish_upload_ok:
  assumes "wo_edeadlk wo" "Exists p (sv_fs sv)" "p \<noteq> dm_storage_file (sv_data sv)"
  shows "\<exists>sv' info. finish_upload wo p sv = Some (Inr ([plain_reply 200 (Some ''Success'')], sv'))
    \<and> map_of (dm_table (sv_data sv')) = (map_of (dm_table (sv_data sv)))(cf_download_prefix (wo_conf wo) @ FileName p \<mapsto> info)
    \<and> si_storage_path info = p \<and> dm_storage_file (sv_data sv') = dm_storage_file (sv_data sv)
    \<and> (\<forall>q. q \<noteq> dm_storage_file (sv_data sv) \<longrightarrow> fs_file (sv_fs sv') q = fs_file (sv_fs sv) q)"
proof -
  obtain info where info: "NewStorageInfo (wo_conf wo) p (sv_fs sv) = Some info" "si_storage_path info = p"
      "si_url info = cf_download_prefix (wo_conf wo) @ FileName p"
    using assms(2) by (simp add: NewStorageInfo_def)
  have "\<exists>fs'. DataManager_Insert (wo_edeadlk wo) (wo_json wo) (wo_write wo) info (sv_data sv) (sv_fs sv) =
      Some ((sv_data sv)\<lparr>dm_table := AList.update (si_url info) info (dm_table (sv_data sv)), dm_locked := False\<rparr>, fs')
      \<and> (\<forall>q. q \<noteq> dm_storage_file (sv_data sv) \<longrightarrow> fs_file fs' q = fs_file (sv_fs sv) q)"
    using assms(1) by (auto simp: DataManager_Insert_def Storage_def GetAll_def wrlock_def Let_def SetContent_def)
  then show ?thesis using info by (auto simp: finish_upload_def update_conv')
qed

text \<open>How a file is kept: as it is, or packed, by its path.\<close>

definition kept_as :: "world \<Rightarrow> string \<Rightarrow> string \<Rightarrow> string" where
  "kept_as wo p c = (if find_str ''low_storage'' p \<noteq> None then c else wo_pack wo (cf_bundle_format (wo_conf wo)) c)"

lemma store_content_ok:
  assumes "world_ok wo c" "length c < 2 ^ 64"
  shows "\<exists>fs'. store_content wo p c fs = (True, fs') \<and> fs_file fs' = (fs_file fs)(p \<mapsto> kept_as wo p c)"
  using assms by (auto simp: store_content_def world_ok_def SetContent_ok Compress_def kept_as_def)

definition dir_of :: "world \<Rightarrow> string \<Rightarrow> string" where
  "dir_of wo ty = (if ty = ''low'' then cf_low_storage_dir (wo_conf wo) else cf_deep_storage_dir (wo_conf wo))"

lemma upload_ok:
  assumes "world_ok wo c" "length c < 2 ^ 64" "c \<noteq> []" "ty = ''low'' \<or> ty = ''deep''" "dir_of wo ty @ n \<noteq> dm_storage_file (sv_data sv)"
  shows "\<exists>sv' info. GenHandler wo (upload_request ty n c) sv = Some (Inr ([plain_reply 200 (Some ''Success'')], sv'))
    \<and> map_of (dm_table (sv_data sv')) = (map_of (dm_table (sv_data sv)))(cf_download_prefix (wo_conf wo) @ FileName (dir_of wo ty @ n) \<mapsto> info)
    \<and> si_storage_path info = dir_of wo ty @ n \<and> dm_storage_file (sv_data sv') = dm_storage_file (sv_data sv)
    \<and> (\<forall>q. q \<noteq> dm_storage_file (sv_data sv) \<longrightarrow>
          fs_file (sv_fs sv') q = ((fs_file (sv_fs sv))(dir_of wo ty @ n \<mapsto> kept_as wo (dir_of wo ty @ n) c)) q)"
proof -
  let ?dir = "dir_of wo ty"
  obtain fs2 where fs2: "store_content wo (?dir @ n) c (FileUtil_CreateDirectory ?dir (sv_fs sv)) = (True, fs2)"
      "fs_file fs2 = (fs_file (sv_fs sv))(?dir @ n \<mapsto> kept_as wo (?dir @ n) c)"
    using store_content_ok [OF assms(1,2), of "?dir @ n" "FileUtil_CreateDirectory ?dir (sv_fs sv)"] by auto
  have "GenHandler wo (upload_request ty n c) sv = Upload wo (upload_request ty n c) sv"
    by (simp add: GenHandler_def upload_request_def)
  also have "\<dots> = finish_upload wo (?dir @ n) (sv\<lparr>sv_fs := fs2\<rparr>)"
    using assms(3,4) fs2(1) by (auto simp: Upload_def upload_request_def header_string_def base64_decode_encode dir_of_def [symmetric] Let_def)
  finally show ?thesis
    using finish_upload_ok [of wo "?dir @ n" "sv\<lparr>sv_fs := fs2\<rparr>"] assms(1,5) fs2(2) by (simp add: world_ok_def Exists_def)
qed

section \<open>What the service has of a file\<close>

definition has_file :: "world \<Rightarrow> string \<Rightarrow> string \<Rightarrow> string \<Rightarrow> srv \<Rightarrow> bool" where
  "has_file wo ty n c sv \<longleftrightarrow> (ty = ''low'' \<or> ty = ''deep'')
     \<and> (\<exists>info. map_of (dm_table (sv_data sv)) (cf_download_prefix (wo_conf wo) @ n) = Some info \<and> si_storage_path info = dir_of wo ty @ n)
     \<and> fs_file (sv_fs sv) (dir_of wo ty @ n) = Some (kept_as wo (dir_of wo ty @ n) c)"

lemma names_ok_dir:
  assumes "names_ok (wo_conf wo) ld dd n"
  shows "dir_of wo ty = (if ty = ''low'' then ld else dd) @ ''/''" "FileName (dir_of wo ty @ n) = n"
  using assms FileName_slash [of n] by (auto simp: names_ok_def dir_of_def)

text \<open>The file a download sends: the stored one, or the one unpacked under the same name in the other directory.\<close>

lemma prepare_download_ok:
  assumes "world_ok wo c" "names_ok (wo_conf wo) ld dd n" "has_file wo ty n c sv"
  shows "\<exists>dp fs1. prepare_download wo (dir_of wo ty @ n) (sv_fs sv) = (dp, fs1) \<and> fs_file fs1 dp = Some c
    \<and> (ty = ''low'' \<and> dp = dir_of wo ty @ n \<and> fs1 = sv_fs sv \<or> ty = ''deep'' \<and> dp = ld @ ''/'' @ n \<and> dp \<noteq> dir_of wo ty @ n \<and> fs_file fs1 = (fs_file (sv_fs sv))(dp \<mapsto> c))"
proof (cases "ty = ''low''")
  case True
  then have d: "dir_of wo ty @ n = ld @ ''/'' @ n" using names_ok_dir(1) [OF assms(2)] by simp
  then have "find_str (ld @ ''/'') (dir_of wo ty @ n) = Some 0" using find_str_self [of "ld @ ''/''" n] by simp
  then have "prepare_download wo (dir_of wo ty @ n) (sv_fs sv) = (dir_of wo ty @ n, sv_fs sv)"
    using assms(2) by (simp add: prepare_download_def names_ok_def)
  then show ?thesis using assms(2,3) d True by (simp add: has_file_def kept_as_def names_ok_def)
next
  case False
  let ?low = "cf_low_storage_dir (wo_conf wo)" and ?p = "dir_of wo ty @ n" and ?packed = "wo_pack wo (cf_bundle_format (wo_conf wo)) c"
  have nm: "?low = ld @ ''/''" "find_str (ld @ ''/'') ?p = None" "find_str ''low_storage'' ?p = None"
    using assms(2) False names_ok_dir(1) [OF assms(2), of ty] by (auto simp: names_ok_def)
  have "fs_file (FileUtil_CreateDirectory ?low (sv_fs sv)) ?p = Some ?packed" using assms(3) nm by (simp add: has_file_def kept_as_def)
  then have "GetContent ?p (FileUtil_CreateDirectory ?low (sv_fs sv)) = Some ?packed"
    using assms(1) by (intro GetContent_file) (simp_all add: world_ok_def)
  moreover have "?p \<noteq> ?low @ n" using nm find_str_self [of "ld @ ''/''" n] by auto
  ultimately show ?thesis
    using nm False names_ok_dir(2) [OF assms(2), of ty] assms(1,3)
    by (auto simp: prepare_download_def UnCompress_def Let_def SetContent_ok world_ok_def has_file_def)
qed

definition sent_file :: "StorageInfo \<Rightarrow> string \<Rightarrow> reply" where
  "sent_file info c = \<lparr>rp_code = 200, rp_reason = Some ''Success'',
     rp_headers = [(''Accept-Ranges'', ''bytes''), (''ETag'', GetETag info), (''Content-Type'', ''application/octet-stream'')], rp_body = c\<rparr>"

lemma send_file_ok:
  assumes "wo_readable wo dp" "fs_file (sv_fs sv) dp = Some c"
  shows "send_file wo (download_request path) (Some info) p dp sv
    = Inr ([sent_file info c], sv\<lparr>sv_fs := if dp \<noteq> p then remove_file dp (sv_fs sv) else sv_fs sv\<rparr>)"
  using assms by (simp add: send_file_def download_request_def Exists_def early_replies_def sent_file_def Let_def)

text \<open>
  A download of a file that is there sends it. What was unpacked for it is removed afterwards: no file of that name is left in the
  normal storage, also when one had been uploaded there.
\<close>

lemma download_ok:
  assumes "world_ok wo c" "names_ok (wo_conf wo) ld dd n" "has_file wo ty n c sv"
    and "UrlDecode path = Inr (cf_download_prefix (wo_conf wo) @ n)"
  shows "\<exists>rep sv'. GenHandler wo (download_request path) sv = Some (Inr ([rep], sv')) \<and> rp_code rep = 200 \<and> rp_body rep = c
    \<and> dm_table (sv_data sv') = dm_table (sv_data sv) \<and> dm_storage_file (sv_data sv') = dm_storage_file (sv_data sv)
    \<and> (\<forall>q. ty = ''low'' \<or> q \<noteq> ld @ ''/'' @ n \<longrightarrow> fs_file (sv_fs sv') q = fs_file (sv_fs sv) q)
    \<and> (ty = ''deep'' \<longrightarrow> fs_file (sv_fs sv') (ld @ ''/'' @ n) = None)"
proof -
  let ?url = "cf_download_prefix (wo_conf wo) @ n"
  obtain info where info: "map_of (dm_table (sv_data sv)) ?url = Some info" "si_storage_path info = dir_of wo ty @ n"
    using assms(3) by (auto simp: has_file_def)
  then obtain dm where dm: "GetOneByURL (wo_edeadlk wo) ?url (sv_data sv) = Some (Some info, dm)"
      "dm_table dm = dm_table (sv_data sv)" "dm_storage_file dm = dm_storage_file (sv_data sv)"
    using assms(1) by (auto simp: GetOneByURL_def wrlock_def world_ok_def)
  obtain dp fs1 where prep: "prepare_download wo (dir_of wo ty @ n) (sv_fs sv) = (dp, fs1)" "fs_file fs1 dp = Some c"
      "ty = ''low'' \<and> dp = dir_of wo ty @ n \<and> fs1 = sv_fs sv \<or> ty = ''deep'' \<and> dp = ld @ ''/'' @ n \<and> dp \<noteq> dir_of wo ty @ n \<and> fs_file fs1 = (fs_file (sv_fs sv))(dp \<mapsto> c)"
    using prepare_download_ok [OF assms(1-3)] by blast
  have "find_str ''/download/'' ?url \<noteq> None" using assms(2) by (simp add: names_ok_def)
  then have "GenHandler wo (download_request path) sv = Download wo (download_request path) sv"
    using assms(4) by (simp add: GenHandler_def download_request_def del: find_str.simps)
  also have "\<dots> = Some (send_file wo (download_request path) (Some info) (dir_of wo ty @ n) dp \<lparr>sv_fs = fs1, sv_data = dm\<rparr>)"
    using assms(4) dm info(2) prep(1) by (simp add: Download_def download_request_def)
  also have "\<dots> = Some (Inr ([sent_file info c], \<lparr>sv_fs = if dp \<noteq> dir_of wo ty @ n then remove_file dp fs1 else fs1, sv_data = dm\<rparr>))"
    using send_file_ok [of wo dp "\<lparr>sv_fs = fs1, sv_data = dm\<rparr>" c] assms(1) prep(2) by (simp add: world_ok_def)
  finally have run: "GenHandler wo (download_request path) sv =
      Some (Inr ([sent_file info c], \<lparr>sv_fs = if dp \<noteq> dir_of wo ty @ n then remove_file dp fs1 else fs1, sv_data = dm\<rparr>))" .
  from prep(3) show ?thesis
  proof (elim disjE conjE)
    assume "ty = ''low''" "dp = dir_of wo ty @ n" "fs1 = sv_fs sv"
    then show ?thesis using run dm(2,3) by (simp add: sent_file_def)
  next
    assume deep: "ty = ''deep''" "dp \<noteq> dir_of wo ty @ n" "fs_file fs1 = (fs_file (sv_fs sv))(dp \<mapsto> c)" and dp: "dp = ld @ ''/'' @ n"
    then have "fs_file (remove_file dp fs1) = (fs_file (sv_fs sv))(dp := None)" by (simp add: remove_file_def)
    then show ?thesis
      unfolding dp [symmetric] using run dm(2,3) deep(1,2) by (intro exI [of _ "sent_file info c"]) (simp add: sent_file_def)
  qed
qed

text \<open>
  Asking for an unknown file is undefined, not refused. When the table has no entry for the
  decoded path, the low storage directory has a name and can be opened, the download handler goes
  on with an empty path, ends up with that directory, and reads the uninitialised fields of the
  information it did not get.
\<close>

theorem download_unknown_undefined:
  assumes "UrlDecode (rq_path req) = Inr path" "find_str ''/download/'' path \<noteq> None"
    and "map_of (dm_table (sv_data sv)) path = None" "wo_edeadlk wo \<or> \<not> dm_locked (sv_data sv)"
    and "cf_low_storage_dir (wo_conf wo) \<noteq> []" "wo_readable wo (cf_low_storage_dir (wo_conf wo))"
  shows "GenHandler wo req sv = Some (Inl Undefined_Behaviour)"
proof -
  let ?low = "cf_low_storage_dir (wo_conf wo)"
  obtain dm where dm: "GetOneByURL (wo_edeadlk wo) path (sv_data sv) = Some (None, dm)"
    using assms(3,4) by (auto simp: GetOneByURL_def wrlock_def)
  obtain fs1 where fs1: "prepare_download wo [] (sv_fs sv) = (?low, fs1)" "Exists ?low fs1"
    using assms(5) by (auto simp: prepare_download_def Let_def FileName_def find_last_def UnCompress_Exists split: option.splits)
  have "GenHandler wo req sv = Download wo req sv" using assms(1,2) by (simp add: GenHandler_def)
  then show ?thesis
    using dm fs1 assms(1,6) by (simp add: Download_def send_file_def Let_def)
qed

definition sample_world :: world where
  "sample_world = \<lparr>wo_conf = sample_conf, wo_json = sample_json, wo_pack = (\<lambda>_ c. CHR ''P'' # c), wo_unpack = tl,
     wo_edeadlk = True, wo_write = sample_write, wo_readable = (\<lambda>_. True), wo_ctime = (\<lambda>_. [])\<rparr>"

definition sample_srv :: srv where
  "sample_srv = \<lparr>sv_fs = sample_fs, sv_data = \<lparr>dm_storage_file = ''./storage.data'', dm_locked = False, dm_table = []\<rparr>\<rparr>"

lemma sample_names: "names_ok sample_conf ''./low_storage'' ''./deep_storage'' ''a.txt''"
  by (simp add: names_ok_def sample_conf_def)

lemma sample_world_ok: "length c < 2 ^ 63 \<Longrightarrow> world_ok sample_world c"
  by (simp add: world_ok_def sample_world_def write_ok_def sample_write_def)

theorem download_unknown_undefined_witness:
  "GenHandler sample_world (download_request ''/download/x'') sample_srv = Some (Inl Undefined_Behaviour)"
  by (rule download_unknown_undefined [where path = "''/download/x''"])
     (simp_all add: download_request_def sample_world_def sample_srv_def sample_conf_def)

end
