(* ===== verification/Storage_Map.thy ===== *)
theory Storage_Map
  imports Storage_Service
begin

text \<open>
  The storage service as a whole (\<open>HttpServer/src/server/Service.hpp\<close>): its construction from the configuration, its start
  on the event library, and the requests it is then given, one after the other. What it promises is a map from
  names to contents, in which an upload sets a name and a download reads it; the refinement lemma shows that
  the service with its table, its two directories, its compression and its encodings is this map.
\<close>

section \<open>Start\<close>

record Service =
  se_server_port :: nat
  se_server_ip :: string
  se_download_prefix :: string

text \<open>The port is an \<open>int\<close> of the configuration and a \<open>uint16_t\<close> of the service.\<close>

definition Service_new :: "Config \<Rightarrow> Service" where
  "Service_new conf =
     \<lparr>se_server_port = nat (cf_server_port conf mod 2 ^ 16), se_server_ip = cf_server_ip conf, se_download_prefix = cf_download_prefix conf\<rparr>"

text \<open>The requests that the event loop hands to \<open>GenHandler\<close>; what a handler throws, or a handler that hangs, ends the run.\<close>

fun service_run :: "world \<Rightarrow> request list \<Rightarrow> srv \<Rightarrow> (reply list list \<times> srv) res option" where
  "service_run wo [] sv = Some (Inr ([], sv))"
| "service_run wo (req # reqs) sv =
     (case GenHandler wo req sv of
        None \<Rightarrow> None
      | Some (Inl e) \<Rightarrow> Some (Inl e)
      | Some (Inr (replies, sv')) \<Rightarrow>
          (case service_run wo reqs sv' of
             None \<Rightarrow> None
           | Some (Inl e) \<Rightarrow> Some (Inl e)
           | Some (Inr (rest, sv'')) \<Rightarrow> Some (Inr (replies # rest, sv''))))"

text \<open>What the event library says: whether there is an event base and an HTTP server, and whether a port could be bound.\<close>

record event_lib =
  ev_base :: bool
  ev_httpd :: bool
  ev_bind :: "string \<Rightarrow> nat \<Rightarrow> int"

text \<open>
  \<open>RunModule\<close>: it listens on all addresses, whatever the configured one; a null HTTP server is not noticed. The result of the
  dispatch is only written to the log.
\<close>

definition RunModule :: "event_lib \<Rightarrow> world \<Rightarrow> request list \<Rightarrow> Service \<Rightarrow> srv \<Rightarrow> (bool \<times> reply list list \<times> srv) res option" where
  "RunModule ev wo reqs se sv =
     (if \<not> ev_base ev then Some (Inr (False, [], sv))
      else if \<not> ev_httpd ev then Some (Inl Undefined_Behaviour)
      else if ev_bind ev ''0.0.0.0'' (se_server_port se) \<noteq> 0 then Some (Inr (False, [], sv))
      else (case service_run wo reqs sv of
              None \<Rightarrow> None
            | Some (Inl e) \<Rightarrow> Some (Inl e)
            | Some (Inr (rs, sv')) \<Rightarrow> Some (Inr (True, rs, sv'))))"

section \<open>The contract\<close>

datatype storage_call = Put string string string | Fetch string | Index

type_synonym contents = "string \<Rightarrow> string option"

text \<open>The answer to a call: the status codes, and for a download the bodies.\<close>

fun map_answer :: "storage_call \<Rightarrow> contents \<Rightarrow> nat list \<times> string list" where
  "map_answer (Put ty n c) m = ([200], [])"
| "map_answer (Fetch n) m = ([200], [case m n of Some c \<Rightarrow> c | None \<Rightarrow> []])"
| "map_answer Index m = ([200], [])"

fun map_after :: "storage_call \<Rightarrow> contents \<Rightarrow> contents" where
  "map_after (Put ty n c) m = m(n \<mapsto> c)"
| "map_after (Fetch n) m = m"
| "map_after Index m = m"

fun map_run :: "storage_call list \<Rightarrow> contents \<Rightarrow> (nat list \<times> string list) list \<times> contents" where
  "map_run [] m = ([], m)"
| "map_run (call # calls) m = (case map_run calls (map_after call m) of (as, m') \<Rightarrow> (map_answer call m # as, m'))"

fun observe :: "storage_call \<Rightarrow> reply list \<Rightarrow> nat list \<times> string list" where
  "observe (Fetch n) rs = (map rp_code rs, map rp_body rs)"
| "observe call rs = (map rp_code rs, [])"

text \<open>The request of a call; the URL of a download is encoded in any way that encodes the percent sign.\<close>

fun request_of :: "world \<Rightarrow> (char \<Rightarrow> bool) \<Rightarrow> storage_call \<Rightarrow> request" where
  "request_of wo plain (Put ty n c) = upload_request ty n c"
| "request_of wo plain (Fetch n) = download_request (UrlEncode plain (cf_download_prefix (wo_conf wo) @ n))"
| "request_of wo plain Index = \<lparr>rq_path = ''/'', rq_body = None, rq_copyout = True, rq_header = Map.empty\<rparr>"

text \<open>The calls a client may make: uploads of non-empty files under plain names in one of the two modes, downloads of what is there.\<close>

fun call_ok :: "world \<Rightarrow> string \<Rightarrow> string \<Rightarrow> storage_call \<Rightarrow> contents \<Rightarrow> bool" where
  "call_ok wo ld dd (Put ty n c) m \<longleftrightarrow>
     names_ok (wo_conf wo) ld dd n \<and> world_ok wo c \<and> c \<noteq> [] \<and> length c < 2 ^ 64 \<and> (ty = ''low'' \<or> ty = ''deep'')"
| "call_ok wo ld dd (Fetch n) m \<longleftrightarrow> m n \<noteq> None"
| "call_ok wo ld dd Index m \<longleftrightarrow> wo_edeadlk wo"

fun calls_ok :: "world \<Rightarrow> string \<Rightarrow> string \<Rightarrow> storage_call list \<Rightarrow> contents \<Rightarrow> bool" where
  "calls_ok wo ld dd [] m \<longleftrightarrow> True"
| "calls_ok wo ld dd (call # calls) m \<longleftrightarrow> call_ok wo ld dd call m \<and> calls_ok wo ld dd calls (map_after call m)"

section \<open>The service is the map\<close>

definition stores :: "world \<Rightarrow> string \<Rightarrow> string \<Rightarrow> contents \<Rightarrow> srv \<Rightarrow> bool" where
  "stores wo ld dd m sv \<longleftrightarrow> dm_storage_file (sv_data sv) = cf_storage_info (wo_conf wo)
     \<and> (\<forall>n c. m n = Some c \<longrightarrow> names_ok (wo_conf wo) ld dd n \<and> world_ok wo c \<and> (\<exists>ty. has_file wo ty n c sv))"

lemma names_ok_path:
  assumes "names_ok (wo_conf wo) ld dd n"
  shows "dir_of wo ty @ n \<noteq> cf_storage_info (wo_conf wo)"
    and "names_ok (wo_conf wo) ld dd n' \<Longrightarrow> n' \<noteq> n \<Longrightarrow> dir_of wo ty @ n \<noteq> dir_of wo ty' @ n'"
    and "names_ok (wo_conf wo) ld dd n' \<Longrightarrow> n' \<noteq> n \<Longrightarrow> ld @ ''/'' @ n \<noteq> dir_of wo ty' @ n'"
proof -
  have fn: "FileName (d @ ''/'' @ k) = k" if "names_ok (wo_conf wo) ld dd k" for d k
    using that FileName_slash [of k d] by (simp add: names_ok_def)
  show "dir_of wo ty @ n \<noteq> cf_storage_info (wo_conf wo)" using assms by (auto simp: names_ok_def dir_of_def)
  show "dir_of wo ty @ n \<noteq> dir_of wo ty' @ n'" if "names_ok (wo_conf wo) ld dd n'" "n' \<noteq> n"
    using that names_ok_dir(2) [OF assms, of ty] names_ok_dir(2) [OF that(1), of ty'] by metis
  show "ld @ ''/'' @ n \<noteq> dir_of wo ty' @ n'" if "names_ok (wo_conf wo) ld dd n'" "n' \<noteq> n"
    using that fn [OF assms, of ld] names_ok_dir(2) [OF that(1), of ty'] by metis
qed

lemma put_step:
  assumes "stores wo ld dd m sv" "call_ok wo ld dd (Put ty n c) m"
  shows "\<exists>sv'. GenHandler wo (upload_request ty n c) sv = Some (Inr ([plain_reply 200 (Some ''Success'')], sv')) \<and> stores wo ld dd (m(n \<mapsto> c)) sv'"
proof -
  have ok: "names_ok (wo_conf wo) ld dd n" "world_ok wo c" "c \<noteq> []" "length c < 2 ^ 64" "ty = ''low'' \<or> ty = ''deep''"
    using assms(2) by simp_all
  have fd: "dm_storage_file (sv_data sv) = cf_storage_info (wo_conf wo)" using assms(1) by (simp add: stores_def)
  let ?p = "dir_of wo ty @ n" and ?url = "cf_download_prefix (wo_conf wo) @ n"
  obtain sv' info where up: "GenHandler wo (upload_request ty n c) sv = Some (Inr ([plain_reply 200 (Some ''Success'')], sv'))"
      "map_of (dm_table (sv_data sv')) = (map_of (dm_table (sv_data sv)))(?url \<mapsto> info)" "si_storage_path info = ?p"
      "dm_storage_file (sv_data sv') = cf_storage_info (wo_conf wo)"
      "\<And>q. q \<noteq> cf_storage_info (wo_conf wo) \<Longrightarrow> fs_file (sv_fs sv') q = ((fs_file (sv_fs sv))(?p \<mapsto> kept_as wo ?p c)) q"
    using upload_ok [OF ok(2,4,3,5), of n sv] names_ok_path(1) [OF ok(1), of ty] names_ok_dir(2) [OF ok(1), of ty] fd by auto
  have "has_file wo ty n c sv'"
    using ok(5) up(2,3) up(5) [OF names_ok_path(1) [OF ok(1)], of ty] by (simp add: has_file_def)
  moreover have "has_file wo ty' k d sv'" if "names_ok (wo_conf wo) ld dd k" "k \<noteq> n" "has_file wo ty' k d sv" for ty' k d
    using that up(2) up(5) [OF names_ok_path(1) [OF that(1)], of ty'] names_ok_path(2) [OF ok(1) that(1,2), of ty ty']
    by (simp add: has_file_def)
  ultimately have "stores wo ld dd (m(n \<mapsto> c)) sv'"
    using assms(1) ok(1,2) up(4) by (fastforce simp: stores_def)
  with up(1) show ?thesis by blast
qed

lemma fetch_step:
  assumes "stores wo ld dd m sv" "m n = Some c" "\<not> plain (CHR ''%'')"
  shows "\<exists>rep sv'. GenHandler wo (request_of wo plain (Fetch n)) sv = Some (Inr ([rep], sv')) \<and> rp_code rep = 200 \<and> rp_body rep = c
    \<and> stores wo ld dd m sv'"
proof -
  obtain ty where ty: "names_ok (wo_conf wo) ld dd n" "world_ok wo c" "has_file wo ty n c sv"
    using assms(1,2) by (auto simp: stores_def)
  obtain rep sv' where d: "GenHandler wo (request_of wo plain (Fetch n)) sv = Some (Inr ([rep], sv'))" "rp_code rep = 200" "rp_body rep = c"
      "dm_table (sv_data sv') = dm_table (sv_data sv)" "dm_storage_file (sv_data sv') = dm_storage_file (sv_data sv)"
      "\<And>q. ty = ''low'' \<or> q \<noteq> ld @ ''/'' @ n \<Longrightarrow> fs_file (sv_fs sv') q = fs_file (sv_fs sv) q"
    using download_ok [OF ty(2,1,3) UrlDecode_encode [of plain, OF assms(3)]] by auto
  have own: "ty = ''low'' \<or> dir_of wo ty @ n \<noteq> ld @ ''/'' @ n"
    using ty(1) names_ok_dir(1) [OF ty(1), of ty] find_str_self [of "ld @ ''/''" n] by (auto simp: names_ok_def)
  have "has_file wo ty' k c' sv'" if "names_ok (wo_conf wo) ld dd k" "has_file wo ty' k c' sv" "k = n \<Longrightarrow> ty' = ty" for ty' k c'
  proof -
    have "ty = ''low'' \<or> dir_of wo ty' @ k \<noteq> ld @ ''/'' @ n"
      using own that(3) names_ok_path(3) [OF ty(1) that(1)] by metis
    then show ?thesis using that(2) d(4) d(6) [of "dir_of wo ty' @ k"] by (simp add: has_file_def)
  qed
  then have kept: "\<exists>ty'. has_file wo ty' k c' sv'" if "names_ok (wo_conf wo) ld dd k" "\<exists>ty'. has_file wo ty' k c' sv" "m k = Some c'" for k c'
    using that ty(3) assms(2) by (metis option.inject)
  have "stores wo ld dd m sv'"
    unfolding stores_def
  proof (intro conjI allI impI)
    show "dm_storage_file (sv_data sv') = cf_storage_info (wo_conf wo)" using assms(1) d(5) by (simp add: stores_def)
    fix k c' assume k: "m k = Some c'"
    then have "names_ok (wo_conf wo) ld dd k" "world_ok wo c'" "\<exists>ty'. has_file wo ty' k c' sv" using assms(1) by (auto simp: stores_def)
    with kept [OF this(1,3) k]
    show "names_ok (wo_conf wo) ld dd k" "world_ok wo c'" "\<exists>ty'. has_file wo ty' k c' sv'" by auto
  qed
  with d(1-3) show ?thesis by blast
qed

lemma index_step:
  assumes "stores wo ld dd m sv" "wo_edeadlk wo"
  shows "\<exists>rep sv'. GenHandler wo (request_of wo plain Index) sv = Some (Inr ([rep], sv')) \<and> rp_code rep = 200 \<and> stores wo ld dd m sv'"
proof -
  have "GenHandler wo (request_of wo plain Index) sv = ListShow wo sv" by (simp add: GenHandler_def)
  then show ?thesis
    using assms by (auto simp: ListShow_def GetAll_def wrlock_def stores_def has_file_def Let_def)
qed

lemma call_step:
  assumes "stores wo ld dd m sv" "call_ok wo ld dd call m" "\<not> plain (CHR ''%'')"
  shows "\<exists>rs sv'. GenHandler wo (request_of wo plain call) sv = Some (Inr (rs, sv')) \<and> observe call rs = map_answer call m
    \<and> stores wo ld dd (map_after call m) sv'"
proof (cases call)
  case (Put ty n c)
  then show ?thesis using put_step [OF assms(1), of ty n c] assms(2) by (auto simp: plain_reply_def)
next
  case (Fetch n)
  then obtain c where "m n = Some c" using assms(2) by auto
  then show ?thesis using fetch_step [of wo ld dd m sv n c plain] assms(1,3) Fetch by force
next
  case Index
  then show ?thesis using index_step [OF assms(1), of plain] assms(2) by force
qed

lemma service_run_map:
  assumes "stores wo ld dd m sv" "calls_ok wo ld dd calls m" "\<not> plain (CHR ''%'')"
  shows "\<exists>rss sv'. service_run wo (map (request_of wo plain) calls) sv = Some (Inr (rss, sv'))
    \<and> map2 observe calls rss = fst (map_run calls m) \<and> stores wo ld dd (snd (map_run calls m)) sv'"
  using assms(1,2)
proof (induction calls arbitrary: m sv)
  case (Cons call calls)
  obtain rs sv1 where step: "GenHandler wo (request_of wo plain call) sv = Some (Inr (rs, sv1))" "observe call rs = map_answer call m"
      "stores wo ld dd (map_after call m) sv1"
    using call_step [of wo ld dd m sv call plain] Cons.prems assms(3) by auto
  from Cons.IH [OF step(3)] obtain rss sv' where "service_run wo (map (request_of wo plain) calls) sv1 = Some (Inr (rss, sv'))"
      "map2 observe calls rss = fst (map_run calls (map_after call m))" "stores wo ld dd (snd (map_run calls (map_after call m))) sv'"
    using Cons.prems(2) by auto
  then show ?case using step by (cases "map_run calls (map_after call m)") simp
qed simp


definition some_event_lib :: event_lib where
  "some_event_lib = \<lparr>ev_base = True, ev_httpd = True, ev_bind = (\<lambda>_ _. 0)\<rparr>"

lemma sample_stores: "stores sample_world ''./low_storage'' ''./deep_storage'' Map.empty sample_srv"
  by (simp add: stores_def sample_srv_def sample_world_def sample_conf_def)


text \<open>Without an event base or a port there is no service, and the program is told so.\<close>

lemma RunModule_refused:
  "\<not> ev_base ev \<Longrightarrow> RunModule ev wo reqs se sv = Some (Inr (False, [], sv))"
  "ev_base ev \<Longrightarrow> ev_httpd ev \<Longrightarrow> ev_bind ev ''0.0.0.0'' (se_server_port se) \<noteq> 0 \<Longrightarrow> RunModule ev wo reqs se sv = Some (Inr (False, [], sv))"
  by (simp_all add: RunModule_def)

end
