(* ===== verification/Log_Config.thy ===== *)
theory Log_Config
  imports Logger Storage_Util
begin

text \<open>
  The configuration of the logging system (\<open>JsonData\<close>, \<open>JsonUtil\<close> and the reading of files in \<open>logs_code/Util.hpp\<close>) and its start
  by the storage server (\<open>log_system_module_init\<close> in \<open>HttpServer/src/server/Test.cpp\<close>). The file system is that of
  \<open>Storage_Util\<close>, the JSON library a parameter. The lemmas show what a configuration file gives, and that without one
  the system starts with a configuration of zeros, in which no message can ever be logged.
\<close>

section \<open>Files\<close>

definition File_Exists :: "string \<Rightarrow> fsys \<Rightarrow> bool" where
  "File_Exists filename fs \<longleftrightarrow> fs_file fs filename \<noteq> None \<or> fs_dir fs filename"

definition File_FileSize :: "string \<Rightarrow> fsys \<Rightarrow> int" where
  "File_FileSize filename fs =
     (case fs_file fs filename of
        Some c \<Rightarrow> int (length c)
      | None \<Rightarrow> if fs_dir fs filename then int (fs_dirsize fs filename) else - 1)"

text \<open>
  A directory can be opened but not read: the string then has its size. A file that cannot be opened leaves the string as it was.
\<close>

definition File_GetContent :: "string \<Rightarrow> string \<Rightarrow> fsys \<Rightarrow> bool \<times> string" where
  "File_GetContent content filename fs =
     (if \<not> File_Exists filename fs then (False, content)
      else let len = nat (File_FileSize filename fs mod 2 ^ 64) in
           case fs_file fs filename of
             None \<Rightarrow> (False, take len content @ replicate (len - length content) (CHR 0x00))
           | Some c \<Rightarrow> if len \<le> length c then (True, take len c) else (False, c))"

lemma File_GetContent_file:
  "fs_file fs p = Some c \<Longrightarrow> length c < 2 ^ 64 \<Longrightarrow> File_GetContent content p fs = (True, c)"
  by (simp add: File_GetContent_def File_Exists_def File_FileSize_def mod_pos_pos_trivial)

lemma File_GetContent_missing:
  "\<not> File_Exists p fs \<Longrightarrow> File_GetContent content p fs = (False, content)"
  by (simp add: File_GetContent_def)

section \<open>JSON\<close>

text \<open>
  A value of the library is \<open>'v\<close>: what a default-constructed one is, the writer and the parser, and the members of a value
  converted by \<open>asInt64\<close>, \<open>asInt\<close> and \<open>asString\<close>, which may throw.
\<close>

record 'v json_lib =
  jl_null :: 'v
  jl_write :: "'v \<Rightarrow> string option"
  jl_parse :: "string \<Rightarrow> 'v option"
  jl_asInt64 :: "string \<Rightarrow> 'v \<Rightarrow> int res"
  jl_asInt :: "string \<Rightarrow> 'v \<Rightarrow> int res"
  jl_asString :: "string \<Rightarrow> 'v \<Rightarrow> string res"

definition log_Serialize :: "'v json_lib \<Rightarrow> 'v \<Rightarrow> string \<Rightarrow> bool \<times> string" where
  "log_Serialize L val str = (case jl_write L val of None \<Rightarrow> (False, str) | Some s \<Rightarrow> (True, s))"

text \<open>The result is \<open>false\<close> for a text that parses, too.\<close>

definition log_UnSerialize :: "'v json_lib \<Rightarrow> string \<Rightarrow> 'v \<Rightarrow> bool \<times> 'v" where
  "log_UnSerialize L str val = (case jl_parse L str of None \<Rightarrow> (False, val) | Some v \<Rightarrow> (False, v))"

section \<open>The configuration\<close>

definition config_file :: string where
  "config_file = ''../../log_system/logs_code/config.conf''"

text \<open>The numbers of the file go to \<open>size_t\<close>, the port to \<open>uint16_t\<close>.\<close>

definition to_size :: "int \<Rightarrow> nat" where
  "to_size v = nat (v mod 2 ^ 64)"

definition JsonData_of :: "'v json_lib \<Rightarrow> 'v \<Rightarrow> JsonData res" where
  "JsonData_of L root =
     bind_res (jl_asInt64 L ''buffer_size'' root) (\<lambda>bs.
     bind_res (jl_asInt64 L ''threshold'' root) (\<lambda>th.
     bind_res (jl_asInt64 L ''linear_growth'' root) (\<lambda>lg.
     bind_res (jl_asInt64 L ''flush_log'' root) (\<lambda>fl.
     bind_res (jl_asString L ''backup_addr'' root) (\<lambda>addr.
     bind_res (jl_asInt L ''backup_port'' root) (\<lambda>port.
     bind_res (jl_asInt L ''thread_count'' root) (\<lambda>n.
       Inr \<lparr>conf_buffer_size = to_size bs, conf_threshold = to_size th, conf_linear_growth = to_size lg, conf_flush_log = to_size fl,
            conf_backup_addr = addr, conf_backup_port = nat (port mod 2 ^ 16), conf_thread_count = to_size n\<rparr>)))))))"

definition JsonData_new :: "'v json_lib \<Rightarrow> fsys \<Rightarrow> JsonData res" where
  "JsonData_new L fs =
     (let content = snd (File_GetContent [] config_file fs);
          root = snd (log_UnSerialize L content (jl_null L)) in
      JsonData_of L root)"

text \<open>\<open>GetJsonData\<close>: a static of the function, made at the first call that does not throw.\<close>

definition GetJsonData :: "'v json_lib \<Rightarrow> fsys \<Rightarrow> JsonData option \<Rightarrow> JsonData res \<times> JsonData option" where
  "GetJsonData L fs json_data =
     (case json_data of
        Some d \<Rightarrow> (Inr d, Some d)
      | None \<Rightarrow> (case JsonData_new L fs of Inl e \<Rightarrow> (Inl e, None) | Inr d \<Rightarrow> (Inr d, Some d)))"

lemma GetJsonData_once:
  assumes "GetJsonData L fs s = (Inr d, s')"
  shows "GetJsonData L' fs' s' = (Inr d, s')"
  using assms by (auto simp: GetJsonData_def split: option.splits sum.splits)

section \<open>Start\<close>

text \<open>The constructor of the manager, at the first \<open>GetInstance\<close>.\<close>

definition manager_init :: "JsonData \<Rightarrow> AsyncLogger LoggerManager res" where
  "manager_init conf = bind_res (Build conf (BuildLoggerName ''default'' LoggerBuilder_new)) (\<lambda>(l, _). Inr (LoggerManager_new l))"

definition log_system_module_init ::
  "'v json_lib \<Rightarrow> fsys \<Rightarrow> JsonData option \<Rightarrow> (JsonData \<times> 't ThreadPool \<times> AsyncLogger LoggerManager) res" where
  "log_system_module_init L fs json_data =
     bind_res (fst (GetJsonData L fs json_data)) (\<lambda>conf.
     bind_res (Build conf (BuildLoggerFlush (RollFile (RollFileFlush_new ''./logfile/RollFile_log'' (1024 * 1024)))
                 (BuildLoggerName ''asynclogger'' LoggerBuilder_new))) (\<lambda>(l, _).
     bind_res (manager_init conf) (\<lambda>m.
       Inr (conf, ThreadPool_new (conf_thread_count conf), AddLogger al_name l m))))"

text \<open>The loggers it leaves: the rolling file under its name, and the standard output as the default, both waiting for room.\<close>

lemma log_system_loggers:
  assumes "GetJsonData L fs json_data = (Inr conf, s)"
  shows "\<exists>m. log_system_module_init L fs json_data = Inr (conf, ThreadPool_new (conf_thread_count conf), m)
    \<and> GetLogger ''asynclogger'' m = Some (AsyncLogger_new conf ''asynclogger''
          [RollFile (RollFileFlush_new ''./logfile/RollFile_log'' (1024 * 1024))] ASYNC_SAFE)
    \<and> GetLogger ''default'' m = Some (AsyncLogger_new conf ''default'' [Stdout []] ASYNC_SAFE)"
proof -
  have b: "Build conf (BuildLoggerFlush e (BuildLoggerName (c # cs) LoggerBuilder_new))
      = Inr (AsyncLogger_new conf (c # cs) [e] ASYNC_SAFE, BuildLoggerFlush e (BuildLoggerName (c # cs) LoggerBuilder_new))" for e c cs
    by (simp add: Build_def BuildLoggerFlush_def BuildLoggerName_def LoggerBuilder_new_def Let_def)
  have d: "manager_init conf = Inr (LoggerManager_new (AsyncLogger_new conf ''default'' [Stdout []] ASYNC_SAFE))"
    by (simp add: manager_init_def Build_def BuildLoggerName_def LoggerBuilder_new_def Let_def)
  show ?thesis
    using assms b d by (simp add: log_system_module_init_def GetLogger_def AddLogger_def LoggerExist_def LoggerManager_new_def map_insert_def
        AsyncLogger_new_def)
qed

section \<open>Without a configuration\<close>

text \<open>What the documentation of the library says of a null value: its members are null, and null is 0 or the empty string.\<close>

definition null_converts :: "'v json_lib \<Rightarrow> bool" where
  "null_converts L \<longleftrightarrow> (\<forall>k. jl_asInt64 L k (jl_null L) = Inr 0 \<and> jl_asInt L k (jl_null L) = Inr 0 \<and> jl_asString L k (jl_null L) = Inr [])"

definition zero_conf :: JsonData where
  "zero_conf = \<lparr>conf_buffer_size = 0, conf_threshold = 0, conf_linear_growth = 0, conf_flush_log = 0,
     conf_backup_addr = [], conf_backup_port = 0, conf_thread_count = 0\<rparr>"

lemma JsonData_missing:
  assumes "null_converts L" "jl_parse L [] = None" "\<not> File_Exists config_file fs"
  shows "JsonData_new L fs = Inr zero_conf"
  using assms by (simp add: JsonData_new_def File_GetContent_missing log_UnSerialize_def JsonData_of_def null_converts_def to_size_def zero_conf_def)

text \<open>With buffers of no size that cannot grow, a safe push waits in every state a worker can reach.\<close>

lemma zero_conf_stuck:
  assumes "log_reachable zero_conf ASYNC_SAFE s"
  shows "fst s = [] \<and> wk_type (snd s) = ASYNC_SAFE \<and> wk_productor (snd s) = log_buffer_new zero_conf \<and> wk_consumer (snd s) = log_buffer_new zero_conf"
  using assms
proof (induction rule: log_reachable.induct)
  case init
  show ?case by (simp add: AsyncWorker_new_def)
next
  case (step s s')
  have zero: "log_buffer_new zero_conf = \<lparr>lb_vec = [], lb_write = 0, lb_read = 0\<rparr>" by (simp add: log_buffer_new_def zero_conf_def)
  have none: "WriteableSize (log_buffer_new zero_conf) = 0" by (simp add: zero WriteableSize_def size_sub_def)
  from step(2) show ?case
  proof (cases rule: log_step.cases)
    case (push data w w' sent)
    then have "data = []" using step(3) none by (auto simp: wk_Push_def split: if_splits)
    moreover have "lb_Push zero_conf [] (log_buffer_new zero_conf) = Inr (log_buffer_new zero_conf)"
      unfolding zero by (simp add: lb_Push_def ToBeEnough_def zero_conf_def log_resize_def narrowed_def Let_def)
    ultimately have "lb_Push zero_conf data (wk_productor w) = Inr (wk_productor w)" using step(3) push(1) by simp
    then show ?thesis using step(3) push \<open>data = []\<close> by (auto simp: wk_Push_def split: if_splits)
  next
    case (stop sent w)
    then show ?thesis using step(3) by (simp add: wk_Stop_def)
  next
    case (thread w w' sent)
    then show ?thesis
      using step(3) by (auto simp: ThreadEntry_def wk_swap_def wk_callback_def wk_check_def lb_Swap_def zero lb_Reset_def
          split: worker_pc.splits if_splits)
  qed
qed

text \<open>
  Without its configuration file the logging system starts and then stops everything. When the file is not
  where \<open>JsonData\<close> looks for it, no error is raised: the configuration is all zeros, the pool for the backup has no thread, and the logger
  \<open>asynclogger\<close> is there; but in every state that its worker can ever reach, a thread that logs a message (never an empty text) is
  kept waiting for room, so that the first one to log anything does not return from it.
\<close>

theorem missing_config_stalls_log:
  assumes "null_converts L" "jl_parse L [] = None" "\<not> File_Exists config_file fs"
  shows "\<exists>m l. log_system_module_init L fs None = Inr (zero_conf, ThreadPool_new 0 :: 't ThreadPool, m)
    \<and> GetLogger ''asynclogger'' m = Some l \<and> al_worker l = AsyncWorker_new zero_conf ASYNC_SAFE
    \<and> (\<forall>sent w data. log_reachable zero_conf ASYNC_SAFE (sent, w) \<and> data \<noteq> [] \<longrightarrow> wk_Push zero_conf data w = None)"
proof -
  have "GetJsonData L fs None = (Inr zero_conf, Some zero_conf)" using JsonData_missing [OF assms] by (simp add: GetJsonData_def)
  then obtain m where m: "log_system_module_init L fs None = Inr (zero_conf, ThreadPool_new 0 :: 't ThreadPool, m)"
      "GetLogger ''asynclogger'' m = Some (AsyncLogger_new zero_conf ''asynclogger''
          [RollFile (RollFileFlush_new ''./logfile/RollFile_log'' (1024 * 1024))] ASYNC_SAFE)"
    using log_system_loggers [of L fs None zero_conf] by (auto simp: zero_conf_def)
  have "wk_Push zero_conf data w = None" if "log_reachable zero_conf ASYNC_SAFE (sent, w)" "data \<noteq> []" for sent w data
    using zero_conf_stuck [OF that(1)] that(2) by (simp add: wk_Push_def log_buffer_new_def zero_conf_def WriteableSize_def size_sub_def)
  with m show ?thesis by (auto simp: AsyncLogger_new_def)
qed

definition some_json_lib :: "unit json_lib" where
  "some_json_lib = \<lparr>jl_null = (), jl_write = (\<lambda>_. Some ''null''), jl_parse = (\<lambda>s. if s = ''null'' then Some () else None),
     jl_asInt64 = (\<lambda>_ _. Inr 0), jl_asInt = (\<lambda>_ _. Inr 0), jl_asString = (\<lambda>_ _. Inr [])\<rparr>"

definition empty_fs :: fsys where
  "empty_fs = \<lparr>fs_file = Map.empty, fs_dir = (\<lambda>_. False), fs_dirsize = (\<lambda>_. 0), fs_mtime = (\<lambda>_. 0), fs_atime = (\<lambda>_. 0)\<rparr>"

theorem missing_config_stalls_log_witness:
  "\<exists>m l. log_system_module_init some_json_lib empty_fs None = Inr (zero_conf, ThreadPool_new 0 :: nat ThreadPool, m)
    \<and> GetLogger ''asynclogger'' m = Some l \<and> wk_Push zero_conf ''x'' (al_worker l) = None"
proof -
  have "null_converts some_json_lib" "jl_parse some_json_lib [] = None" "\<not> File_Exists config_file empty_fs"
    by (simp_all add: null_converts_def some_json_lib_def File_Exists_def empty_fs_def)
  from missing_config_stalls_log [OF this] log_reachable.init [of zero_conf ASYNC_SAFE] show ?thesis by fastforce
qed

end
