(* ===== verification/Backup_Server.thy ===== *)
theory Backup_Server
  imports Logger
begin

text \<open>
  The receiving end of the remote backup as a server (\<open>TcpServer\<close> in \<open>logs_code/backlog/ServerBackupLog.hpp\<close>): it makes a listening
  socket, accepts connections one after the other and gives each to a thread of its own, which reads once, appends to the
  log file and closes its socket (\<open>threadRoutine\<close> in \<open>Logger\<close>). The threads finish in any order. The lemmas show
  that no socket is lost or closed twice and that the log file is the messages in the order in which they were handled.
\<close>

section \<open>The code\<close>

record ThreadData =
  td_sock :: int
  td_client_ip :: string
  td_client_port :: nat

record BackupServer =
  bk_listen_sock :: int
  bk_port :: nat
  bk_threads :: "ThreadData list"
  bk_closed :: "int list"
  bk_logfile :: string

text \<open>\<open>listen_sock_\<close> starts indeterminate.\<close>

definition BackupServer_new :: "int \<Rightarrow> nat \<Rightarrow> string \<Rightarrow> BackupServer" where
  "BackupServer_new junk port logfile = \<lparr>bk_listen_sock = junk, bk_port = port, bk_threads = [], bk_closed = [], bk_logfile = logfile\<rparr>"

text \<open>The three calls, whose answers are given; what fails is printed, and the next call is made all the same.\<close>

definition init_service :: "int \<Rightarrow> (int \<Rightarrow> int) \<Rightarrow> (int \<Rightarrow> int) \<Rightarrow> BackupServer \<Rightarrow> string list \<times> BackupServer" where
  "init_service sock do_bind do_listen s =
     ((if sock = -1 then [''create socket error''] else [])
      @ (if do_bind sock < 0 then [''bind socket error''] else [])
      @ (if do_listen sock < 0 then [''listen error''] else []),
      s\<lparr>bk_listen_sock := sock\<rparr>)"

text \<open>One turn of the loop of \<open>start_service\<close>, on the answer of \<open>accept\<close> and the address of the client.\<close>

definition start_service :: "int \<Rightarrow> string \<Rightarrow> nat \<Rightarrow> BackupServer \<Rightarrow> BackupServer" where
  "start_service connfd client_ip client_port s =
     (if connfd < 0 then s
      else s\<lparr>bk_threads := bk_threads s @ [\<lparr>td_sock = connfd, td_client_ip = client_ip, td_client_port = client_port\<rparr>]\<rparr>)"

text \<open>
  A thread: what its \<open>read\<close> gave, whether the log file could be opened and what \<open>fwrite\<close> answered. A number that is no thread's does nothing.
\<close>

definition run_routine :: "nat \<Rightarrow> string option \<Rightarrow> bool \<Rightarrow> nat \<Rightarrow> BackupServer \<Rightarrow> BackupServer res" where
  "run_routine i received can_open write_byte s =
     (if i < length (bk_threads s)
      then (let td = bk_threads s ! i in
            bind_res (threadRoutine can_open write_byte received (td_client_ip td) (td_client_port td) (bk_logfile s)) (\<lambda>log.
              Inr (s\<lparr>bk_logfile := log, bk_closed := bk_closed s @ [td_sock td],
                     bk_threads := take i (bk_threads s) @ drop (Suc i) (bk_threads s)\<rparr>)))
      else Inr s)"

datatype backup_event = Accept int string nat | Routine nat "string option" bool nat

fun backup_run :: "backup_event list \<Rightarrow> BackupServer \<Rightarrow> BackupServer res" where
  "backup_run [] s = Inr s"
| "backup_run (Accept connfd ip port # evs) s = backup_run evs (start_service connfd ip port s)"
| "backup_run (Routine i received can_open write_byte # evs) s =
     bind_res (run_routine i received can_open write_byte s) (backup_run evs)"

section \<open>Sockets\<close>

fun accepted_socks :: "backup_event list \<Rightarrow> int multiset" where
  "accepted_socks [] = {#}"
| "accepted_socks (Accept connfd ip port # evs) = (if connfd < 0 then {#} else {#connfd#}) + accepted_socks evs"
| "accepted_socks (Routine i received can_open write_byte # evs) = accepted_socks evs"

definition sockets :: "BackupServer \<Rightarrow> int multiset" where
  "sockets s = mset (map td_sock (bk_threads s)) + mset (bk_closed s)"

lemma start_service_sockets: "sockets (start_service fd ip port s) = sockets s + (if fd < 0 then {#} else {#fd#})"
  by (simp add: sockets_def start_service_def)

lemma run_routine_sockets:
  assumes "run_routine i r co wb s = Inr s'"
  shows "sockets s' = sockets s"
proof (cases "i < length (bk_threads s)")
  case True
  then have "mset (bk_threads s) = mset (take i (bk_threads s) @ drop (Suc i) (bk_threads s)) + {#bk_threads s ! i#}"
    by (metis add_mset_add_single id_take_nth_drop mset.simps(2) mset_append union_mset_add_mset_right)
  then have "mset (map td_sock (bk_threads s))
      = mset (map td_sock (take i (bk_threads s) @ drop (Suc i) (bk_threads s))) + {#td_sock (bk_threads s ! i)#}"
    by (simp only: mset_map) simp
  then show ?thesis using assms True by (auto simp: run_routine_def sockets_def Let_def cxx_res)
qed (use assms in \<open>simp add: run_routine_def\<close>)

text \<open>Every accepted socket has a thread or has been closed, once.\<close>

lemma backup_sockets:
  "backup_run evs s = Inr s' \<Longrightarrow> sockets s' = sockets s + accepted_socks evs"
proof (induction evs s rule: backup_run.induct)
  case (3 i received can_open write_byte evs s)
  then obtain s1 where "run_routine i received can_open write_byte s = Inr s1" "backup_run evs s1 = Inr s'" by (auto simp: cxx_res)
  then show ?case using 3 run_routine_sockets by fastforce
qed (auto simp: start_service_sockets)

section \<open>The log file\<close>

text \<open>What a thread adds: nothing when \<open>read\<close> fails or gives nothing, otherwise the client's address and what was read, up to a zero byte.\<close>

definition routine_text :: "ThreadData \<Rightarrow> string option \<Rightarrow> string" where
  "routine_text td received =
     (case received of
        None \<Rightarrow> []
      | Some buf \<Rightarrow> if buf = [] then [] else td_client_ip td @ '':'' @ string_of_nat (td_client_port td) @ takeWhile (\<lambda>c. c \<noteq> CHR 0x00) buf)"

lemma threadRoutine_text:
  assumes "threadRoutine can_open write_byte received (td_client_ip td) (td_client_port td) logfile = Inr log"
  shows "log = logfile @ routine_text td received"
  using assms by (auto simp: threadRoutine_def service_def backup_log_def routine_text_def assert_res_def split: option.splits if_splits)

text \<open>The messages of a run in the order of their threads' turns.\<close>

fun run_texts :: "backup_event list \<Rightarrow> ThreadData list \<Rightarrow> string list" where
  "run_texts [] tds = []"
| "run_texts (Accept connfd ip port # evs) tds =
     run_texts evs (if connfd < 0 then tds else tds @ [\<lparr>td_sock = connfd, td_client_ip = ip, td_client_port = port\<rparr>])"
| "run_texts (Routine i received can_open write_byte # evs) tds =
     (if i < length tds then routine_text (tds ! i) received # run_texts evs (take i tds @ drop (Suc i) tds) else run_texts evs tds)"

lemma backup_log_file:
  "backup_run evs s = Inr s' \<Longrightarrow> bk_logfile s' = bk_logfile s @ concat (run_texts evs (bk_threads s))"
proof (induction evs s rule: backup_run.induct)
  case (2 connfd ip port evs s)
  then show ?case by (simp add: start_service_def split: if_splits)
next
  case (3 i received can_open write_byte evs s)
  then obtain s1 where s1: "run_routine i received can_open write_byte s = Inr s1" "backup_run evs s1 = Inr s'" by (auto simp: cxx_res)
  then show ?case
    using 3(1) [OF _ ] threadRoutine_text [of can_open write_byte received "bk_threads s ! i" "bk_logfile s"]
    by (auto simp: run_routine_def Let_def cxx_res split: if_splits)
qed simp

text \<open>
  A run from a new server. As long as nothing stops the process, the log file grows by the messages in the order
  in which their threads ran, each with the address of its own client, and every accepted socket belongs to exactly one
  waiting thread or has been closed exactly once.
\<close>

theorem backup_server_complete:
  assumes "backup_run evs (snd (init_service sock b l (BackupServer_new junk port logfile))) = Inr s"
  shows "bk_logfile s = logfile @ concat (run_texts evs []) \<and> mset (map td_sock (bk_threads s)) + mset (bk_closed s) = accepted_socks evs"
  using backup_sockets [OF assms] backup_log_file [OF assms] by (simp add: init_service_def BackupServer_new_def sockets_def)

theorem backup_server_complete_witness:
  "\<exists>s. backup_run [Accept 4 ''a'' 7, Accept (-1) ''b'' 8, Accept 5 ''c'' 9, Routine 1 (Some ''x'') True 4, Routine 0 (Some []) True 0]
       (snd (init_service 3 (\<lambda>_. 0) (\<lambda>_. 0) (BackupServer_new 0 80 []))) = Inr s
    \<and> bk_logfile s = ''c:9x'' \<and> mset (bk_closed s) = {#4, 5#}"
proof -
  let ?evs = "[Accept 4 ''a'' 7, Accept (-1) ''b'' 8, Accept 5 ''c'' 9, Routine 1 (Some ''x'') True 4, Routine 0 (Some []) True 0]"
  let ?s0 = "snd (init_service 3 (\<lambda>_. 0) (\<lambda>_. 0) (BackupServer_new 0 80 []))"
  have n: "string_of_nat 9 = ''9''" by code_simp
  then obtain s where s: "backup_run ?evs ?s0 = Inr s" "bk_threads s = []"
    by (simp add: init_service_def BackupServer_new_def start_service_def run_routine_def threadRoutine_def service_def backup_log_def)
  from backup_server_complete [OF s(1)] show ?thesis
    using s n by (auto simp: routine_text_def add_mset_commute)
qed

end
