(* ===== verification/Block_Queue.thy ===== *)
theory Block_Queue
  imports Prelude
begin

text \<open>
  The blocking queue of the older server, \<open>BlockDeque\<close> (\<open>code/log/blockqueue.h\<close>): a deque with a
  capacity, a mutex and two condition variables. Every operation runs with the mutex held, so it
  is a function on the state; a call that would wait gives up the mutex, which is the value
  \<open>None\<close> of a push and \<open>Pop_Waits\<close> of a pop, and goes on when it is woken (\<open>pop_woken\<close>). The
  contract of a bounded queue is the locale \<open>bounded_fifo\<close>.
\<close>

section \<open>The class\<close>

record 'a BlockDeque =
  deq :: "'a list"
  bq_capacity :: nat
  isClose :: bool

definition BlockDeque_new :: "nat \<Rightarrow> 'a BlockDeque res" where
  "BlockDeque_new MaxCapacity =
     bind_res (assert_res (MaxCapacity > 0)) (\<lambda>_. Inr \<lparr>deq = [], bq_capacity = MaxCapacity, isClose = False\<rparr>)"

definition bq_Close :: "'a BlockDeque \<Rightarrow> 'a BlockDeque" where
  "bq_Close q = q\<lparr>deq := [], isClose := True\<rparr>"

definition bq_clear :: "'a BlockDeque \<Rightarrow> 'a BlockDeque" where
  "bq_clear q = q\<lparr>deq := []\<rparr>"

definition bq_front :: "'a BlockDeque \<Rightarrow> 'a res" where
  "bq_front q = (case deq q of [] \<Rightarrow> Inl Undefined_Behaviour | x # _ \<Rightarrow> Inr x)"

definition bq_back :: "'a BlockDeque \<Rightarrow> 'a res" where
  "bq_back q = (if deq q = [] then Inl Undefined_Behaviour else Inr (last (deq q)))"

definition bq_size :: "'a BlockDeque \<Rightarrow> nat" where
  "bq_size q = length (deq q)"

definition bq_empty :: "'a BlockDeque \<Rightarrow> bool" where
  "bq_empty q = (deq q = [])"

definition bq_full :: "'a BlockDeque \<Rightarrow> bool" where
  "bq_full q = (length (deq q) \<ge> bq_capacity q)"

text \<open>One turn of the waiting loop of a push: \<open>None\<close> when it waits (again).\<close>

definition push_back :: "'a \<Rightarrow> 'a BlockDeque \<Rightarrow> 'a BlockDeque option" where
  "push_back item q =
     (if length (deq q) \<ge> bq_capacity q then None else Some (q\<lparr>deq := deq q @ [item]\<rparr>))"

definition push_front :: "'a \<Rightarrow> 'a BlockDeque \<Rightarrow> 'a BlockDeque option" where
  "push_front item q =
     (if length (deq q) \<ge> bq_capacity q then None else Some (q\<lparr>deq := item # deq q\<rparr>))"

datatype 'a pop_outcome = Popped 'a | Pop_False | Pop_Waits

text \<open>A pop from its call on, and from the moment it is woken; the timed form may be woken by the clock.\<close>

definition pop_enter :: "'a BlockDeque \<Rightarrow> 'a pop_outcome \<times> 'a BlockDeque" where
  "pop_enter q = (case deq q of [] \<Rightarrow> (Pop_Waits, q) | x # xs \<Rightarrow> (Popped x, q\<lparr>deq := xs\<rparr>))"

definition pop_woken :: "'a BlockDeque \<Rightarrow> 'a pop_outcome \<times> 'a BlockDeque" where
  "pop_woken q = (if isClose q then (Pop_False, q) else pop_enter q)"

definition pop_timed_woken :: "bool \<Rightarrow> 'a BlockDeque \<Rightarrow> 'a pop_outcome \<times> 'a BlockDeque" where
  "pop_timed_woken timeout q = (if timeout then (Pop_False, q) else pop_woken q)"

section \<open>Bounded queues\<close>

text \<open>A run of calls from any threads, in the order they get the mutex: \<open>Some x\<close> puts, \<open>None\<close> gets.\<close>

fun fifo_run :: "('a \<Rightarrow> 'q \<Rightarrow> 'q option) \<Rightarrow> ('q \<Rightarrow> ('a \<times> 'q) option) \<Rightarrow> 'a option list \<Rightarrow> 'q \<Rightarrow> 'a list \<times> 'a list \<times> 'q" where
  "fifo_run put get [] q = ([], [], q)"
| "fifo_run put get (Some x # ops) q =
     (case put x q of
        None \<Rightarrow> fifo_run put get ops q
      | Some q1 \<Rightarrow> (case fifo_run put get ops q1 of (ins, outs, q2) \<Rightarrow> (x # ins, outs, q2)))"
| "fifo_run put get (None # ops) q =
     (case get q of
        None \<Rightarrow> fifo_run put get ops q
      | Some (y, q1) \<Rightarrow> (case fifo_run put get ops q1 of (ins, outs, q2) \<Rightarrow> (ins, y # outs, q2)))"

locale bounded_fifo =
  fixes put :: "'a \<Rightarrow> 'q \<Rightarrow> 'q option"
    and get :: "'q \<Rightarrow> ('a \<times> 'q) option"
    and items :: "'q \<Rightarrow> 'a list"
    and bound :: "'q \<Rightarrow> nat"
  assumes put_None: "put x q = None \<longleftrightarrow> bound q \<le> length (items q)"
    and put_Some: "put x q = Some q' \<Longrightarrow> items q' = items q @ [x] \<and> bound q' = bound q"
    and get_None: "get q = None \<longleftrightarrow> items q = []"
    and get_Some: "get q = Some (x, q') \<Longrightarrow> items q = x # items q' \<and> bound q' = bound q"
begin

lemma run_order:
  "fifo_run put get ops q = (ins, outs, q') \<Longrightarrow> items q @ ins = outs @ items q' \<and> bound q' = bound q"
proof (induction ops arbitrary: q ins outs)
  case (Cons a ops)
  then show ?case by (cases a) (fastforce split: option.splits prod.splits dest: put_Some get_Some)+
qed simp

lemma run_bound:
  "fifo_run put get ops q = (ins, outs, q') \<Longrightarrow> length (items q) \<le> bound q \<Longrightarrow> length (items q') \<le> bound q"
proof (induction ops arbitrary: q ins outs)
  case (Cons a ops)
  show ?case
  proof (cases a)
    case None
    then show ?thesis using Cons by (fastforce split: option.splits prod.splits dest: get_Some)
  next
    case (Some x)
    show ?thesis
    proof (cases "put x q")
      case None
      then show ?thesis using Cons Some by simp
    next
      fix q1 assume p: "put x q = Some q1"
      then have "items q1 = items q @ [x]" "bound q1 = bound q" "\<not> bound q \<le> length (items q)"
        using put_Some put_None [of x q] by auto
      then show ?thesis using Cons.IH [of q1] Cons.prems(1) Some p by (auto split: prod.splits)
    qed
  qed
qed simp

end

definition pop_now :: "'a BlockDeque \<Rightarrow> ('a \<times> 'a BlockDeque) option" where
  "pop_now q = (case pop_enter q of (Popped x, q') \<Rightarrow> Some (x, q') | _ \<Rightarrow> None)"

lemmas bq_defs = push_back_def push_front_def pop_enter_def pop_woken_def pop_timed_woken_def pop_now_def
  bq_Close_def bq_clear_def bq_empty_def bq_full_def bq_size_def

interpretation block_deque: bounded_fifo push_back pop_now deq bq_capacity
  by unfold_locales (auto simp: bq_defs split: list.splits if_splits)

text \<open>
  The blocking queue is first in, first out, and bounded. However the calls of any number of
  threads to \<open>push_back\<close> and \<open>pop\<close> are ordered, starting from a new queue, the items that went in
  are those that came out, in the same order, followed by those still queued, of which there are
  never more than the capacity.
\<close>

theorem block_deque_fifo:
  assumes "BlockDeque_new n = Inr q0" "fifo_run push_back pop_now ops q0 = (ins, outs, q)"
  shows "ins = outs @ deq q \<and> length (deq q) \<le> n"
  using block_deque.run_order [OF assms(2)] block_deque.run_bound [OF assms(2)] assms(1)
  by (cases "0 < n") (auto simp: BlockDeque_new_def)

theorem block_deque_fifo_witness:
  "fifo_run push_back pop_now [Some ''a'', Some ''b'', None, Some ''c''] \<lparr>deq = [], bq_capacity = 1, isClose = False\<rparr>
     = ([''a'', ''c''], [''a''], \<lparr>deq = [''c''], bq_capacity = 1, isClose = False\<rparr>)
   \<and> [''a'', ''c''] = [''a''] @ deq \<lparr>deq = [''c''], bq_capacity = 1, isClose = False\<rparr>
   \<and> length (deq \<lparr>deq = [''c''], bq_capacity = 1, isClose = False\<rparr>) \<le> 1"
  using block_deque_fifo [of 1 "\<lparr>deq = [], bq_capacity = 1, isClose = False\<rparr>" "[Some ''a'', Some ''b'', None, Some ''c'']"
      "[''a'', ''c'']" "[''a'']" "\<lparr>deq = [''c''], bq_capacity = 1, isClose = False\<rparr>"]
  by (simp add: BlockDeque_new_def bq_defs)

end
