(* ===== verification/Server_Log.thy ===== *)
theory Server_Log
  imports Block_Queue Byte_Buffer Log_Sinks "HOL-Library.Multiset"
begin

text \<open>
  The log of the older server, class \<open>Log\<close> (\<open>code/log/log.cpp\<close>): callers format a line in the
  member buffer and put it in the blocking queue, from which a thread writes it to the file; when
  the queue is full, or without a queue, the caller writes it itself. The thread is a step
  function on its program counter (\<open>AsyncWrite_\<close> with the two waits of \<open>pop\<close>). The clock, the
  formatted message, the outcome of \<open>fopen\<close> and the amount the C library passes on at each write
  are arguments.
\<close>

section \<open>State\<close>

datatype writer_pc = At_Pop | Waiting bool | Holding string | Ended

record Log =
  lg_path :: string
  lg_suffix :: string
  lineCount :: int
  toDay :: int
  isOpen :: bool
  buff :: Buffer
  lg_level :: int
  isAsync :: bool
  fp :: "FILE option"
  lg_closed :: "FILE list"
  deque :: "string BlockDeque option"
  writer :: "writer_pc option"

definition Log_new :: Log where
  "Log_new =
     \<lparr>lg_path = [], lg_suffix = [], lineCount = 0, toDay = 0, isOpen = False, buff = Buffer_new 1024, lg_level = 0,
      isAsync = False, fp = None, lg_closed = [], deque = None, writer = None\<rparr>"

definition GetLevel :: "Log \<Rightarrow> int" where
  "GetLevel l = lg_level l"

definition SetLevel :: "int \<Rightarrow> Log \<Rightarrow> Log" where
  "SetLevel level l = l\<lparr>lg_level := level\<rparr>"

text \<open>\<open>condConsumer_.notify_one()\<close>: there is one consumer, the writing thread.\<close>

definition notify_consumer :: "Log \<Rightarrow> Log" where
  "notify_consumer l =
     l\<lparr>writer := map_option (\<lambda>pc. case pc of Waiting _ \<Rightarrow> Waiting True | _ \<Rightarrow> pc) (writer l)\<rparr>"

definition Log_flush :: "Log \<Rightarrow> Log res" where
  "Log_flush l =
     (if isAsync l \<and> deque l = None then Inl Undefined_Behaviour
      else let l1 = (if isAsync l then notify_consumer l else l)
           in Inr (l1\<lparr>fp := map_option fflush (fp l1)\<rparr>))"

text \<open>\<open>fclose\<close> hands on what is pending; the stream is kept among those that are closed.\<close>

definition close_file :: "Log \<Rightarrow> Log res" where
  "close_file l =
     (case fp l of None \<Rightarrow> Inl Undefined_Behaviour
      | Some f \<Rightarrow> Inr (l\<lparr>fp := None, lg_closed := lg_closed l @ [fflush f]\<rparr>))"

text \<open>\<open>%04d\<close> and the like, for numbers that are not negative.\<close>

definition pad_int :: "nat \<Rightarrow> int \<Rightarrow> string" where
  "pad_int w n = (let s = string_of_int n in replicate (w - length s) (CHR ''0'') @ s)"

definition log_date :: "tm \<Rightarrow> string" where
  "log_date t = pad_int 4 (tm_year t + 1900) @ ''_'' @ pad_int 2 (tm_mon t + 1) @ ''_'' @ pad_int 2 (tm_mday t)"

section \<open>Opening\<close>

definition open_log :: "(string \<Rightarrow> bool) \<Rightarrow> string \<Rightarrow> Log \<Rightarrow> Log res" where
  "open_log openable name l =
     bind_res (assert_res (openable name)) (\<lambda>_. Inr (l\<lparr>fp := fopen_ab openable name\<rparr>))"

text \<open>
  \<open>init\<close>. The queue is made with its default capacity of 1000, whatever \<open>maxQueueSize\<close> is. The
  second attempt to open the file, after \<open>mkdir\<close>, has an outcome of its own.
\<close>

definition init_queue :: "int \<Rightarrow> Log \<Rightarrow> Log res" where
  "init_queue maxQueueSize l =
     (if maxQueueSize > 0
      then let l1 = l\<lparr>isAsync := True\<rparr>
           in if deque l1 = None
              then bind_res (BlockDeque_new 1000) (\<lambda>q. Inr (l1\<lparr>deque := Some q, writer := Some At_Pop\<rparr>))
              else Inr l1
      else Inr (l\<lparr>isAsync := False\<rparr>))"

definition Log_init :: "(string \<Rightarrow> bool) \<Rightarrow> (string \<Rightarrow> bool) \<Rightarrow> tm \<Rightarrow> int \<Rightarrow> string \<Rightarrow> string \<Rightarrow> int \<Rightarrow> Log \<Rightarrow> Log res" where
  "Log_init openable openable2 t level path suffix maxQueueSize l =
     bind_res (init_queue maxQueueSize (l\<lparr>isOpen := True, lg_level := level\<rparr>)) (\<lambda>l1.
       let l2 = l1\<lparr>lineCount := 0, lg_path := path, lg_suffix := suffix, toDay := tm_mday t,
                   buff := RetrieveAll (buff l1)\<rparr>;
           fileName = take 254 (path @ ''/'' @ log_date t @ suffix)
       in bind_res (if fp l2 = None then Inr l2 else bind_res (Log_flush l2) close_file) (\<lambda>l3.
            open_log (if openable fileName then openable else openable2) fileName l3))"

section \<open>Writing a line\<close>

text \<open>The first block of \<open>write\<close>: a new file for a new day or after every 50000 lines.\<close>

definition MAX_LINES :: int where
  "MAX_LINES = 50000"

definition new_log_file :: "(string \<Rightarrow> bool) \<Rightarrow> tm \<Rightarrow> Log \<Rightarrow> Log res" where
  "new_log_file openable t l =
     (if toDay l \<noteq> tm_mday t \<or> (lineCount l \<noteq> 0 \<and> lineCount l mod MAX_LINES = 0)
      then let tail = take 35 (log_date t);
               newFile = take 183
                 (if toDay l \<noteq> tm_mday t then lg_path l @ ''/'' @ tail @ lg_suffix l
                  else lg_path l @ ''/'' @ tail @ ''-'' @ string_of_int (lineCount l div MAX_LINES) @ lg_suffix l);
               l1 = (if toDay l \<noteq> tm_mday t then l\<lparr>toDay := tm_mday t, lineCount := 0\<rparr> else l)
           in bind_res (bind_res (Log_flush l1) close_file) (open_log openable newFile)
      else Inr l)"

text \<open>
  \<open>snprintf\<close> and \<open>vsnprintf\<close> into the buffer: at most \<open>size - 1\<close> bytes and a zero byte; their result
  is the length of the whole text, whether it fits or not.
\<close>

definition snprintf_at :: "nat \<Rightarrow> string \<Rightarrow> Buffer \<Rightarrow> Buffer res" where
  "snprintf_at n text b =
     (let out = (if n = 0 then [] else take (n - 1) text @ [CHR 0x00])
      in if BeginWrite b + length out \<le> length (vec b)
         then Inr (b\<lparr>vec := blit (vec b) (BeginWrite b) out\<rparr>) else Inl Undefined_Behaviour)"

definition log_header :: "tm \<Rightarrow> int \<Rightarrow> string" where
  "log_header t usec =
     string_of_int (tm_year t + 1900) @ ''-'' @ pad_int 2 (tm_mon t + 1) @ ''-'' @ pad_int 2 (tm_mday t) @ '' ''
     @ pad_int 2 (tm_hour t) @ '':'' @ pad_int 2 (tm_min t) @ '':'' @ pad_int 2 (tm_sec t) @ ''.'' @ pad_int 6 usec @ '' ''"

definition level_title :: "int \<Rightarrow> string" where
  "level_title level =
     (if level = 0 then ''[debug]: '' else if level = 1 then ''[info] : '' else if level = 2 then ''[warn] : ''
      else if level = 3 then ''[error]: '' else ''[info] : '')"

definition AppendLogLevelTitle :: "int \<Rightarrow> Buffer \<Rightarrow> Buffer res" where
  "AppendLogLevelTitle level b = Append (level_title level) b"

definition format_line :: "tm \<Rightarrow> int \<Rightarrow> int \<Rightarrow> string \<Rightarrow> Buffer \<Rightarrow> Buffer res" where
  "format_line t usec level msg b =
     bind_res (snprintf_at 128 (log_header t usec) b) (\<lambda>b1.
     bind_res (AppendLogLevelTitle level (HasWritten (length (log_header t usec)) b1)) (\<lambda>b2.
     bind_res (snprintf_at (WritableBytes b2) msg b2) (\<lambda>b3.
     Append [CHR 0x0A, CHR 0x00] (HasWritten (length msg) b3))))"

definition fputs :: "nat \<Rightarrow> string \<Rightarrow> Log \<Rightarrow> Log res" where
  "fputs spill text l =
     (case fp l of None \<Rightarrow> Inl Undefined_Behaviour | Some f \<Rightarrow> Inr (l\<lparr>fp := Some (fwrite spill (c_str text) f)\<rparr>))"

text \<open>The end of \<open>write\<close>; \<open>None\<close> would be a wait in \<open>push_back\<close> with the log's mutex held.\<close>

definition emit :: "nat \<Rightarrow> Log \<Rightarrow> Log res option" where
  "emit spill l =
     (case (if isAsync l then deque l else None) of
        Some q \<Rightarrow>
          if \<not> bq_full q
          then (case RetrieveAllToStr (buff l) of
                  (str, b) \<Rightarrow>
                    map_option (\<lambda>q'. Inr (notify_consumer (l\<lparr>deque := Some q', buff := RetrieveAll b\<rparr>))) (push_back str q))
          else Some (bind_res (fputs spill (drop (Peek (buff l)) (vec (buff l))) l)
                       (\<lambda>l1. Inr (l1\<lparr>buff := RetrieveAll (buff l1)\<rparr>)))
      | None \<Rightarrow> Some (bind_res (fputs spill (drop (Peek (buff l)) (vec (buff l))) l)
                       (\<lambda>l1. Inr (l1\<lparr>buff := RetrieveAll (buff l1)\<rparr>))))"

definition Log_write :: "(string \<Rightarrow> bool) \<Rightarrow> nat \<Rightarrow> tm \<Rightarrow> int \<Rightarrow> int \<Rightarrow> string \<Rightarrow> Log \<Rightarrow> Log res option" where
  "Log_write openable spill t usec level msg l =
     (case new_log_file openable t l of
        Inl e \<Rightarrow> Some (Inl e)
      | Inr l1 \<Rightarrow>
          (case format_line t usec level msg (buff l1) of
             Inl e \<Rightarrow> Some (Inl e)
           | Inr b \<Rightarrow> emit spill (l1\<lparr>lineCount := lineCount l1 + 1, buff := b\<rparr>)))"

text \<open>The macro \<open>LOG_BASE\<close>.\<close>

definition LOG_BASE :: "(string \<Rightarrow> bool) \<Rightarrow> nat \<Rightarrow> tm \<Rightarrow> int \<Rightarrow> int \<Rightarrow> string \<Rightarrow> Log \<Rightarrow> Log res option" where
  "LOG_BASE openable spill t usec level msg l =
     (if isOpen l \<and> GetLevel l \<le> level
      then map_option (\<lambda>r. bind_res r Log_flush) (Log_write openable spill t usec level msg l)
      else Some (Inr l))"

section \<open>The writing thread and the end\<close>

definition after_pop :: "string pop_outcome \<times> string BlockDeque \<Rightarrow> Log \<Rightarrow> Log" where
  "after_pop r l =
     l\<lparr>deque := Some (snd r),
       writer := Some (case fst r of Popped str \<Rightarrow> Holding str | Pop_False \<Rightarrow> Ended | Pop_Waits \<Rightarrow> Waiting False)\<rparr>"

definition AsyncWrite :: "nat \<Rightarrow> Log \<Rightarrow> Log res option" where
  "AsyncWrite spill l =
     (case (writer l, deque l) of
        (Some At_Pop, Some q) \<Rightarrow> Some (Inr (after_pop (pop_enter q) l))
      | (Some (Waiting notified), Some q) \<Rightarrow> if notified then Some (Inr (after_pop (pop_woken q) l)) else None
      | (Some (Holding str), _) \<Rightarrow> Some (bind_res (fputs spill str l) (\<lambda>l1. Inr (l1\<lparr>writer := Some At_Pop\<rparr>)))
      | _ \<Rightarrow> None)"

text \<open>
  The destructor: it wakes the thread again and again until the queue is empty, closes the queue,
  and joins the thread. One turn of its loop, then the closing; the join returns when the thread
  has ended.
\<close>

definition destroy_turn :: "Log \<Rightarrow> Log" where
  "destroy_turn l =
     (case deque l of
        None \<Rightarrow> l
      | Some q \<Rightarrow> if \<not> bq_empty q then notify_consumer l else notify_consumer (l\<lparr>deque := Some (bq_Close q)\<rparr>))"

definition destroy_end :: "Log \<Rightarrow> Log res" where
  "destroy_end l = (if fp l = None then Inr l else bind_res (Log_flush l) close_file)"

fun writer_turns :: "nat \<Rightarrow> nat \<Rightarrow> Log \<Rightarrow> Log" where
  "writer_turns 0 spill l = l"
| "writer_turns (Suc k) spill l =
     (case AsyncWrite spill l of Some (Inr l1) \<Rightarrow> writer_turns k spill l1 | _ \<Rightarrow> l)"

section \<open>What a line is\<close>

lemma blit_written:
  assumes "buf_ok b" "writePos b + length out \<le> length (vec b)" "k \<le> length out"
  shows "buf_ok (HasWritten k (b\<lparr>vec := blit (vec b) (BeginWrite b) out\<rparr>))"
    and "readable (HasWritten k (b\<lparr>vec := blit (vec b) (BeginWrite b) out\<rparr>)) = readable b @ take k out"
    and "length (vec (HasWritten k (b\<lparr>vec := blit (vec b) (BeginWrite b) out\<rparr>))) = length (vec b)"
proof -
  have "take (writePos b + k) (blit (vec b) (writePos b) out) = take (writePos b) (vec b) @ take k out"
    using assms by (simp add: blit_def buf_ok_def)
  then show "readable (HasWritten k (b\<lparr>vec := blit (vec b) (BeginWrite b) out\<rparr>)) = readable b @ take k out"
    using assms(1) by (simp add: readable_take HasWritten_def BeginWrite_def buf_ok_def)
qed (use assms in \<open>simp_all add: buf_ok_def HasWritten_def BeginWrite_def\<close>)

lemma Append_room:
  assumes "buf_ok b" "length s \<le> length (vec b) - writePos b"
  shows "Append s b = Inr (HasWritten (length s) (b\<lparr>vec := blit (vec b) (BeginWrite b) s\<rparr>))"
  using assms by (auto simp: Append_def EnsureWriteable_def BeginWrite_def buf_ok_def WritableBytes_def)

lemma snprintf_at_ok:
  assumes "buf_ok b" "0 < n" "n \<le> length (vec b) - writePos b" "length text \<le> n"
  obtains b' where "snprintf_at n text b = Inr b'" "buf_ok (HasWritten (length text) b')"
    "readable (HasWritten (length text) b') = readable b @ take (length text) (take (n - 1) text @ [CHR 0x00])"
    "length (vec (HasWritten (length text) b')) = length (vec b)" "writePos b' = writePos b"
proof -
  let ?out = "take (n - 1) text @ [CHR 0x00]"
  let ?b = "b\<lparr>vec := blit (vec b) (BeginWrite b) ?out\<rparr>"
  have len: "writePos b + length ?out \<le> length (vec b)" "length text \<le> length ?out"
    using assms by (auto simp: buf_ok_def)
  then have "snprintf_at n text b = Inr ?b" using assms(2) by (simp add: snprintf_at_def BeginWrite_def)
  then show ?thesis using that [of ?b] blit_written [OF assms(1) len] by simp
qed

lemma level_title_length [simp]: "length (level_title level) = 9"
  by (simp add: level_title_def)

lemma level_title_no_nul [simp]: "CHR 0x00 \<notin> set (level_title level)"
  by (simp add: level_title_def)

text \<open>Header and title fit a buffer at rest, and what is left is the room for the message.\<close>

lemma format_head:
  assumes "buf_ok b" "readPos b = 0" "writePos b = 0" "length (log_header t usec) < 128" "137 \<le> length (vec b)"
  obtains b2 where "buf_ok b2" "readable b2 = log_header t usec @ level_title level" "readPos b2 = 0"
    "length (vec b2) = length (vec b)" "writePos b2 = length (log_header t usec) + 9"
    "format_line t usec level msg b = bind_res (snprintf_at (WritableBytes b2) msg b2)
       (\<lambda>b3. Append [CHR 0x0A, CHR 0x00] (HasWritten (length msg) b3))"
proof -
  let ?h = "log_header t usec"
  let ?out = "take 127 ?h @ [CHR 0x00]"
  let ?b1 = "b\<lparr>vec := blit (vec b) (BeginWrite b) ?out\<rparr>"
  have out: "writePos b + length ?out \<le> length (vec b)" "length ?h \<le> length ?out" "take (length ?h) ?out = ?h"
    using assms by auto
  have s: "snprintf_at 128 ?h b = Inr ?b1" using assms out(1) by (simp add: snprintf_at_def BeginWrite_def)
  note b1 = blit_written [OF assms(1) out(1,2)]
  let ?b1' = "HasWritten (length ?h) ?b1"
  have wp: "writePos ?b1' = length ?h" using assms(3) by (simp add: HasWritten_def)
  have room: "length (level_title level) \<le> length (vec ?b1') - writePos ?b1'" using b1(3) wp assms(4,5) by simp
  let ?b2 = "HasWritten (length (level_title level)) (?b1'\<lparr>vec := blit (vec ?b1') (BeginWrite ?b1') (level_title level)\<rparr>)"
  have wpt: "writePos ?b1' + length (level_title level) \<le> length (vec ?b1')" using room b1(1) by (auto simp: buf_ok_def)
  note b2 = blit_written [OF b1(1) wpt order_refl]
  have r0: "readable b = []" using assms(2,3) by (simp add: readable_def)
  show ?thesis
  proof
    show "format_line t usec level msg b = bind_res (snprintf_at (WritableBytes ?b2) msg ?b2)
       (\<lambda>b3. Append [CHR 0x0A, CHR 0x00] (HasWritten (length msg) b3))"
      using s Append_room [OF b1(1) room] by (simp add: format_line_def AppendLogLevelTitle_def)
  qed (use b2 b1 r0 out(3) wp assms(2) in \<open>simp_all add: HasWritten_def\<close>)
qed

lemma c_str_line:
  assumes "CHR 0x00 \<notin> set p" "CHR 0x00 \<notin> set msg" "0 < space" "length msg \<le> space"
  shows "c_str (p @ take (length msg) (take (space - 1) msg @ [CHR 0x00]) @ [CHR 0x0A, CHR 0x00])
    = p @ (if length msg < space then msg @ [CHR 0x0A] else take (space - 1) msg)"
proof (cases "length msg < space")
  case True
  then show ?thesis using assms c_str_append_nul [of "p @ msg @ [CHR 0x0A]" "[]"] by simp
next
  case False
  then have len: "length msg = space" using assms(4) by simp
  have "CHR 0x00 \<notin> set (p @ take (space - 1) msg)" using assms(1,2) by (auto dest: in_set_takeD)
  from c_str_append_nul [OF this, of "[CHR 0x0A, CHR 0x00]"] show ?thesis using len assms(3) by simp
qed

lemma Append_past_end:
  assumes "length (vec b) < writePos b" "writePos b + length s \<le> 2 ^ 64 + length (vec b)" "s \<noteq> []"
  shows "Append s b = Inl Undefined_Behaviour"
  using assms by (auto simp: Append_def EnsureWriteable_def BeginWrite_def WritableBytes_def size_sub_def)

text \<open>
  How long a log line may be. In a buffer at rest, as the log has it between lines, the room for
  the message is what the time and the level leave. A message shorter than the room gives the
  whole line, ending in a line feed; a message as long as the room loses its last character and
  the line feed; a longer one makes \<open>HasWritten\<close> pass the end of the buffer, and the next \<open>Append\<close>
  writes outside it.
\<close>

theorem log_line_bounds:
  assumes "buf_ok b" "readPos b = 0" "writePos b = 0" "length (log_header t usec) < 128" "137 \<le> length (vec b)"
    and "CHR 0x00 \<notin> set (log_header t usec)" "CHR 0x00 \<notin> set msg" "length msg < 2 ^ 31"
    and "space = length (vec b) - (length (log_header t usec) + 9)"
  shows "case format_line t usec level msg b of
      Inl e \<Rightarrow> space < length msg \<and> e = Undefined_Behaviour
    | Inr b' \<Rightarrow> length msg \<le> space \<and> buf_ok b'
        \<and> c_str (readable b') = log_header t usec @ level_title level
            @ (if length msg < space then msg @ [CHR 0x0A] else take (space - 1) msg)"
proof -
  obtain b2 where b2: "buf_ok b2" "readable b2 = log_header t usec @ level_title level" "length (vec b2) = length (vec b)"
    "writePos b2 = length (log_header t usec) + 9"
    "format_line t usec level msg b = bind_res (snprintf_at (WritableBytes b2) msg b2)
       (\<lambda>b3. Append [CHR 0x0A, CHR 0x00] (HasWritten (length msg) b3))"
    using format_head [OF assms(1-5)] by metis
  have w: "WritableBytes b2 = space" "0 < space" using b2 assms(4,5,9) by auto
  show ?thesis
  proof (cases "length msg \<le> space")
    case True
    have room: "space \<le> length (vec b2) - writePos b2" using b2(1) w(1) by simp
    obtain b3 where b3: "snprintf_at space msg b2 = Inr b3" "buf_ok (HasWritten (length msg) b3)"
      "readable (HasWritten (length msg) b3) = readable b2 @ take (length msg) (take (space - 1) msg @ [CHR 0x00])"
      using snprintf_at_ok [OF b2(1) w(2) room True] by metis
    obtain b4 where b4: "Append [CHR 0x0A, CHR 0x00] (HasWritten (length msg) b3) = Inr b4" "buf_ok b4"
      "readable b4 = readable b2 @ take (length msg) (take (space - 1) msg @ [CHR 0x00]) @ [CHR 0x0A, CHR 0x00]"
      using Append_ok [OF b3(2)] b3(3) by (metis append.assoc)
    then show ?thesis
      using b2(2,5) w b3(1) True c_str_line [of "readable b2" msg space] assms(6,7) by simp
  next
    case False
    let ?b = "HasWritten (length msg) (b2\<lparr>vec := blit (vec b2) (BeginWrite b2) (take (space - 1) msg @ [CHR 0x00])\<rparr>)"
    have fits: "writePos b2 + length (take (space - 1) msg @ [CHR 0x00]) \<le> length (vec b2)"
      using False w b2(1) by (auto simp: buf_ok_def)
    then have len: "length (vec ?b) = length (vec b)" "writePos ?b = length (log_header t usec) + 9 + length msg"
      using b2(3,4) by (simp_all add: HasWritten_def BeginWrite_def)
    have "Append [CHR 0x0A, CHR 0x00] ?b = Inl Undefined_Behaviour"
      by (rule Append_past_end) (use len False assms(4,8,9) in auto)
    then show ?thesis using b2(5) w fits False by (simp add: snprintf_at_def BeginWrite_def)
  qed
qed

definition some_tm :: tm where
  "some_tm = \<lparr>tm_year = 125, tm_mon = 0, tm_mday = 1, tm_hour = 0, tm_min = 0, tm_sec = 0\<rparr>"

lemma some_header: "log_header some_tm 0 = ''2025-01-01 00:00:00.000000 ''"
  by code_simp

theorem log_line_bounds_witness:
  "case format_line some_tm 0 1 ''ready'' (Buffer_new 1024) of
     Inl e \<Rightarrow> False | Inr b' \<Rightarrow> c_str (readable b') = ''2025-01-01 00:00:00.000000 [info] : ready'' @ [CHR 0x0A]"
  using log_line_bounds [of "Buffer_new 1024" some_tm 0 "''ready''" 988 1]
  by (simp add: some_header Buffer_new_def buf_ok_def level_title_def split: sum.splits)

section \<open>No line is lost\<close>

lemma EnsureWriteable_readPos:
  assumes "EnsureWriteable n b = Inr b'" "readPos b \<le> writePos b"
  shows "readPos b' \<le> writePos b'"
proof -
  have "MakeSpace n b = Inr b'' \<Longrightarrow> readPos b'' \<le> writePos b''" for b''
    using assms(2) by (auto simp: MakeSpace_def Let_def ReadableBytes_def split: if_splits)
  then show ?thesis
    using assms by (auto simp: EnsureWriteable_def bind_res_Inr_iff assert_res_def split: if_splits)
qed

lemma Append_Inr:
  assumes "Append s b = Inr b'" "readPos b \<le> writePos b"
  shows "buf_ok b'" "\<exists>p. readable b' = p @ s"
proof -
  obtain b1 where e: "EnsureWriteable (length s) b = Inr b1" and f: "writePos b1 + length s \<le> length (vec b1)"
      and b': "b' = HasWritten (length s) (b1\<lparr>vec := blit (vec b1) (BeginWrite b1) s\<rparr>)"
    using assms(1) by (auto simp: Append_def bind_res_Inr_iff BeginWrite_def split: if_splits)
  have "buf_ok b1" using EnsureWriteable_readPos [OF e assms(2)] f by (simp add: buf_ok_def)
  from blit_written [OF this f order_refl] show "buf_ok b'" "\<exists>p. readable b' = p @ s" using b' by auto
qed

lemma format_line_Inr:
  assumes "format_line t usec level msg b = Inr b'" "readPos b \<le> writePos b"
  shows "buf_ok b'" "\<exists>p. readable b' = p @ [CHR 0x00]"
proof -
  obtain b1 b2 b3 where f: "snprintf_at 128 (log_header t usec) b = Inr b1"
      "Append (level_title level) (HasWritten (length (log_header t usec)) b1) = Inr b2"
      "snprintf_at (WritableBytes b2) msg b2 = Inr b3"
      "Append [CHR 0x0A, CHR 0x00] (HasWritten (length msg) b3) = Inr b'"
    using assms(1) by (auto simp: format_line_def bind_res_Inr_iff AppendLogLevelTitle_def)
  have "buf_ok b2"
    by (rule Append_Inr(1) [OF f(2)]) (use f(1) assms(2) in \<open>auto simp: snprintf_at_def HasWritten_def Let_def split: if_splits\<close>)
  then have "readPos (HasWritten (length msg) b3) \<le> writePos (HasWritten (length msg) b3)"
    using f(3) by (auto simp: snprintf_at_def HasWritten_def buf_ok_def Let_def split: if_splits)
  note a = Append_Inr [OF f(4) this]
  then obtain p where "readable b' = (p @ [CHR 0x0A]) @ [CHR 0x00]" by auto
  then show "\<exists>p. readable b' = p @ [CHR 0x00]" by blast
  show "buf_ok b'" by (rule a(1))
qed

lemma c_str_nul: "c_str (p @ CHR 0x00 # r) = c_str (p @ [CHR 0x00])"
  by (induction p) (auto simp: c_str_def)

lemma c_str_from_peek:
  assumes "buf_ok b" "readable b = p @ [CHR 0x00]"
  shows "c_str (drop (Peek b) (vec b)) = c_str (readable b)"
proof -
  have "drop (readPos b) (vec b) = readable b @ drop (writePos b - readPos b) (drop (readPos b) (vec b))"
    by (simp add: readable_def append_take_drop_id del: drop_drop)
  then obtain r where "drop (Peek b) (vec b) = p @ CHR 0x00 # r" using assms(2) by (auto simp: Peek_def)
  then show ?thesis using assms(2) c_str_nul [of p r] by simp
qed

definition log_bytes :: "Log \<Rightarrow> string" where
  "log_bytes l = concat (map f_bytes (lg_closed l @ (case fp l of None \<Rightarrow> [] | Some f \<Rightarrow> [f])))"

definition held :: "Log \<Rightarrow> string list" where
  "held l = (case writer l of Some (Holding str) \<Rightarrow> [c_str str] | _ \<Rightarrow> [])"

definition queued :: "Log \<Rightarrow> string list" where
  "queued l = (case deque l of None \<Rightarrow> [] | Some q \<Rightarrow> map c_str (deq q))"

text \<open>Whether a line written now overtakes the queue: there is none, or it is full.\<close>

definition overtakes :: "Log \<Rightarrow> bool" where
  "overtakes l = (case (if isAsync l then deque l else None) of None \<Rightarrow> True | Some q \<Rightarrow> bq_full q)"

text \<open>
  The runs of a log: lines written by any callers, flushes, and turns of the thread, in any order.
  The lines are collected as they are formatted, and whether none of them overtook the queue.
\<close>

inductive log_run :: "Log \<Rightarrow> string list \<Rightarrow> bool \<Rightarrow> Log \<Rightarrow> bool" for l0 where
  start: "log_run l0 [] True l0"
| line: "log_run l0 ls ordered l \<Longrightarrow> new_log_file openable t l = Inr l1 \<Longrightarrow>
         format_line t usec level msg (buff l1) = Inr b \<Longrightarrow>
         Log_write openable spill t usec level msg l = Some (Inr l') \<Longrightarrow>
         log_run l0 (ls @ [c_str (readable b)]) (ordered \<and> \<not> overtakes l1) l'"
| flushed: "log_run l0 ls ordered l \<Longrightarrow> Log_flush l = Inr l' \<Longrightarrow> log_run l0 ls ordered l'"
| turn: "log_run l0 ls ordered l \<Longrightarrow> AsyncWrite spill l = Some (Inr l') \<Longrightarrow> log_run l0 ls ordered l'"

definition log_rest :: "Log \<Rightarrow> bool" where
  "log_rest l \<longleftrightarrow> readPos (buff l) \<le> writePos (buff l)"

lemma notify_simps [simp]:
  "held (notify_consumer l) = held l" "queued (notify_consumer l) = queued l" "log_bytes (notify_consumer l) = log_bytes l"
  "fp (notify_consumer l) = fp l" "buff (notify_consumer l) = buff l" "isAsync (notify_consumer l) = isAsync l"
  "deque (notify_consumer l) = deque l" "lg_closed (notify_consumer l) = lg_closed l"
  by (auto simp: notify_consumer_def held_def queued_def log_bytes_def split: option.splits writer_pc.splits)

lemma log_update_simps [simp]:
  "held (l\<lparr>fp := x\<rparr>) = held l" "queued (l\<lparr>fp := x\<rparr>) = queued l"
  "held (l\<lparr>lg_closed := c\<rparr>) = held l" "queued (l\<lparr>lg_closed := c\<rparr>) = queued l"
  "held (l\<lparr>toDay := d\<rparr>) = held l" "queued (l\<lparr>toDay := d\<rparr>) = queued l" "log_bytes (l\<lparr>toDay := d\<rparr>) = log_bytes l"
  "held (l\<lparr>lineCount := n\<rparr>) = held l" "queued (l\<lparr>lineCount := n\<rparr>) = queued l" "log_bytes (l\<lparr>lineCount := n\<rparr>) = log_bytes l"
  "held (l\<lparr>buff := b\<rparr>) = held l" "queued (l\<lparr>buff := b\<rparr>) = queued l" "log_bytes (l\<lparr>buff := b\<rparr>) = log_bytes l"
  "held (l\<lparr>deque := q\<rparr>) = held l" "log_bytes (l\<lparr>deque := q\<rparr>) = log_bytes l"
  "queued (l\<lparr>writer := w\<rparr>) = queued l" "log_bytes (l\<lparr>writer := w\<rparr>) = log_bytes l"
  by (simp_all add: held_def queued_def log_bytes_def)

lemma log_bytes_fp: "log_bytes l = concat (map f_bytes (lg_closed l)) @ (case fp l of None \<Rightarrow> [] | Some f \<Rightarrow> f_bytes f)"
  by (simp add: log_bytes_def split: option.split)

lemma Log_flush_keeps:
  assumes "Log_flush l = Inr l'"
  shows "log_bytes l' = log_bytes l" "held l' = held l" "queued l' = queued l" "buff l' = buff l"
  using assms by (auto simp: Log_flush_def Let_def log_bytes_fp split: if_splits option.splits)

lemma roll_file_keeps:
  assumes "Log_flush l1 = Inr l2" "close_file l2 = Inr l3" "open_log openable name l3 = Inr l'"
  shows "log_bytes l' = log_bytes l1" "held l' = held l1" "queued l' = queued l1" "buff l' = buff l1"
proof -
  obtain f where f: "fp l2 = Some f" "l3 = l2\<lparr>fp := None, lg_closed := lg_closed l2 @ [fflush f]\<rparr>"
    using assms(2) by (auto simp: close_file_def split: option.splits)
  obtain f' where f': "l' = l3\<lparr>fp := Some f'\<rparr>" "f_bytes f' = []"
    using assms(3) by (auto simp: open_log_def fopen_ab_def bind_res_Inr_iff assert_res_def f_bytes_def split: if_splits)
  show "log_bytes l' = log_bytes l1" "held l' = held l1" "queued l' = queued l1" "buff l' = buff l1"
    using Log_flush_keeps [OF assms(1)] f f' by (simp_all add: log_bytes_fp)
qed

lemma new_log_file_keeps:
  assumes "new_log_file openable t l = Inr l'"
  shows "log_bytes l' = log_bytes l \<and> held l' = held l \<and> queued l' = queued l \<and> buff l' = buff l"
proof (cases "l' = l")
  case False
  then obtain l1 l2 l3 name where "l1 = l \<or> l1 = l\<lparr>toDay := tm_mday t, lineCount := 0\<rparr>"
      "Log_flush l1 = Inr l2" "close_file l2 = Inr l3" "open_log openable name l3 = Inr l'"
    using assms by (simp add: new_log_file_def Let_def bind_res_Inr_iff split: if_splits) blast+
  then show ?thesis using roll_file_keeps [of l1 l2 l3 openable name l'] by auto
qed simp

lemma fputs_ok:
  assumes "fputs spill text l = Inr l'"
  shows "log_bytes l' = log_bytes l @ c_str text" "\<exists>f. l' = l\<lparr>fp := f\<rparr>"
  using assms by (auto simp: fputs_def log_bytes_fp split: option.splits)

lemma emit_direct:
  assumes "overtakes l" "emit spill l = Some (Inr l')" "buf_ok (buff l)" "readable (buff l) = p @ [CHR 0x00]"
  shows "log_bytes l' = log_bytes l @ c_str (readable (buff l))" "held l' = held l" "queued l' = queued l"
    "readPos (buff l') \<le> writePos (buff l')"
proof -
  have "emit spill l = Some (bind_res (fputs spill (drop (Peek (buff l)) (vec (buff l))) l)
      (\<lambda>l1. Inr (l1\<lparr>buff := RetrieveAll (buff l1)\<rparr>)))"
    using assms(1) by (auto simp: emit_def overtakes_def split: option.splits)
  then obtain l1 where l1: "fputs spill (drop (Peek (buff l)) (vec (buff l))) l = Inr l1" "l' = l1\<lparr>buff := RetrieveAll (buff l1)\<rparr>"
    using assms(2) by (cases "fputs spill (drop (Peek (buff l)) (vec (buff l))) l") auto
  show "log_bytes l' = log_bytes l @ c_str (readable (buff l))" "held l' = held l" "queued l' = queued l"
      "readPos (buff l') \<le> writePos (buff l')"
    using l1(2) fputs_ok [OF l1(1)] c_str_from_peek [OF assms(3,4)] by (auto simp: RetrieveAll_def)
qed

lemma emit_queued:
  assumes "\<not> overtakes l" "emit spill l = Some (Inr l')" "buf_ok (buff l)"
  shows "log_bytes l' = log_bytes l" "held l' = held l" "queued l' = queued l @ [c_str (readable (buff l))]"
    "readPos (buff l') \<le> writePos (buff l')"
proof -
  obtain q where q: "isAsync l" "deque l = Some q" "\<not> bq_full q"
    using assms(1) by (auto simp: overtakes_def split: option.splits if_splits)
  then have "push_back (readable (buff l)) q = Some (q\<lparr>deq := deq q @ [readable (buff l)]\<rparr>)"
    by (simp add: push_back_def bq_full_def)
  then have "l' = notify_consumer (l\<lparr>deque := Some (q\<lparr>deq := deq q @ [readable (buff l)]\<rparr>), buff := RetrieveAll (RetrieveAll (buff l))\<rparr>)"
    using assms(2) q fst_RetrieveAllToStr [OF assms(3)]
    by (simp add: emit_def RetrieveAllToStr_def)
  then show "log_bytes l' = log_bytes l" "held l' = held l" "queued l' = queued l @ [c_str (readable (buff l))]"
      "readPos (buff l') \<le> writePos (buff l')"
    using q(2) by (simp_all add: queued_def RetrieveAll_def)
qed

text \<open>A call never waits for room in the queue while it holds the mutex of the log.\<close>

lemma Log_write_returns: "Log_write openable spill t usec level msg l \<noteq> None"
  by (auto simp: Log_write_def emit_def push_back_def bq_full_def split: sum.splits option.splits prod.splits)

lemma turn_moves:
  assumes "AsyncWrite spill l = Some (Inr l')"
  shows "buff l' = buff l"
    "\<exists>outs. log_bytes l' = log_bytes l @ concat outs \<and> held l @ queued l = outs @ held l' @ queued l'"
proof -
  have "buff l' = buff l \<and> (\<exists>outs. log_bytes l' = log_bytes l @ concat outs \<and> held l @ queued l = outs @ held l' @ queued l')"
  proof (cases "\<exists>str. writer l = Some (Holding str)")
    case True
    then obtain str where w: "writer l = Some (Holding str)" by blast
    then obtain l1 where l1: "fputs spill str l = Inr l1" "l' = l1\<lparr>writer := Some At_Pop\<rparr>"
      using assms by (auto simp: AsyncWrite_def bind_res_Inr_iff split: option.splits)
    obtain f where f: "l1 = l\<lparr>fp := f\<rparr>" using fputs_ok(2) [OF l1(1)] by blast
    show ?thesis
      by (rule conjI, use l1(2) f in simp, rule exI [of _ "[c_str str]"])
        (use l1(2) f w fputs_ok(1) [OF l1(1)] in \<open>simp add: held_def queued_def\<close>)
  next
    case False
    then have "\<exists>q. deque l = Some q \<and> (l' = after_pop (pop_enter q) l \<or> l' = after_pop (pop_woken q) l)"
      using assms by (auto simp: AsyncWrite_def split: option.splits writer_pc.splits if_splits)
    then obtain q r where r: "deque l = Some q" "r = pop_enter q \<or> r = pop_woken q" "l' = after_pop r l" by blast
    show ?thesis
      by (rule conjI, use r(3) in \<open>simp add: after_pop_def\<close>, rule exI [of _ "[]"])
        (use r False in \<open>auto simp: after_pop_def pop_woken_def pop_enter_def held_def queued_def
           split: option.splits writer_pc.splits list.splits if_splits\<close>)
  qed
  then show "buff l' = buff l"
    "\<exists>outs. log_bytes l' = log_bytes l @ concat outs \<and> held l @ queued l = outs @ held l' @ queued l'" by auto
qed

definition log_inv :: "Log \<Rightarrow> string list \<Rightarrow> bool \<Rightarrow> Log \<Rightarrow> bool" where
  "log_inv l0 ls ordered l \<longleftrightarrow>
     readPos (buff l) \<le> writePos (buff l)
     \<and> (\<exists>outs. log_bytes l = log_bytes l0 @ concat outs
          \<and> mset ls = mset (outs @ held l @ queued l) \<and> (ordered \<longrightarrow> ls = outs @ held l @ queued l))"

lemma log_run_inv:
  assumes "log_run l0 ls ordered l" "readPos (buff l0) \<le> writePos (buff l0)" "held l0 = []" "queued l0 = []"
  shows "log_inv l0 ls ordered l"
  using assms(1)
proof (induction rule: log_run.induct)
  case start
  then show ?case using assms(2-4) by (auto simp: log_inv_def intro: exI [of _ "[]"])
next
  case (line ls ordered l openable t l1 usec level msg b spill l')
  obtain outs where outs: "log_bytes l = log_bytes l0 @ concat outs" "mset ls = mset (outs @ held l @ queued l)"
      "ordered \<longrightarrow> ls = outs @ held l @ queued l" and r: "readPos (buff l) \<le> writePos (buff l)"
    using line.IH by (auto simp: log_inv_def)
  note k = new_log_file_keeps [OF line(2)]
  obtain p where b: "buf_ok b" "readable b = p @ [CHR 0x00]" using format_line_Inr [OF line(3)] k r by auto
  let ?l2 = "l1\<lparr>lineCount := lineCount l1 + 1, buff := b\<rparr>"
  have e: "emit spill ?l2 = Some (Inr l')" using line(2-4) by (simp add: Log_write_def)
  show ?case
  proof (cases "overtakes l1")
    case True
    then have "overtakes ?l2" by (simp add: overtakes_def cong: if_cong)
    from emit_direct [OF this e, of p] b outs k True show ?thesis
      by (auto simp: log_inv_def intro!: exI [of _ "outs @ [c_str (readable b)]"])
  next
    case False
    then have "\<not> overtakes ?l2" by (simp add: overtakes_def cong: if_cong)
    from emit_queued [OF this e] b outs k False show ?thesis
      by (auto simp: log_inv_def intro!: exI [of _ outs])
  qed
next
  case (flushed ls ordered l l')
  then show ?case using Log_flush_keeps [of l l'] by (simp add: log_inv_def)
next
  case (turn ls ordered l spill l')
  obtain o2 where "log_bytes l' = log_bytes l @ concat o2" "held l @ queued l = o2 @ held l' @ queued l'"
    using turn_moves(2) [OF turn(2)] by blast
  moreover obtain outs where "log_bytes l = log_bytes l0 @ concat outs" "mset ls = mset (outs @ held l @ queued l)"
      "ordered \<longrightarrow> ls = outs @ held l @ queued l" "readPos (buff l) \<le> writePos (buff l)"
    using turn.IH by (auto simp: log_inv_def)
  ultimately show ?case
    using turn_moves(1) [OF turn(2)] by (auto simp: log_inv_def intro!: exI [of _ "outs @ o2"])
qed


definition some_log :: Log where
  "some_log = Log_new\<lparr>isOpen := True, lg_level := 1, isAsync := True,
     deque := Some \<lparr>deq = [], bq_capacity = 1000, isClose = False\<rparr>, writer := Some At_Pop, toDay := 1,
     lg_path := ''.'', lg_suffix := ''.log'', buff := RetrieveAll (Buffer_new 1024),
     fp := Some \<lparr>f_name = ''./2025_01_01.log'', f_disk = [], f_kernel = [], f_pending = []\<rparr>\<rparr>"

lemma some_log_init: "Log_init (\<lambda>_. True) (\<lambda>_. True) some_tm 1 ''.'' ''.log'' 1024 Log_new = Inr some_log"
proof -
  have "log_date some_tm = ''2025_01_01''" by code_simp
  then show ?thesis
    by (simp add: Log_init_def Log_new_def init_queue_def BlockDeque_new_def open_log_def fopen_ab_def some_log_def some_tm_def)
qed

lemma some_line:
  "case format_line some_tm 0 1 ''up'' (buff some_log) of
     Inr b \<Rightarrow> c_str (readable b) = ''2025-01-01 00:00:00.000000 [info] : up'' @ [CHR 0x0A] | _ \<Rightarrow> False"
  by code_simp

lemma some_write: "case Log_write (\<lambda>_. True) 0 some_tm 0 1 ''up'' some_log of Some (Inr l) \<Rightarrow> True | _ \<Rightarrow> False"
  by code_simp


section \<open>The end of the thread\<close>

lemma waiting_stays: "writer l = Some (Waiting False) \<Longrightarrow> writer_turns k spill l = l"
  by (cases k) (auto simp: AsyncWrite_def split: option.splits)

text \<open>
  Closing the log may hang. The destructor closes the queue as soon as it is empty. If the
  thread is waiting in \<open>pop\<close> at that moment, its next turn ends it; but if it has taken a line and
  is writing it, or is about to call \<open>pop\<close>, it will find the queue empty and wait for a
  notification that has already been given: however many turns it gets, it never ends, and the
  join in the destructor never returns.
\<close>

theorem destroy_may_hang:
  assumes "deque l = Some q" "bq_empty q" "fp l \<noteq> None" "writer l = Some pc" "pc \<noteq> Ended"
  shows "case pc of
      Waiting _ \<Rightarrow> writer (writer_turns 1 spill (destroy_turn l)) = Some Ended
    | _ \<Rightarrow> \<forall>k. writer (writer_turns k spill (destroy_turn l)) \<noteq> Some Ended"
proof -
  let ?q = "bq_Close q"
  have d: "destroy_turn l = notify_consumer (l\<lparr>deque := Some ?q\<rparr>)" using assms(1,2) by (simp add: destroy_turn_def)
  have enter: "pop_enter ?q = (Pop_Waits, ?q)" by (simp add: pop_enter_def bq_Close_def)
  have at: "writer (writer_turns k spill l1) \<noteq> Some Ended"
    if "writer l1 = Some At_Pop" "deque l1 = Some ?q" for k l1
  proof (cases k)
    case (Suc k')
    have "AsyncWrite spill l1 = Some (Inr (l1\<lparr>deque := Some ?q, writer := Some (Waiting False)\<rparr>))"
      using that enter by (simp add: AsyncWrite_def after_pop_def)
    then show ?thesis using Suc waiting_stays [of "l1\<lparr>deque := Some ?q, writer := Some (Waiting False)\<rparr>" k' spill] by simp
  qed (use that in simp)
  show ?thesis
  proof (cases pc)
    case At_Pop
    then show ?thesis using at [of "destroy_turn l"] d assms(4) by (simp add: notify_consumer_def)
  next
    case (Waiting b)
    then show ?thesis using d assms(4)
      by (simp add: notify_consumer_def AsyncWrite_def pop_woken_def bq_Close_def after_pop_def)
  next
    case (Holding str)
    have "writer (writer_turns k spill (destroy_turn l)) \<noteq> Some Ended" for k
      by (cases k) (use d assms(3,4) Holding at in \<open>auto simp: notify_consumer_def AsyncWrite_def fputs_def\<close>)
    then show ?thesis using Holding by simp
  qed (use assms(5) in simp)
qed

theorem destroy_may_hang_witness:
  "\<forall>k. writer (writer_turns k 0 (destroy_turn (some_log\<lparr>writer := Some (Holding ''last line'')\<rparr>))) \<noteq> Some Ended"
  using destroy_may_hang [of "some_log\<lparr>writer := Some (Holding ''last line'')\<rparr>" "\<lparr>deq = [], bq_capacity = 1000, isClose = False\<rparr>"
      "Holding ''last line''" 0]
  by (simp add: some_log_def bq_empty_def)

end
