(* ===== verification/Epoll.thy ===== *)
theory Epoll
  imports Prelude
begin

text \<open>
  What the two servers of \<open>code\<close> use of \<open>epoll\<close>: the event bits, the interest list of an epoll instance
  with the three operations of \<open>epoll_ctl\<close>, and what a report does to a descriptor with \<open>EPOLLONESHOT\<close>.
\<close>

unbundle bit_operations_syntax

definition EPOLLIN :: u32 where "EPOLLIN = 0x001"
definition EPOLLPRI :: u32 where "EPOLLPRI = 0x002"
definition EPOLLOUT :: u32 where "EPOLLOUT = 0x004"
definition EPOLLERR :: u32 where "EPOLLERR = 0x008"
definition EPOLLHUP :: u32 where "EPOLLHUP = 0x010"
definition EPOLLRDHUP :: u32 where "EPOLLRDHUP = 0x2000"
definition EPOLLONESHOT :: u32 where "EPOLLONESHOT = push_bit 30 1"
definition EPOLLET :: u32 where "EPOLLET = push_bit 31 1"

lemmas epoll_bits = EPOLLIN_def EPOLLPRI_def EPOLLOUT_def EPOLLERR_def EPOLLHUP_def EPOLLRDHUP_def EPOLLONESHOT_def EPOLLET_def

text \<open>
  The interest list: the events asked for, and whether the descriptor is armed. A descriptor with
  \<open>EPOLLONESHOT\<close> is disarmed when an event is reported, until it is modified. Adding a descriptor that is
  there fails, and so does modifying or deleting one that is not.
\<close>

type_synonym interest = "int \<rightharpoonup> u32 \<times> bool"

definition ctl_add :: "int \<Rightarrow> u32 \<Rightarrow> interest \<Rightarrow> interest option" where
  "ctl_add fd events m = (if fd < 0 then None else case m fd of None \<Rightarrow> Some (m(fd \<mapsto> (events, True))) | Some _ \<Rightarrow> None)"

definition ctl_mod :: "int \<Rightarrow> u32 \<Rightarrow> interest \<Rightarrow> interest option" where
  "ctl_mod fd events m = (if fd < 0 then None else case m fd of None \<Rightarrow> None | Some _ \<Rightarrow> Some (m(fd \<mapsto> (events, True))))"

definition ctl_del :: "int \<Rightarrow> interest \<Rightarrow> interest option" where
  "ctl_del fd m = (if fd < 0 then None else case m fd of None \<Rightarrow> None | Some _ \<Rightarrow> Some (m(fd := None)))"

lemmas ctl_defs = ctl_add_def ctl_mod_def ctl_del_def

definition ep_report :: "int \<Rightarrow> interest \<Rightarrow> interest" where
  "ep_report fd m = (case m fd of Some (ev, _) \<Rightarrow> if ev AND EPOLLONESHOT \<noteq> 0 then m(fd \<mapsto> (ev, False)) else m | None \<Rightarrow> m)"

lemma ep_report_dom: "(ep_report fd m x = None) = (m x = None)"
  by (auto simp: ep_report_def split: option.split prod.split)

end
