(* ===== verification/Db_Pool.thy ===== *)
theory Db_Pool
  imports Prelude "HOL-Library.Multiset"
begin

text \<open>
  The two pools of database connections: \<open>SqlConnPool\<close> of the older server (\<open>code/pool\<close>), a queue
  guarded by a semaphore and a mutex, as a system of threads that take their steps in any order;
  and \<open>http::db::DbConnectionPool\<close> of the framework (\<open>HttpServer/src/utils/db\<close>), whose operations run
  with its mutex held, with the connection objects \<open>DbConnection\<close> on a heap. The database library
  is a parameter. What a client of a pool relies on is the locale \<open>resource_pool\<close>.
\<close>

section \<open>Pools of resources\<close>

text \<open>A client takes a resource, which may fail, or gives back the \<open>k\<close>-th of those it holds.\<close>

datatype client_op = Take | Give nat

fun client_run :: "('p \<Rightarrow> 'c option \<times> 'p) \<Rightarrow> ('c \<Rightarrow> 'p \<Rightarrow> 'p) \<Rightarrow> client_op list \<Rightarrow> 'c list \<Rightarrow> 'p \<Rightarrow> 'c list \<times> 'p" where
  "client_run acquire release [] lent p = (lent, p)"
| "client_run acquire release (Take # ops) lent p =
     (case acquire p of
        (None, p') \<Rightarrow> client_run acquire release ops lent p'
      | (Some c, p') \<Rightarrow> client_run acquire release ops (lent @ [c]) p')"
| "client_run acquire release (Give k # ops) lent p =
     (if k < length lent
      then client_run acquire release ops (take k lent @ drop (Suc k) lent) (release (lent ! k) p)
      else client_run acquire release ops lent p)"

locale resource_pool =
  fixes acquire :: "'p \<Rightarrow> 'c option \<times> 'p"
    and release :: "'c \<Rightarrow> 'p \<Rightarrow> 'p"
    and idle :: "'p \<Rightarrow> 'c list"
    and ok :: "'c multiset \<Rightarrow> 'p \<Rightarrow> bool"
  assumes acquire_None: "ok L p \<Longrightarrow> acquire p = (None, p') \<Longrightarrow> ok L p' \<and> mset (idle p') = mset (idle p)"
    and acquire_Some: "ok L p \<Longrightarrow> acquire p = (Some c, p') \<Longrightarrow>
          ok (add_mset c L) p' \<and> mset (idle p) = add_mset c (mset (idle p'))"
    and release: "ok (add_mset c L) p \<Longrightarrow> ok L (release c p) \<and> mset (idle (release c p)) = add_mset c (mset (idle p))"
begin

lemma run_conserves:
  "ok (mset lent) p \<Longrightarrow> client_run acquire release ops lent p = (lent', p') \<Longrightarrow>
     ok (mset lent') p' \<and> mset lent' + mset (idle p') = mset lent + mset (idle p)"
proof (induction ops arbitrary: lent p)
  case (Cons a ops)
  show ?case
  proof (cases a)
    case Take
    obtain r p1 where r: "acquire p = (r, p1)" by fastforce
    then show ?thesis
      using Cons.IH [of lent p1] Cons.IH [of "lent @ [the r]" p1] Cons.prems Take
        acquire_None [OF Cons.prems(1)] acquire_Some [OF Cons.prems(1)] by (cases r) auto
  next
    case (Give k)
    show ?thesis
    proof (cases "k < length lent")
      case True
      let ?rest = "take k lent @ drop (Suc k) lent"
      have "mset lent = add_mset (lent ! k) (mset ?rest)"
        using arg_cong [OF id_take_nth_drop [OF True], of mset] by simp
      then show ?thesis
        using Cons.IH [of ?rest "release (lent ! k) p"] Cons.prems Give True release [of "lent ! k" "mset ?rest" p] by simp
    next
      case False
      then show ?thesis using Cons Give by simp
    qed
  qed
qed simp

lemma run_exclusive:
  assumes "ok {#} p" "client_run acquire release ops [] p = (lent, p')" "distinct (idle p)"
  shows "distinct (lent @ idle p')"
proof -
  have "mset (lent @ idle p') = mset (idle p)" using run_conserves [of "[]" p ops lent p'] assms(1,2) by simp
  then show ?thesis using assms(3) by (metis mset_eq_imp_distinct_iff)
qed

end

section \<open>The pool of the older server\<close>

text \<open>
  Where a thread is: outside, past the test for an empty queue, past the semaphore, holding what
  it got (which may be a null pointer, pushed for a connection that failed), or still in
  \<open>FreeConn\<close>, with the mutex, between the push and the \<open>sem_post\<close>.
\<close>

datatype 'c sql_pc = Outside | Tested | Entered | Has "'c option" | Posting

record 'c SqlConnPool =
  connQue :: "'c option list"
  semId :: nat
  MAX_CONN :: int
  threads :: "'c sql_pc list"

text \<open>The loop of \<open>Init\<close>, with the outcomes of \<open>mysql_init\<close> and \<open>mysql_real_connect\<close>.\<close>

fun connect_all :: "(bool \<times> 'c option) list \<Rightarrow> 'c option list res" where
  "connect_all [] = Inr []"
| "connect_all ((inited, conn) # rs) =
     bind_res (assert_res inited) (\<lambda>_. bind_res (connect_all rs) (\<lambda>q. Inr (conn # q)))"

definition SqlConnPool_Init :: "(nat \<Rightarrow> bool \<times> 'c option) \<Rightarrow> int \<Rightarrow> nat \<Rightarrow> 'c SqlConnPool res" where
  "SqlConnPool_Init outcome connSize nthreads =
     bind_res (assert_res (connSize > 0)) (\<lambda>_.
       bind_res (connect_all (map outcome [0..<nat connSize]))
         (\<lambda>q. Inr \<lparr>connQue = q, semId = nat connSize, MAX_CONN = connSize, threads = replicate nthreads Outside\<rparr>))"

definition mutex_free :: "'c SqlConnPool \<Rightarrow> bool" where
  "mutex_free p = (Posting \<notin> set (threads p))"

text \<open>The next step of a call of \<open>GetConn\<close> by thread \<open>i\<close>; \<open>None\<close> when it has to wait.\<close>

definition GetConn :: "nat \<Rightarrow> 'c SqlConnPool \<Rightarrow> 'c SqlConnPool res option" where
  "GetConn i p =
     (case threads p ! i of
        Outside \<Rightarrow> Some (Inr (p\<lparr>threads := (threads p)[i := if connQue p = [] then Outside else Tested]\<rparr>))
      | Tested \<Rightarrow> if semId p = 0 then None
                  else Some (Inr (p\<lparr>semId := semId p - 1, threads := (threads p)[i := Entered]\<rparr>))
      | Entered \<Rightarrow> if \<not> mutex_free p then None
                   else (case connQue p of
                           [] \<Rightarrow> Some (Inl Undefined_Behaviour)
                         | sql # q \<Rightarrow> Some (Inr (p\<lparr>connQue := q, threads := (threads p)[i := Has sql]\<rparr>)))
      | _ \<Rightarrow> None)"

definition FreeConn :: "nat \<Rightarrow> 'c SqlConnPool \<Rightarrow> 'c SqlConnPool res option" where
  "FreeConn i p =
     (case threads p ! i of
        Has None \<Rightarrow> Some (Inl Assertion_Failure)
      | Has (Some c) \<Rightarrow> if \<not> mutex_free p then None
                        else Some (Inr (p\<lparr>connQue := connQue p @ [Some c], threads := (threads p)[i := Posting]\<rparr>))
      | Posting \<Rightarrow> Some (Inr (p\<lparr>semId := semId p + 1, threads := (threads p)[i := Outside]\<rparr>))
      | _ \<Rightarrow> None)"

text \<open>The destructor of \<open>SqlConnRAII\<close>: a null pointer is not given back.\<close>

definition SqlConnRAII_destroy :: "nat \<Rightarrow> 'c SqlConnPool \<Rightarrow> 'c SqlConnPool res option" where
  "SqlConnRAII_destroy i p =
     (case threads p ! i of
        Has None \<Rightarrow> Some (Inr (p\<lparr>threads := (threads p)[i := Outside]\<rparr>))
      | _ \<Rightarrow> FreeConn i p)"

definition GetFreeConnCount :: "'c SqlConnPool \<Rightarrow> nat" where
  "GetFreeConnCount p = length (connQue p)"

definition ClosePool :: "'c SqlConnPool \<Rightarrow> 'c option list \<times> 'c SqlConnPool" where
  "ClosePool p = (connQue p, p\<lparr>connQue := []\<rparr>)"

text \<open>The runs of threads that use the pool through \<open>SqlConnRAII\<close>.\<close>

inductive sql_reach :: "'c SqlConnPool \<Rightarrow> 'c SqlConnPool \<Rightarrow> bool" for p0 where
  start: "sql_reach p0 p0"
| get: "sql_reach p0 p \<Longrightarrow> i < length (threads p) \<Longrightarrow> GetConn i p = Some (Inr p') \<Longrightarrow> sql_reach p0 p'"
| put: "sql_reach p0 p \<Longrightarrow> i < length (threads p) \<Longrightarrow> SqlConnRAII_destroy i p = Some (Inr p') \<Longrightarrow> sql_reach p0 p'"

definition count_pc :: "'c sql_pc \<Rightarrow> 'c SqlConnPool \<Rightarrow> nat" where
  "count_pc pc p = count (mset (threads p)) pc"

fun held_conn :: "'c sql_pc \<Rightarrow> 'c list" where
  "held_conn (Has (Some c)) = [c]"
| "held_conn _ = []"

fun real_conn :: "'c option \<Rightarrow> 'c list" where
  "real_conn (Some c) = [c]"
| "real_conn None = []"

definition all_conns :: "'c SqlConnPool \<Rightarrow> 'c multiset" where
  "all_conns p = mset (concat (map real_conn (connQue p))) + mset (concat (map held_conn (threads p)))"

lemma concat_map_update:
  assumes "i < length xs"
  shows "mset (concat (map f (xs[i := x]))) + mset (f (xs ! i)) = mset (concat (map f xs)) + mset (f x)"
  using arg_cong [OF id_take_nth_drop [OF assms], of "\<lambda>ys. mset (concat (map f ys))"]
  by (simp add: upd_conv_take_nth_drop [OF assms] ac_simps)

lemma count_update:
  assumes "i < length xs"
  shows "count (mset (xs[i := x])) a + (if xs ! i = a then 1 else 0) = count (mset xs) a + (if x = a then 1 else 0)"
proof -
  have "0 < count (mset xs) (xs ! i)" using assms by simp
  then show ?thesis using assms by (auto simp: mset_update)
qed

text \<open>
  The queue is as long as the semaphore says, counting the threads that passed the one and have
  not reached the other.
\<close>

definition sql_inv :: "'c SqlConnPool \<Rightarrow> bool" where
  "sql_inv p \<longleftrightarrow> length (connQue p) = semId p + count (mset (threads p)) Entered + count (mset (threads p)) Posting"

lemma sql_inv_entered:
  assumes "sql_inv p" "i < length (threads p)" "threads p ! i = Entered"
  shows "connQue p \<noteq> []"
proof -
  have "Entered \<in> set (threads p)" using assms(2,3) by (metis nth_mem)
  then have "0 < count (mset (threads p)) Entered" by simp
  then show ?thesis using assms(1) by (auto simp: sql_inv_def)
qed

lemma GetConn_step:
  assumes "sql_inv p" "i < length (threads p)" "GetConn i p = Some r"
  shows "\<exists>p'. r = Inr p' \<and> sql_inv p' \<and> all_conns p' = all_conns p \<and> length (threads p') = length (threads p)"
proof (cases "threads p ! i")
  case Entered
  then obtain sql q where q: "connQue p = sql # q" using sql_inv_entered [OF assms(1,2)] by (cases "connQue p") auto
  then have r: "r = Inr (p\<lparr>connQue := q, threads := (threads p)[i := Has sql]\<rparr>)"
    using assms(3) Entered by (auto simp: GetConn_def split: if_splits)
  have "held_conn (Has sql) = real_conn sql" by (cases sql) auto
  then show ?thesis
    using r q assms(1) Entered count_update [OF assms(2), of "Has sql" Entered] count_update [OF assms(2), of "Has sql" Posting]
      concat_map_update [OF assms(2), of held_conn "Has sql"]
    by (simp add: sql_inv_def all_conns_def)
next
  case Outside
  let ?pc = "if connQue p = [] then Outside else Tested"
  show ?thesis
    using assms(1,3) Outside count_update [OF assms(2), of ?pc Entered] count_update [OF assms(2), of ?pc Posting]
      concat_map_update [OF assms(2), of held_conn ?pc]
    by (auto simp: GetConn_def sql_inv_def all_conns_def split: if_splits)
next
  case Tested
  show ?thesis
    using assms(1,3) Tested count_update [OF assms(2), of Entered Entered] count_update [OF assms(2), of Entered Posting]
      concat_map_update [OF assms(2), of held_conn Entered]
    by (auto simp: GetConn_def sql_inv_def all_conns_def split: if_splits)
qed (use assms(3) in \<open>simp_all add: GetConn_def\<close>)

lemma RAII_step:
  assumes "sql_inv p" "i < length (threads p)" "SqlConnRAII_destroy i p = Some r"
  shows "\<exists>p'. r = Inr p' \<and> sql_inv p' \<and> all_conns p' = all_conns p \<and> length (threads p') = length (threads p)"
proof (cases "threads p ! i")
  case (Has sql)
  show ?thesis
  proof (cases sql)
    case None
    then show ?thesis
      using assms(1,3) Has count_update [OF assms(2), of Outside Entered] count_update [OF assms(2), of Outside Posting]
        concat_map_update [OF assms(2), of held_conn Outside]
      by (auto simp: SqlConnRAII_destroy_def sql_inv_def all_conns_def)
  next
    case (Some c)
    then show ?thesis
      using assms(1,3) Has count_update [OF assms(2), of Posting Entered] count_update [OF assms(2), of Posting Posting]
        concat_map_update [OF assms(2), of held_conn Posting]
      by (auto simp: SqlConnRAII_destroy_def FreeConn_def sql_inv_def all_conns_def split: if_splits)
  qed
next
  case Posting
  then show ?thesis
    using assms(1,3) count_update [OF assms(2), of Outside Entered] count_update [OF assms(2), of Outside Posting]
      concat_map_update [OF assms(2), of held_conn Outside]
    by (auto simp: SqlConnRAII_destroy_def FreeConn_def sql_inv_def all_conns_def)
qed (use assms(3) in \<open>simp_all add: SqlConnRAII_destroy_def FreeConn_def\<close>)

lemma sql_reach_inv:
  assumes "sql_reach p0 p" "sql_inv p0"
  shows "sql_inv p \<and> all_conns p = all_conns p0"
  using assms(1)
proof (induction rule: sql_reach.induct)
  case (get p i p')
  then show ?case using GetConn_step [of p i "Inr p'"] by auto
next
  case (put p i p')
  then show ?case using RAII_step [of p i "Inr p'"] by auto
qed (use assms(2) in simp)

lemma connect_all_length: "connect_all rs = Inr q \<Longrightarrow> q = map snd rs"
  by (induction rs arbitrary: q) (auto simp: bind_res_Inr_iff)

lemma Init_inv:
  assumes "SqlConnPool_Init outcome connSize nthreads = Inr p0"
  shows "sql_inv p0" "connQue p0 = map (snd \<circ> outcome) [0..<nat connSize]" "threads p0 = replicate nthreads Outside"
  using assms connect_all_length by (fastforce simp: SqlConnPool_Init_def bind_res_Inr_iff sql_inv_def)+



section \<open>Connections of the framework\<close>

text \<open>
  The database library: connecting, and the calls on a connection and on the statements made from
  it. A call returns a result or throws an \<open>sql::SQLException\<close>, and may change the connection.
\<close>

datatype sql_call =
    Set_Schema string
  | Set_Option string string
  | Create_Statement
  | Execute string
  | Execute_Query string
  | Prepare string
  | Set_String nat string
  | Run_Query
  | Run_Update
  | Reconnect
  | Get_Auto_Commit
  | Rollback
  | Set_Auto_Commit bool
  | Get_More_Results
  | Get_Result_Set
  | Next_Row

record ('o, 'r) sql_driver =
  drv_connect :: "string \<Rightarrow> string \<Rightarrow> string \<Rightarrow> string + 'o option"
  drv_call :: "sql_call \<Rightarrow> 'o \<Rightarrow> (string + 'r) \<times> 'o"

fun run_calls :: "('o, 'r) sql_driver \<Rightarrow> sql_call list \<Rightarrow> 'o \<Rightarrow> (string + 'r list) \<times> 'o" where
  "run_calls D [] obj = (Inr [], obj)"
| "run_calls D (c # cs) obj =
     (case drv_call D c obj of
        (Inl e, obj1) \<Rightarrow> (Inl e, obj1)
      | (Inr r, obj1) \<Rightarrow>
          (case run_calls D cs obj1 of (Inl e, obj2) \<Rightarrow> (Inl e, obj2) | (Inr rs, obj2) \<Rightarrow> (Inr (r # rs), obj2)))"

declare run_calls.simps [simp del]

record 'o DbConnection =
  db_conn :: "'o option"
  db_host :: string
  db_user :: string
  db_password :: string
  db_database :: string

definition DbException :: "string \<Rightarrow> fault" where
  "DbException message = Exception (Runtime_Error message)"

definition DbConnection_new :: "('o, 'r) sql_driver \<Rightarrow> string \<Rightarrow> string \<Rightarrow> string \<Rightarrow> string \<Rightarrow> 'o DbConnection res" where
  "DbConnection_new D host user password database =
     (let c = \<lparr>db_conn = None, db_host = host, db_user = user, db_password = password, db_database = database\<rparr> in
      case drv_connect D host user password of
        Inl e \<Rightarrow> Inl (DbException e)
      | Inr None \<Rightarrow> Inr c
      | Inr (Some obj) \<Rightarrow>
          (case run_calls D [Set_Schema database, Set_Option ''OPT_RECONNECT'' ''true'', Set_Option ''OPT_CONNECT_TIMEOUT'' ''10'',
                   Set_Option ''multi_statements'' ''false'', Create_Statement, Execute ''SET NAMES utf8mb4''] obj of
             (Inl e, _) \<Rightarrow> Inl (DbException e)
           | (Inr _, obj') \<Rightarrow> Inr (c\<lparr>db_conn := Some obj'\<rparr>)))"

definition ping :: "('o, 'r) sql_driver \<Rightarrow> 'o DbConnection \<Rightarrow> bool res \<times> 'o DbConnection" where
  "ping D c =
     (case db_conn c of
        None \<Rightarrow> (Inl Undefined_Behaviour, c)
      | Some obj \<Rightarrow>
          (case run_calls D [Create_Statement, Execute_Query ''SELECT 1''] obj of
             (r, obj') \<Rightarrow> (Inr (\<not> isl r), c\<lparr>db_conn := Some obj'\<rparr>)))"

definition isValid :: "('o, 'r) sql_driver \<Rightarrow> 'o DbConnection \<Rightarrow> bool \<times> 'o DbConnection" where
  "isValid D c =
     (case db_conn c of
        None \<Rightarrow> (False, c)
      | Some obj \<Rightarrow>
          (case run_calls D [Create_Statement, Execute ''SELECT 1''] obj of
             (r, obj') \<Rightarrow> (\<not> isl r, c\<lparr>db_conn := Some obj'\<rparr>)))"

definition reconnect :: "('o, 'r) sql_driver \<Rightarrow> 'o DbConnection \<Rightarrow> fault option \<times> 'o DbConnection" where
  "reconnect D c =
     (case db_conn c of
        Some obj \<Rightarrow>
          (case drv_call D Reconnect obj of
             (Inl e, obj') \<Rightarrow> (Some (DbException e), c\<lparr>db_conn := Some obj'\<rparr>)
           | (Inr _, obj') \<Rightarrow> (None, c\<lparr>db_conn := Some obj'\<rparr>))
      | None \<Rightarrow>
          (case drv_connect D (db_host c) (db_user c) (db_password c) of
             Inl e \<Rightarrow> (Some (DbException e), c)
           | Inr None \<Rightarrow> (Some Undefined_Behaviour, c)
           | Inr (Some obj) \<Rightarrow>
               (case drv_call D (Set_Schema (db_database c)) obj of
                  (Inl e, obj') \<Rightarrow> (Some (DbException e), c\<lparr>db_conn := Some obj'\<rparr>)
                | (Inr _, obj') \<Rightarrow> (None, c\<lparr>db_conn := Some obj'\<rparr>))))"

text \<open>
  \<open>cleanup\<close>, which the destructor calls: \<open>holds\<close> tells whether a result is \<open>true\<close> or not null. The loops go on as long as the library has
  results; an exception leads to one attempt to reconnect, whose own exceptions are dropped.
\<close>

partial_function (option) next_rows :: "('o, 'r) sql_driver \<Rightarrow> ('r \<Rightarrow> bool) \<Rightarrow> 'o \<Rightarrow> ((string + unit) \<times> 'o) option" where
  "next_rows D holds obj =
     (case drv_call D Next_Row obj of
        (Inl e, obj1) \<Rightarrow> Some (Inl e, obj1)
      | (Inr r, obj1) \<Rightarrow> if holds r then next_rows D holds obj1 else Some (Inr (), obj1))"

partial_function (option) more_results :: "('o, 'r) sql_driver \<Rightarrow> ('r \<Rightarrow> bool) \<Rightarrow> 'o \<Rightarrow> ((string + unit) \<times> 'o) option" where
  "more_results D holds obj =
     (case drv_call D Get_More_Results obj of
        (Inl e, obj1) \<Rightarrow> Some (Inl e, obj1)
      | (Inr r, obj1) \<Rightarrow>
          if \<not> holds r then Some (Inr (), obj1)
          else (case drv_call D Get_Result_Set obj1 of
                  (Inl e, obj2) \<Rightarrow> Some (Inl e, obj2)
                | (Inr rs, obj2) \<Rightarrow>
                    (case if holds rs then next_rows D holds obj2 else Some (Inr (), obj2) of
                       None \<Rightarrow> None
                     | Some (Inl e, obj3) \<Rightarrow> Some (Inl e, obj3)
                     | Some (Inr _, obj3) \<Rightarrow> more_results D holds obj3)))"

definition end_transaction :: "('o, 'r) sql_driver \<Rightarrow> ('r \<Rightarrow> bool) \<Rightarrow> 'o \<Rightarrow> (string + unit) \<times> 'o" where
  "end_transaction D holds obj =
     (case drv_call D Get_Auto_Commit obj of
        (Inl e, obj1) \<Rightarrow> (Inl e, obj1)
      | (Inr r, obj1) \<Rightarrow>
          if holds r then (Inr (), obj1)
          else (case run_calls D [Rollback, Set_Auto_Commit True] obj1 of (Inl e, obj2) \<Rightarrow> (Inl e, obj2) | (Inr _, obj2) \<Rightarrow> (Inr (), obj2)))"

definition cleanup_calls :: "('o, 'r) sql_driver \<Rightarrow> ('r \<Rightarrow> bool) \<Rightarrow> 'o \<Rightarrow> ((string + unit) \<times> 'o) option" where
  "cleanup_calls D holds obj =
     (case end_transaction D holds obj of
        (Inl e, obj1) \<Rightarrow> Some (Inl e, obj1)
      | (Inr _, obj1) \<Rightarrow>
          (case drv_call D Create_Statement obj1 of
             (Inl e, obj2) \<Rightarrow> Some (Inl e, obj2)
           | (Inr _, obj2) \<Rightarrow> more_results D holds obj2))"

definition cleanup :: "('o, 'r) sql_driver \<Rightarrow> ('r \<Rightarrow> bool) \<Rightarrow> 'o DbConnection \<Rightarrow> 'o DbConnection option" where
  "cleanup D holds c =
     (case db_conn c of
        None \<Rightarrow> Some c
      | Some obj \<Rightarrow>
          (case cleanup_calls D holds obj of
             None \<Rightarrow> None
           | Some (Inr _, obj') \<Rightarrow> Some (c\<lparr>db_conn := Some obj'\<rparr>)
           | Some (Inl _, obj') \<Rightarrow> Some (snd (reconnect D (c\<lparr>db_conn := Some obj'\<rparr>)))))"

text \<open>With a library that has finitely many rows and results, \<open>cleanup\<close> returns, and it keeps the connection object.\<close>

definition finite_results :: "('o, 'r) sql_driver \<Rightarrow> ('r \<Rightarrow> bool) \<Rightarrow> ('o \<Rightarrow> nat) \<Rightarrow> bool" where
  "finite_results D holds rows \<longleftrightarrow>
     (\<forall>obj r obj'. drv_call D Next_Row obj = (Inr r, obj') \<longrightarrow> rows obj' < rows obj \<or> \<not> holds r \<and> rows obj' \<le> rows obj)
     \<and> (\<forall>obj r obj'. drv_call D Get_More_Results obj = (Inr r, obj') \<longrightarrow> holds r \<longrightarrow> rows obj' < rows obj)
     \<and> (\<forall>obj r obj'. drv_call D Get_Result_Set obj = (Inr r, obj') \<longrightarrow> rows obj' \<le> rows obj)"

lemma finite_resultsD:
  assumes "finite_results D holds rows"
  shows "drv_call D Next_Row obj = (Inr r, obj') \<Longrightarrow> rows obj' \<le> rows obj"
    "drv_call D Next_Row obj = (Inr r, obj') \<Longrightarrow> holds r \<Longrightarrow> rows obj' < rows obj"
    "drv_call D Get_More_Results obj = (Inr r, obj') \<Longrightarrow> holds r \<Longrightarrow> rows obj' < rows obj"
    "drv_call D Get_Result_Set obj = (Inr r, obj') \<Longrightarrow> rows obj' \<le> rows obj"
  using assms unfolding finite_results_def by (metis less_imp_le, metis, metis, metis)

lemma next_rows_returns:
  assumes "finite_results D holds rows"
  shows "\<exists>r obj'. next_rows D holds obj = Some (r, obj') \<and> (r = Inr () \<longrightarrow> rows obj' \<le> rows obj)"
proof (induction "rows obj" arbitrary: obj rule: less_induct)
  case less
  show ?case
  proof (cases "drv_call D Next_Row obj")
    case (Pair r obj1)
    show ?thesis
    proof (cases r)
      case (Inl e)
      then show ?thesis using Pair by (subst next_rows.simps) simp
    next
      case (Inr x)
      show ?thesis
      proof (cases "holds x")
        case True
        then have "rows obj1 < rows obj" using finite_resultsD(2) [OF assms] Pair Inr by blast
        with less [OF this] show ?thesis using Pair Inr True by (subst next_rows.simps) fastforce
      next
        case False
        then show ?thesis using Pair Inr finite_resultsD(1) [OF assms] by (subst next_rows.simps) simp
      qed
    qed
  qed
qed

lemma more_results_returns:
  assumes "finite_results D holds rows"
  shows "\<exists>r. more_results D holds obj = Some r"
proof (induction "rows obj" arbitrary: obj rule: less_induct)
  case less
  obtain r obj1 where 1: "drv_call D Get_More_Results obj = (r, obj1)" by force
  show ?case
  proof (cases "\<exists>x. r = Inr x \<and> holds x")
    case False
    then show ?thesis using 1 by (subst more_results.simps) (auto split: sum.split)
  next
    case True
    then obtain x where x: "r = Inr x" "holds x" by blast
    then have lt: "rows obj1 < rows obj" using finite_resultsD(3) [OF assms] 1 by blast
    obtain r2 obj2 where 2: "drv_call D Get_Result_Set obj1 = (r2, obj2)" by force
    show ?thesis
    proof (cases r2)
      case (Inl e)
      then show ?thesis using 1 2 x by (subst more_results.simps) simp
    next
      case (Inr rs)
      have le: "rows obj2 \<le> rows obj1" using finite_resultsD(4) [OF assms] 2 Inr by blast
      obtain r3 obj3 where 3: "(if holds rs then next_rows D holds obj2 else Some (Inr (), obj2)) = Some (r3, obj3)" "r3 = Inr () \<longrightarrow> rows obj3 \<le> rows obj2"
        using next_rows_returns [OF assms, of obj2] by (cases "holds rs") auto
      have "more_results D holds obj = (case r3 of Inl e \<Rightarrow> Some (Inl e, obj3) | Inr _ \<Rightarrow> more_results D holds obj3)"
        using 1 2 x Inr 3(1) by (subst more_results.simps) (simp split: sum.split)
      then show ?thesis using less [of obj3] 3(2) le lt by (cases r3) auto
    qed
  qed
qed

lemma cleanup_returns:
  assumes "finite_results D holds rows" "db_conn c \<noteq> None"
  shows "\<exists>c'. cleanup D holds c = Some c' \<and> db_conn c' \<noteq> None"
proof -
  obtain obj where obj: "db_conn c = Some obj" using assms(2) by blast
  have "\<exists>x. cleanup_calls D holds obj = Some x"
    using more_results_returns [OF assms(1)] by (auto simp: cleanup_calls_def split: prod.splits sum.splits)
  then obtain r obj' where "cleanup_calls D holds obj = Some (r, obj')" by (metis prod.exhaust)
  then show ?thesis using obj by (cases r) (auto simp: cleanup_def reconnect_def split: prod.splits sum.splits)
qed

datatype sql_param = Number int | Text string

fun bindParams :: "nat \<Rightarrow> sql_param list \<Rightarrow> sql_call list" where
  "bindParams index [] = []"
| "bindParams index (Number n # args) = Set_String index (string_of_int n) # bindParams (index + 1) args"
| "bindParams index (Text s # args) = Set_String index s # bindParams (index + 1) args"

text \<open>\<open>executeQuery\<close> and \<open>executeUpdate\<close> differ in the last call only.\<close>

definition execute_with :: "sql_call \<Rightarrow> ('o, 'r) sql_driver \<Rightarrow> string \<Rightarrow> sql_param list \<Rightarrow> 'o DbConnection \<Rightarrow> 'r res \<times> 'o DbConnection" where
  "execute_with final D sql args c =
     (case db_conn c of
        None \<Rightarrow> (Inl Undefined_Behaviour, c)
      | Some obj \<Rightarrow>
          (case run_calls D ([Prepare sql] @ bindParams 1 args @ [final]) obj of
             (Inl e, obj') \<Rightarrow> (Inl (DbException e), c\<lparr>db_conn := Some obj'\<rparr>)
           | (Inr rs, obj') \<Rightarrow> (Inr (last rs), c\<lparr>db_conn := Some obj'\<rparr>)))"

definition db_executeQuery :: "('o, 'r) sql_driver \<Rightarrow> string \<Rightarrow> sql_param list \<Rightarrow> 'o DbConnection \<Rightarrow> 'r res \<times> 'o DbConnection" where
  "db_executeQuery = execute_with Run_Query"

definition db_executeUpdate :: "('o, 'r) sql_driver \<Rightarrow> string \<Rightarrow> sql_param list \<Rightarrow> 'o DbConnection \<Rightarrow> 'r res \<times> 'o DbConnection" where
  "db_executeUpdate = execute_with Run_Update"

section \<open>The pool of the framework\<close>

record 'o DbConnectionPool =
  pool_heap :: "'o DbConnection list"
  connections :: "nat list"
  initialized :: bool
  pool_host :: string
  pool_user :: string
  pool_password :: string
  pool_database :: string

definition DbConnectionPool_new :: "'o DbConnectionPool" where
  "DbConnectionPool_new =
     \<lparr>pool_heap = [], connections = [], initialized = False, pool_host = [], pool_user = [], pool_password = [], pool_database = []\<rparr>"

definition createConnection :: "('o, 'r) sql_driver \<Rightarrow> 'o DbConnectionPool \<Rightarrow> 'o DbConnection res" where
  "createConnection D p = DbConnection_new D (pool_host p) (pool_user p) (pool_password p) (pool_database p)"

fun create_loop :: "('o, 'r) sql_driver \<Rightarrow> nat \<Rightarrow> 'o DbConnectionPool \<Rightarrow> fault option \<times> 'o DbConnectionPool" where
  "create_loop D 0 p = (None, p)"
| "create_loop D (Suc n) p =
     (case createConnection D p of
        Inl e \<Rightarrow> (Some e, p)
      | Inr c \<Rightarrow> create_loop D n (p\<lparr>pool_heap := pool_heap p @ [c], connections := connections p @ [length (pool_heap p)]\<rparr>))"

definition db_init :: "('o, 'r) sql_driver \<Rightarrow> string \<Rightarrow> string \<Rightarrow> string \<Rightarrow> string \<Rightarrow> nat \<Rightarrow> 'o DbConnectionPool
                       \<Rightarrow> fault option \<times> 'o DbConnectionPool" where
  "db_init D host user password database poolSize p =
     (if initialized p then (None, p)
      else (case create_loop D poolSize
                   (p\<lparr>pool_host := host, pool_user := user, pool_password := password, pool_database := database\<rparr>) of
              (Some e, p') \<Rightarrow> (Some e, p')
            | (None, p') \<Rightarrow> (None, p'\<lparr>initialized := True\<rparr>)))"

definition upd_conn :: "nat \<Rightarrow> 'o DbConnection \<Rightarrow> 'o DbConnectionPool \<Rightarrow> 'o DbConnectionPool" where
  "upd_conn a c p = p\<lparr>pool_heap := (pool_heap p)[a := c]\<rparr>"

text \<open>The deleter of the pointer a client holds, and the end of the \<open>catch\<close> clause.\<close>

definition release_conn :: "nat \<Rightarrow> 'o DbConnectionPool \<Rightarrow> 'o DbConnectionPool" where
  "release_conn a p = p\<lparr>connections := connections p @ [a]\<rparr>"

text \<open>\<open>None\<close> is a wait for a connection to come back.\<close>

definition getConnection :: "('o, 'r) sql_driver \<Rightarrow> 'o DbConnectionPool \<Rightarrow> (nat res \<times> 'o DbConnectionPool) option" where
  "getConnection D p =
     (case connections p of
        [] \<Rightarrow> if \<not> initialized p then Some (Inl (DbException ''Connection pool not initialized''), p) else None
      | a # q \<Rightarrow>
          (let p1 = p\<lparr>connections := q\<rparr> in
           case ping D (pool_heap p1 ! a) of
             (Inl f, c) \<Rightarrow> Some (Inl f, upd_conn a c p1)
           | (Inr True, c) \<Rightarrow> Some (Inr a, upd_conn a c p1)
           | (Inr False, c) \<Rightarrow>
               (case reconnect D c of
                  (None, c') \<Rightarrow> Some (Inr a, upd_conn a c' p1)
                | (Some (Exception e), c') \<Rightarrow> Some (Inl (Exception e), release_conn a (upd_conn a c' p1))
                | (Some f, c') \<Rightarrow> Some (Inl f, upd_conn a c' p1))))"

text \<open>One round of the checking thread over the connections it found in the queue.\<close>

fun check_conns :: "('o, 'r) sql_driver \<Rightarrow> nat list \<Rightarrow> 'o DbConnectionPool \<Rightarrow> 'o DbConnectionPool res" where
  "check_conns D [] p = Inr p"
| "check_conns D (a # as) p =
     (case ping D (pool_heap p ! a) of
        (Inl f, c) \<Rightarrow> Inl f
      | (Inr True, c) \<Rightarrow> check_conns D as (upd_conn a c p)
      | (Inr False, c) \<Rightarrow>
          (case reconnect D c of
             (Some Undefined_Behaviour, c') \<Rightarrow> Inl Undefined_Behaviour
           | (_, c') \<Rightarrow> check_conns D as (upd_conn a c' p)))"

definition checkConnections :: "('o, 'r) sql_driver \<Rightarrow> 'o DbConnectionPool \<Rightarrow> 'o DbConnectionPool res" where
  "checkConnections D p = check_conns D (connections p) p"

text \<open>\<open>MysqlUtil\<close>: the connection is held for one statement.\<close>

definition mysql_execute ::
  "('o DbConnection \<Rightarrow> 'r res \<times> 'o DbConnection) \<Rightarrow> ('o, 'r) sql_driver \<Rightarrow> 'o DbConnectionPool \<Rightarrow> ('r res \<times> 'o DbConnectionPool) option" where
  "mysql_execute run D p =
     (case getConnection D p of
        None \<Rightarrow> None
      | Some (Inl f, p1) \<Rightarrow> Some (Inl f, p1)
      | Some (Inr a, p1) \<Rightarrow> (case run (pool_heap p1 ! a) of (r, c) \<Rightarrow> Some (r, release_conn a (upd_conn a c p1))))"

definition mysql_executeQuery :: "('o, 'r) sql_driver \<Rightarrow> string \<Rightarrow> sql_param list \<Rightarrow> 'o DbConnectionPool \<Rightarrow> ('r res \<times> 'o DbConnectionPool) option" where
  "mysql_executeQuery D sql args = mysql_execute (db_executeQuery D sql args) D"

definition mysql_executeUpdate :: "('o, 'r) sql_driver \<Rightarrow> string \<Rightarrow> sql_param list \<Rightarrow> 'o DbConnectionPool \<Rightarrow> ('r res \<times> 'o DbConnectionPool) option" where
  "mysql_executeUpdate D sql args = mysql_execute (db_executeUpdate D sql args) D"

section \<open>Connections are neither lost nor shared\<close>

definition acquire_conn :: "('o, 'r) sql_driver \<Rightarrow> 'o DbConnectionPool \<Rightarrow> nat option \<times> 'o DbConnectionPool" where
  "acquire_conn D p =
     (case getConnection D p of None \<Rightarrow> (None, p) | Some (Inl _, p') \<Rightarrow> (None, p') | Some (Inr a, p') \<Rightarrow> (Some a, p'))"

definition conns_ok :: "nat multiset \<Rightarrow> 'o DbConnectionPool \<Rightarrow> bool" where
  "conns_ok L p \<longleftrightarrow> (\<forall>a \<in># L + mset (connections p). a < length (pool_heap p) \<and> db_conn (pool_heap p ! a) \<noteq> None)"

lemma ping_ok:
  assumes "db_conn c \<noteq> None"
  obtains b c' where "ping D c = (Inr b, c')" "db_conn c' \<noteq> None"
proof -
  obtain obj where obj: "db_conn c = Some obj" using assms by blast
  obtain r obj' where "run_calls D [Create_Statement, Execute_Query ''SELECT 1''] obj = (r, obj')" by fastforce
  then show ?thesis using that obj by (simp add: ping_def)
qed

lemma reconnect_ok:
  assumes "db_conn c \<noteq> None"
  obtains f c' where "reconnect D c = (f, c')" "db_conn c' \<noteq> None" "f = None \<or> (\<exists>e. f = Some (Exception e))"
proof -
  obtain obj where obj: "db_conn c = Some obj" using assms by blast
  obtain r obj' where "drv_call D Reconnect obj = (r, obj')" by fastforce
  then show ?thesis using that obj by (cases r) (auto simp: reconnect_def DbException_def)
qed

lemma getConnection_ok:
  assumes "conns_ok L p" "connections p = a # q"
  obtains c where "db_conn c \<noteq> None"
    "getConnection D p = Some (Inr a, upd_conn a c (p\<lparr>connections := q\<rparr>))
     \<or> (\<exists>e. getConnection D p = Some (Inl (Exception e), release_conn a (upd_conn a c (p\<lparr>connections := q\<rparr>))))"
proof -
  have "db_conn (pool_heap p ! a) \<noteq> None" using assms by (auto simp: conns_ok_def)
  then obtain b c where c: "ping D (pool_heap p ! a) = (Inr b, c)" "db_conn c \<noteq> None" by (rule ping_ok)
  obtain f c' where c': "reconnect D c = (f, c')" "db_conn c' \<noteq> None" "f = None \<or> (\<exists>e. f = Some (Exception e))"
    using reconnect_ok [OF c(2)] by blast
  show ?thesis
  proof (cases b)
    case True
    then show ?thesis using that [of c] c assms(2) by (simp add: getConnection_def)
  next
    case False
    then show ?thesis using that [of c'] c c' assms(2) by (auto simp: getConnection_def)
  qed
qed

lemma conns_ok_move:
  assumes "conns_ok L p" "connections p = a # q" "db_conn c \<noteq> None"
  shows "conns_ok (add_mset a L) (upd_conn a c (p\<lparr>connections := q\<rparr>))"
    and "conns_ok L (release_conn a (upd_conn a c (p\<lparr>connections := q\<rparr>)))"
  using assms by (auto simp: conns_ok_def upd_conn_def release_conn_def nth_list_update)

interpretation db_pool: resource_pool "acquire_conn D" release_conn connections conns_ok for D
proof
  fix L and p p' :: "'a DbConnectionPool" and c
  assume ok: "conns_ok L p"
  show "conns_ok L p' \<and> mset (connections p') = mset (connections p)" if "acquire_conn D p = (None, p')"
  proof (cases "connections p")
    case Nil
    then show ?thesis using that ok by (auto simp: acquire_conn_def getConnection_def split: if_splits)
  next
    case (Cons a q)
    obtain c1 where "db_conn c1 \<noteq> None" "getConnection D p = Some (Inr a, upd_conn a c1 (p\<lparr>connections := q\<rparr>))
        \<or> (\<exists>e. getConnection D p = Some (Inl (Exception e), release_conn a (upd_conn a c1 (p\<lparr>connections := q\<rparr>))))"
      using getConnection_ok [OF ok Cons] by metis
    then show ?thesis
      using that conns_ok_move(2) [OF ok Cons] Cons by (auto simp: acquire_conn_def release_conn_def upd_conn_def)
  qed
  show "conns_ok (add_mset c L) p' \<and> mset (connections p) = add_mset c (mset (connections p'))"
    if "acquire_conn D p = (Some c, p')"
  proof (cases "connections p")
    case Nil
    then show ?thesis using that by (auto simp: acquire_conn_def getConnection_def split: if_splits)
  next
    case (Cons a q)
    obtain c1 where "db_conn c1 \<noteq> None" "getConnection D p = Some (Inr a, upd_conn a c1 (p\<lparr>connections := q\<rparr>))
        \<or> (\<exists>e. getConnection D p = Some (Inl (Exception e), release_conn a (upd_conn a c1 (p\<lparr>connections := q\<rparr>))))"
      using getConnection_ok [OF ok Cons] by metis
    then show ?thesis
      using that conns_ok_move(1) [OF ok Cons] Cons by (auto simp: acquire_conn_def upd_conn_def)
  qed
next
  fix L and p :: "'a DbConnectionPool" and c
  assume "conns_ok (add_mset c L) p"
  then show "conns_ok L (release_conn c p) \<and> mset (connections (release_conn c p)) = add_mset c (mset (connections p))"
    by (auto simp: conns_ok_def release_conn_def)
qed

text \<open>The library's \<open>connect\<close> returns a connection or throws.\<close>

definition connects :: "('o, 'r) sql_driver \<Rightarrow> bool" where
  "connects D \<longleftrightarrow> (\<forall>h u pw. drv_connect D h u pw \<noteq> Inr None)"

lemma DbConnection_new_ok: "connects D \<Longrightarrow> DbConnection_new D h u pw db = Inr c \<Longrightarrow> db_conn c \<noteq> None"
  by (auto simp: DbConnection_new_def connects_def Let_def split: sum.splits option.splits prod.splits)

lemma create_loop_ok:
  assumes "connects D"
  shows "create_loop D n p = (None, p') \<Longrightarrow> conns_ok L p \<Longrightarrow>
     conns_ok L p' \<and> connections p' = connections p @ [length (pool_heap p)..<length (pool_heap p) + n]"
proof (induction n arbitrary: p)
  case (Suc n)
  obtain c where c: "createConnection D p = Inr c" using Suc.prems(1) by (auto split: sum.splits)
  let ?p = "p\<lparr>pool_heap := pool_heap p @ [c], connections := connections p @ [length (pool_heap p)]\<rparr>"
  have "db_conn c \<noteq> None" using DbConnection_new_ok [OF assms] c by (auto simp: createConnection_def)
  then have "conns_ok L ?p" using Suc.prems(2) by (auto simp: conns_ok_def nth_append less_Suc_eq)
  then show ?case using Suc.IH [of ?p] Suc.prems(1) c by (simp add: upt_rec [of "length (pool_heap p)"])
qed simp

lemma db_init_ok:
  assumes "connects D" "db_init D host user password database n DbConnectionPool_new = (None, p)"
  shows "conns_ok {#} p" "connections p = [0..<n]"
  using create_loop_ok [OF assms(1), of n "DbConnectionPool_new\<lparr>pool_host := host, pool_user := user, pool_password := password,
      pool_database := database\<rparr>" _ "{#}"] assms(2)
  by (auto simp: db_init_def DbConnectionPool_new_def conns_ok_def split: prod.splits option.splits)

text \<open>
  The pool of the framework neither loses nor shares a connection. After \<open>init\<close>, for every
  sequence of \<open>getConnection\<close> calls (which may fail when a lost connection cannot be restored) and
  returns of connections, the connections held by clients and those in the queue are together
  exactly those made at the start, each once.
\<close>

theorem db_pool_exclusive:
  assumes "connects D" "db_init D host user password database n DbConnectionPool_new = (None, p0)"
    and "client_run (acquire_conn D) release_conn ops [] p0 = (lent, p)"
  shows "mset (lent @ connections p) = mset [0..<n] \<and> distinct (lent @ connections p)"
proof -
  note i = db_init_ok [OF assms(1,2)]
  have "mset (lent @ connections p) = mset [0..<n]" using db_pool.run_conserves [of "[]" p0 D ops lent p] i assms(3) by simp
  then show ?thesis by (metis distinct_upt mset_eq_imp_distinct_iff)
qed

definition some_driver :: "(nat, nat) sql_driver" where
  "some_driver = \<lparr>drv_connect = (\<lambda>_ _ _. Inr (Some 0)), drv_call = (\<lambda>c n. (Inr n, n + 1))\<rparr>"

theorem db_pool_exclusive_witness:
  "\<exists>lent p. client_run (acquire_conn some_driver) release_conn [Take, Take, Take, Give 0] []
       (snd (db_init some_driver ''h'' ''u'' ''p'' ''d'' 2 DbConnectionPool_new)) = (lent, p)
     \<and> lent = [1] \<and> mset (lent @ connections p) = mset [0..<2] \<and> distinct (lent @ connections p)"
proof -
  let ?init = "db_init some_driver ''h'' ''u'' ''p'' ''d'' 2 DbConnectionPool_new"
  let ?r = "client_run (acquire_conn some_driver) release_conn [Take, Take, Take, Give 0] [] (snd ?init)"
  have "fst ?init = None \<and> fst ?r = [1]" by code_simp
  then have i: "?init = (None, snd ?init)" and l: "fst ?r = [1]" by (simp_all add: prod_eq_iff)
  have c: "connects some_driver" by (simp add: connects_def some_driver_def)
  obtain lent p where r: "?r = (lent, p)" by fastforce
  with l have "lent = [1]" by simp
  with r db_pool_exclusive [OF c i r] show ?thesis by blast
qed

section \<open>Statements\<close>

lemma execute_with_ok:
  assumes "db_conn c \<noteq> None"
  obtains r c' where "execute_with final D sql args c = (r, c')" "db_conn c' \<noteq> None" "\<forall>f. r = Inl f \<longrightarrow> (\<exists>e. f = Exception e)"
proof -
  obtain obj where obj: "db_conn c = Some obj" using assms by blast
  obtain r obj' where "run_calls D ([Prepare sql] @ bindParams 1 args @ [final]) obj = (r, obj')" by fastforce
  then show ?thesis using that obj by (cases r) (auto simp: execute_with_def DbException_def)
qed

fun statements :: "('o, 'r) sql_driver \<Rightarrow> (bool \<times> string \<times> sql_param list) list \<Rightarrow> 'o DbConnectionPool
                   \<Rightarrow> ('r res list \<times> 'o DbConnectionPool) option" where
  "statements D [] p = Some ([], p)"
| "statements D ((query, sql, args) # ss) p =
     (case (if query then mysql_executeQuery D sql args p else mysql_executeUpdate D sql args p) of
        None \<Rightarrow> None
      | Some (r, p1) \<Rightarrow> map_option (\<lambda>(rs, p2). (r # rs, p2)) (statements D ss p1))"

lemma mysql_execute_ok:
  assumes "conns_ok {#} p" "connections p = a # q"
  obtains r p' where "mysql_execute (execute_with final D sql args) D p = Some (r, p')" "conns_ok {#} p'"
    "connections p' = q @ [a]" "\<forall>f. r = Inl f \<longrightarrow> (\<exists>e. f = Exception e)"
proof -
  obtain c where c: "db_conn c \<noteq> None"
    "getConnection D p = Some (Inr a, upd_conn a c (p\<lparr>connections := q\<rparr>))
     \<or> (\<exists>e. getConnection D p = Some (Inl (Exception e), release_conn a (upd_conn a c (p\<lparr>connections := q\<rparr>))))"
    using getConnection_ok [OF assms] by metis
  let ?p1 = "upd_conn a c (p\<lparr>connections := q\<rparr>)"
  show ?thesis
  proof (cases "getConnection D p = Some (Inr a, ?p1)")
    case True
    have "a < length (pool_heap p)" using assms by (auto simp: conns_ok_def)
    then have "pool_heap ?p1 ! a = c" by (simp add: upd_conn_def)
    moreover obtain r c' where r: "execute_with final D sql args c = (r, c')" "db_conn c' \<noteq> None" "\<forall>f. r = Inl f \<longrightarrow> (\<exists>e. f = Exception e)"
      using execute_with_ok [OF c(1)] by metis
    ultimately have "mysql_execute (execute_with final D sql args) D p = Some (r, release_conn a (upd_conn a c' ?p1))"
      using True by (simp add: mysql_execute_def)
    moreover have "upd_conn a c' ?p1 = upd_conn a c' (p\<lparr>connections := q\<rparr>)" by (simp add: upd_conn_def)
    ultimately show ?thesis
      using that r(3) conns_ok_move(2) [OF assms r(2)] by (simp add: release_conn_def upd_conn_def)
  next
    case False
    then obtain e where e: "getConnection D p = Some (Inl (Exception e), release_conn a ?p1)" using c(2) by blast
    then have "mysql_execute (execute_with final D sql args) D p = Some (Inl (Exception e), release_conn a ?p1)"
      by (simp add: mysql_execute_def)
    then show ?thesis
      using that conns_ok_move(2) [OF assms c(1)] by (simp add: release_conn_def upd_conn_def)
  qed
qed

lemma statements_ok:
  "conns_ok {#} p \<Longrightarrow> connections p \<noteq> [] \<Longrightarrow>
     \<exists>rs p'. statements D ss p = Some (rs, p') \<and> connections p' = rotate (length ss) (connections p)
       \<and> length rs = length ss \<and> (\<forall>f. Inl f \<in> set rs \<longrightarrow> (\<exists>e. f = Exception e))"
proof (induction ss arbitrary: p)
  case (Cons st ss)
  obtain query sql args where st: "st = (query, sql, args)" by (cases st)
  obtain a q where q: "connections p = a # q" using Cons.prems(2) by (cases "connections p") auto
  obtain r p1 where r: "mysql_execute (execute_with (if query then Run_Query else Run_Update) D sql args) D p = Some (r, p1)"
      "conns_ok {#} p1" "connections p1 = q @ [a]" "\<forall>f. r = Inl f \<longrightarrow> (\<exists>e. f = Exception e)"
    using mysql_execute_ok [OF Cons.prems(1) q] by metis
  obtain rs p' where "statements D ss p1 = Some (rs, p')" "connections p' = rotate (length ss) (connections p1)"
      "length rs = length ss" "\<forall>f. Inl f \<in> set rs \<longrightarrow> (\<exists>e. f = Exception e)"
    using Cons.IH [of p1] r(2,3) by auto
  then show ?case
    using r st q by (cases query)
      (auto simp: mysql_executeQuery_def mysql_executeUpdate_def db_executeQuery_def db_executeUpdate_def rotate1_rotate_swap)
qed simp

text \<open>
  C16: Statements always come back, with their connection. After \<open>init\<close> with at least one connection,
  every sequence of queries and updates through \<open>MysqlUtil\<close>, whatever the library answers, runs to
  its end without waiting; a statement that fails throws an exception and nothing worse; and
  every connection is back in the queue, the first one used going to its end.
\<close>

theorem db_statements_return:
  assumes "connects D" "db_init D host user password database n DbConnectionPool_new = (None, p0)" "0 < n"
  shows "\<exists>rs p. statements D ss p0 = Some (rs, p) \<and> connections p = rotate (length ss) [0..<n]
    \<and> length rs = length ss \<and> (\<forall>f. Inl f \<in> set rs \<longrightarrow> (\<exists>e. f = Exception e))"
  using statements_ok [of p0 D ss] db_init_ok [OF assms(1,2)] assms(3) by simp

theorem db_statements_return_witness:
  "\<exists>rs p. statements some_driver [(True, ''SELECT 1'', [])] (snd (db_init some_driver ''h'' ''u'' ''p'' ''d'' 2 DbConnectionPool_new)) = Some (rs, p)
    \<and> connections p = rotate 1 [0..<2] \<and> length rs = 1"
proof -
  let ?init = "db_init some_driver ''h'' ''u'' ''p'' ''d'' 2 DbConnectionPool_new"
  have "fst ?init = None" by code_simp
  then have i: "?init = (None, snd ?init)" by (simp add: prod_eq_iff)
  from db_statements_return [OF _ i, of "[(True, ''SELECT 1'', [])]"] show ?thesis by (auto simp: connects_def some_driver_def)
qed

end
