(* ===== verification/Web_Request.thy ===== *)
theory Web_Request
  imports Byte_Buffer Db_Pool "HOL-Library.Signed_Division"
begin

text \<open>
  The request class of the older server (\<open>code/http/httprequest.cpp\<close>): a state machine that is fed
  the lines of a \<open>Buffer\<close>, the decoding of form bodies, and the verification of users with a
  connection of the pool of \<open>Db_Pool\<close>. A call that may have to wait for the pool gives an optional
  result. The two patterns the code gives to \<open>std::regex\<close> are modelled by what they match.
\<close>

section \<open>Results of calls that may wait\<close>

type_synonym 'a wres = "'a res option"

definition bind_wres :: "'a wres \<Rightarrow> ('a \<Rightarrow> 'b wres) \<Rightarrow> 'b wres" where
  "bind_wres m f = (case m of None \<Rightarrow> None | Some (Inl e) \<Rightarrow> Some (Inl e) | Some (Inr x) \<Rightarrow> f x)"

lemma bind_wres_simps [simp]:
  "bind_wres None f = None" "bind_wres (Some (Inl e)) f = Some (Inl e)" "bind_wres (Some (Inr x)) f = f x"
  by (simp_all add: bind_wres_def)

lemma bind_wres_Inr_iff: "bind_wres m f = Some (Inr y) \<longleftrightarrow> (\<exists>x. m = Some (Inr x) \<and> f x = Some (Inr y))"
  by (auto simp: bind_wres_def split: option.splits sum.splits)

lemma bind_wres_case: "bind_wres (bind_wres m f) g = bind_wres m (\<lambda>x. bind_wres (f x) g)"
  by (auto simp: bind_wres_def split: option.splits sum.splits)

section \<open>The object\<close>

datatype PARSE_STATE = REQUEST_LINE | HEADERS | BODY | FINISH

record WebRequest =
  wr_state :: PARSE_STATE
  wr_method :: string
  wr_path :: string
  wr_version :: string
  wr_body :: string
  wr_header :: "string \<rightharpoonup> string"
  wr_post :: "string \<rightharpoonup> string"

definition DEFAULT_HTML :: "string list" where
  "DEFAULT_HTML = [''/index'', ''/register'', ''/login'', ''/welcome'', ''/video'', ''/picture'']"

definition DEFAULT_HTML_TAG :: "string \<rightharpoonup> int" where
  "DEFAULT_HTML_TAG = [''/register.html'' \<mapsto> 0, ''/login.html'' \<mapsto> 1]"

definition wr_Init :: WebRequest where
  "wr_Init = \<lparr>wr_state = REQUEST_LINE, wr_method = [], wr_path = [], wr_version = [], wr_body = [],
     wr_header = Map.empty, wr_post = Map.empty\<rparr>"

definition wr_IsKeepAlive :: "WebRequest \<Rightarrow> bool" where
  "wr_IsKeepAlive r =
     (case wr_header r ''Connection'' of
        Some v \<Rightarrow> v = ''keep-alive'' \<and> wr_version r = ''1.1''
      | None \<Rightarrow> False)"

definition GetPost :: "string \<Rightarrow> WebRequest \<Rightarrow> string res" where
  "GetPost key r = bind_res (assert_res (key \<noteq> [])) (\<lambda>_. Inr (case wr_post r key of Some v \<Rightarrow> v | None \<Rightarrow> []))"

definition ParsePath :: "WebRequest \<Rightarrow> WebRequest" where
  "ParsePath r =
     (if wr_path r = ''/'' then r\<lparr>wr_path := ''/index.html''\<rparr>
      else if wr_path r \<in> set DEFAULT_HTML then r\<lparr>wr_path := wr_path r @ ''.html''\<rparr>
      else r)"

section \<open>The lines\<close>

text \<open>
  \<open>^([^ ]*) ([^ ]*) HTTP/([^ ]*)$\<close> matches a text with exactly two spaces whose last part starts with
  \<open>HTTP/\<close>; \<open>^([^:]*): ?(.*)$\<close> one with a colon, after which no line end may follow.
\<close>

definition match_request_line :: "string \<Rightarrow> (string \<times> string \<times> string) option" where
  "match_request_line line =
     (case split_on (CHR '' '') line of
        [m, p, h] \<Rightarrow> if take 5 h = ''HTTP/'' then Some (m, p, drop 5 h) else None
      | _ \<Rightarrow> None)"

definition ParseRequestLine :: "string \<Rightarrow> WebRequest \<Rightarrow> bool \<times> WebRequest" where
  "ParseRequestLine line r =
     (case match_request_line line of
        Some (m, p, v) \<Rightarrow> (True, r\<lparr>wr_method := m, wr_path := p, wr_version := v, wr_state := HEADERS\<rparr>)
      | None \<Rightarrow> (False, r))"

definition match_header :: "string \<Rightarrow> (string \<times> string) option" where
  "match_header line =
     (case find_char (CHR '':'') line of
        None \<Rightarrow> None
      | Some i \<Rightarrow>
          let rest = drop (Suc i) line
          in if CHR 0x0D \<in> set rest \<or> CHR 0x0A \<in> set rest then None
             else Some (take i line, case rest of [] \<Rightarrow> [] | c # cs \<Rightarrow> if c = CHR '' '' then cs else rest))"

definition ParseHeader :: "string \<Rightarrow> WebRequest \<Rightarrow> WebRequest" where
  "ParseHeader line r =
     (case match_header line of
        Some (k, v) \<Rightarrow> r\<lparr>wr_header := (wr_header r)(k \<mapsto> v)\<rparr>
      | None \<Rightarrow> r\<lparr>wr_state := BODY\<rparr>)"

section \<open>Form bodies\<close>

text \<open>\<open>char\<close> is signed, and \<open>int\<close> values are stored in it modulo 256.\<close>

definition schar :: "char \<Rightarrow> int" where
  "schar c = (if (of_char c :: int) < 128 then of_char c else of_char c - 256)"

definition char_of_int :: "int \<Rightarrow> char" where
  "char_of_int v = char_of (v mod 256)"

definition ConverHex :: "char \<Rightarrow> int" where
  "ConverHex ch =
     (if CHR ''A'' \<le> ch \<and> ch \<le> CHR ''F'' then schar ch - 65 + 10
      else if CHR ''a'' \<le> ch \<and> ch \<le> CHR ''f'' then schar ch - 97 + 10
      else schar ch)"

text \<open>
  The loop of \<open>ParseFromUrlencoded_\<close> on the body, the positions \<open>i\<close> and \<open>j\<close>, the key and the pairs. A
  percent sign in the last two places makes it write at or past the terminating zero byte.
\<close>

function form_loop :: "string \<Rightarrow> nat \<Rightarrow> nat \<Rightarrow> string \<Rightarrow> (string \<rightharpoonup> string)
    \<Rightarrow> (string \<times> nat \<times> nat \<times> string \<times> (string \<rightharpoonup> string)) res" where
  "form_loop body i j key post =
     (if length body \<le> i then Inr (body, i, j, key, post)
      else if body ! i = CHR ''='' then form_loop body (Suc i) (Suc i) (substr body j (i - j)) post
      else if body ! i = CHR ''+'' then form_loop (body[i := CHR '' '']) (Suc i) j key post
      else if body ! i = CHR ''%'' then
        (if i + 2 < length body
         then let num = ConverHex (body ! (i + 1)) * 16 + ConverHex (body ! (i + 2))
              in form_loop (body[i + 2 := char_of_int (num smod 10 + 48), i + 1 := char_of_int (num sdiv 10 + 48)]) (i + 3) j key post
         else Inl Undefined_Behaviour)
      else if body ! i = CHR ''&'' then form_loop body (Suc i) (Suc i) key (post(key \<mapsto> substr body j (i - j)))
      else form_loop body (Suc i) j key post)"
  by pat_completeness auto
termination by (relation "measure (\<lambda>(body, i, _). length body - i)") auto

declare form_loop.simps [simp del]

definition ParseFromUrlencoded :: "WebRequest \<Rightarrow> WebRequest res" where
  "ParseFromUrlencoded r =
     (if wr_body r = [] then Inr r
      else bind_res (form_loop (wr_body r) 0 0 [] (wr_post r)) (\<lambda>(body, i, j, key, post).
        bind_res (assert_res (j \<le> i)) (\<lambda>_.
          Inr (r\<lparr>wr_body := body,
                 wr_post := (if post key = None \<and> j < i then post(key \<mapsto> substr body j (i - j)) else post)\<rparr>))))"

section \<open>Users\<close>

text \<open>
  What \<open>mysql_query\<close> and \<open>mysql_store_result\<close> answer: an error, no result set (a null pointer), or the
  passwords of the rows, a SQL null being \<open>None\<close>.
\<close>

datatype sql_answer = Sql_Error | No_Result | Sql_Rows "string option list"

text \<open>A whole call of \<open>GetConn\<close> by thread \<open>i\<close>: the pointer it returns, and the pool.\<close>

definition get_conn :: "nat \<Rightarrow> 'c SqlConnPool \<Rightarrow> ('c option \<times> 'c SqlConnPool) wres" where
  "get_conn i p =
     bind_wres (GetConn i p) (\<lambda>p1.
       if threads p1 ! i = Outside then Some (Inr (None, p1))
       else bind_wres (GetConn i p1) (\<lambda>p2. bind_wres (GetConn i p2) (\<lambda>p3.
         case threads p3 ! i of Has sql \<Rightarrow> Some (Inr (sql, p3)) | _ \<Rightarrow> None)))"

text \<open>A whole call of \<open>FreeConn\<close> by thread \<open>i\<close> with the pointer \<open>c\<close>, and of the destructor of \<open>SqlConnRAII\<close>.\<close>

definition free_conn :: "nat \<Rightarrow> 'c \<Rightarrow> 'c SqlConnPool \<Rightarrow> 'c SqlConnPool wres" where
  "free_conn i c p = bind_wres (FreeConn i (p\<lparr>threads := (threads p)[i := Has (Some c)]\<rparr>)) (FreeConn i)"

definition raii_end :: "nat \<Rightarrow> 'c option \<Rightarrow> 'c SqlConnPool \<Rightarrow> 'c SqlConnPool wres" where
  "raii_end i sql p = (case sql of None \<Rightarrow> Some (Inr (p\<lparr>threads := (threads p)[i := Outside]\<rparr>)) | Some c \<Rightarrow> free_conn i c p)"

definition select_user :: "string \<Rightarrow> string" where
  "select_user name = take 255 (''SELECT username, password FROM user WHERE username='' @ [CHR 0x27] @ c_str name @ [CHR 0x27] @ '' LIMIT 1'')"

definition insert_user :: "string \<Rightarrow> string \<Rightarrow> string" where
  "insert_user name pwd =
     take 255 (''INSERT INTO user(username, password) VALUES('' @ [CHR 0x27] @ c_str name @ [CHR 0x27] @ '','' @ [CHR 0x27] @ c_str pwd
       @ [CHR 0x27] @ '')'')"

text \<open>The loop over the rows.\<close>

fun check_rows :: "bool \<Rightarrow> string \<Rightarrow> string option list \<Rightarrow> bool \<Rightarrow> bool res" where
  "check_rows isLogin pwd [] flag = Inr flag"
| "check_rows isLogin pwd (None # rows) flag = Inl Undefined_Behaviour"
| "check_rows isLogin pwd (Some password # rows) flag = check_rows isLogin pwd rows (if isLogin then pwd = c_str password else False)"

text \<open>
  \<open>UserVerify\<close>. The statement \<open>SqlConnRAII(&sql, ...)\<close> makes a temporary, which gives the connection back at
  the end of the statement; the connection is used after that, and given back once more at the end.
\<close>

definition UserVerify :: "('c \<Rightarrow> string \<Rightarrow> 'd \<Rightarrow> sql_answer \<times> 'd) \<Rightarrow> nat \<Rightarrow> string \<Rightarrow> string \<Rightarrow> bool \<Rightarrow> 'c SqlConnPool \<times> 'd
    \<Rightarrow> (bool \<times> 'c SqlConnPool \<times> 'd) wres" where
  "UserVerify ask i name pwd isLogin e =
     (case e of (p, db) \<Rightarrow>
        if name = [] \<or> pwd = [] then Some (Inr (False, p, db))
        else bind_wres (get_conn i p) (\<lambda>(sql, p1).
          bind_wres (raii_end i sql p1) (\<lambda>p2.
            case sql of
              None \<Rightarrow> Some (Inl Assertion_Failure)
            | Some c \<Rightarrow>
                (case ask c (select_user name) db of
                   (Sql_Error, db1) \<Rightarrow> Some (Inr (False, p2, db1))
                 | (No_Result, db1) \<Rightarrow> Some (Inl Undefined_Behaviour)
                 | (Sql_Rows rows, db1) \<Rightarrow>
                     bind_wres (Some (check_rows isLogin pwd rows (\<not> isLogin))) (\<lambda>flag.
                       let db2 = (if \<not> isLogin \<and> flag then snd (ask c (insert_user name pwd) db1) else db1)
                       in bind_wres (free_conn i c p2) (\<lambda>p3. Some (Inr (flag, p3, db2))))))))"

section \<open>The parser\<close>

text \<open>\<open>m[k]\<close> of an \<open>unordered_map\<close>, which inserts an empty string for a new key.\<close>

definition bracket :: "string \<Rightarrow> (string \<rightharpoonup> string) \<Rightarrow> string \<times> (string \<rightharpoonup> string)" where
  "bracket k m = (case m k of Some v \<Rightarrow> (v, m) | None \<Rightarrow> ([], m(k \<mapsto> [])))"

type_synonym 'e verifier = "string \<Rightarrow> string \<Rightarrow> bool \<Rightarrow> 'e \<Rightarrow> (bool \<times> 'e) wres"

definition verify_form :: "'e verifier \<Rightarrow> bool \<Rightarrow> WebRequest \<Rightarrow> 'e \<Rightarrow> (WebRequest \<times> 'e) wres" where
  "verify_form verify isLogin r e =
     (case bracket ''username'' (wr_post r) of (name, post1) \<Rightarrow>
      case bracket ''password'' post1 of (pwd, post2) \<Rightarrow>
        bind_wres (verify name pwd isLogin e) (\<lambda>(good, e').
          Some (Inr (r\<lparr>wr_post := post2, wr_path := (if good then ''/welcome.html'' else ''/error.html'')\<rparr>, e'))))"

definition ParsePost :: "'e verifier \<Rightarrow> WebRequest \<Rightarrow> 'e \<Rightarrow> (WebRequest \<times> 'e) wres" where
  "ParsePost verify r e =
     (if wr_method r \<noteq> ''POST'' then Some (Inr (r, e))
      else case bracket ''Content-Type'' (wr_header r) of (ct, header) \<Rightarrow>
        let r1 = r\<lparr>wr_header := header\<rparr>
        in if ct \<noteq> ''application/x-www-form-urlencoded'' then Some (Inr (r1, e))
           else bind_wres (Some (ParseFromUrlencoded r1)) (\<lambda>r2.
             case DEFAULT_HTML_TAG (wr_path r2) of
               None \<Rightarrow> Some (Inr (r2, e))
             | Some tag \<Rightarrow> if tag = 0 \<or> tag = 1 then verify_form verify (tag = 1) r2 e else Some (Inr (r2, e))))"

definition ParseBody :: "'e verifier \<Rightarrow> string \<Rightarrow> WebRequest \<Rightarrow> 'e \<Rightarrow> (WebRequest \<times> 'e) wres" where
  "ParseBody verify line r e =
     bind_wres (ParsePost verify (r\<lparr>wr_body := line\<rparr>) e) (\<lambda>(r', e'). Some (Inr (r'\<lparr>wr_state := FINISH\<rparr>, e')))"

text \<open>The \<open>switch\<close> of the loop, with the readable size; the first component is false where \<open>parse\<close> returns.\<close>

definition parse_line :: "'e verifier \<Rightarrow> nat \<Rightarrow> string \<Rightarrow> WebRequest \<Rightarrow> 'e \<Rightarrow> (bool \<times> WebRequest \<times> 'e) wres" where
  "parse_line verify n line r e =
     (case wr_state r of
        REQUEST_LINE \<Rightarrow>
          (case ParseRequestLine line r of
             (False, r') \<Rightarrow> Some (Inr (False, r', e))
           | (True, r') \<Rightarrow> Some (Inr (True, ParsePath r', e)))
      | HEADERS \<Rightarrow>
          let r' = ParseHeader line r
          in Some (Inr (True, if n \<le> 2 then r'\<lparr>wr_state := FINISH\<rparr> else r', e))
      | BODY \<Rightarrow> bind_wres (ParseBody verify line r e) (\<lambda>(r', e'). Some (Inr (True, r', e')))
      | FINISH \<Rightarrow> Some (Inr (True, r, e)))"

lemma RetrieveUntil_less:
  "RetrieveUntil (Suc (Suc (Peek b + k))) b = Inr b' \<Longrightarrow> ReadableBytes b' < ReadableBytes b"
  by (auto simp: RetrieveUntil_def Retrieve_def ReadableBytes_def size_sub_def Peek_def bind_res_Inr_iff assert_res_def split: if_splits)

function (sequential) parse_loop :: "'e verifier \<Rightarrow> WebRequest \<Rightarrow> Buffer \<Rightarrow> 'e \<Rightarrow> (bool \<times> WebRequest \<times> Buffer \<times> 'e) wres" where
  "parse_loop verify r b e =
     (if ReadableBytes b = 0 \<or> wr_state r = FINISH then Some (Inr (True, r, b, e))
      else
        let lineEnd = find_str crlf (readable b);
            line = (case lineEnd of Some k \<Rightarrow> take k (readable b) | None \<Rightarrow> readable b)
        in (case parse_line verify (ReadableBytes b) line r e of
              None \<Rightarrow> None
            | Some (Inl f) \<Rightarrow> Some (Inl f)
            | Some (Inr (False, r', e')) \<Rightarrow> Some (Inr (False, r', b, e'))
            | Some (Inr (True, r', e')) \<Rightarrow>
                (case lineEnd of
                   None \<Rightarrow> Some (Inr (True, r', b, e'))
                 | Some k \<Rightarrow>
                     (case RetrieveUntil (Peek b + k + 2) b of
                        Inl f \<Rightarrow> Some (Inl f)
                      | Inr b' \<Rightarrow> parse_loop verify r' b' e'))))"
  by pat_completeness auto
termination by (relation "measure (\<lambda>(_, _, b, _). ReadableBytes b)") (auto dest: RetrieveUntil_less)

declare parse_loop.simps [simp del]

definition wr_parse :: "'e verifier \<Rightarrow> WebRequest \<Rightarrow> Buffer \<Rightarrow> 'e \<Rightarrow> (bool \<times> WebRequest \<times> Buffer \<times> 'e) wres" where
  "wr_parse verify r b e = (if ReadableBytes b \<le> 0 then Some (Inr (False, r, b, e)) else parse_loop verify r b e)"

section \<open>Reading whole requests\<close>

lemma match_request_line_print:
  assumes "CHR '' '' \<notin> set m" "CHR '' '' \<notin> set p" "CHR '' '' \<notin> set v"
  shows "match_request_line (m @ CHR '' '' # p @ CHR '' '' # ''HTTP/'' @ v) = Some (m, p, v)"
proof -
  have "split_on (CHR '' '') (''HTTP/'' @ v) = [''HTTP/'' @ v]" using assms(3) by (intro split_on_no_sep) auto
  then show ?thesis using assms(1,2) by (simp add: match_request_line_def split_on_append)
qed

lemma match_header_print:
  assumes "CHR '':'' \<notin> set k" "CHR 0x0D \<notin> set v" "CHR 0x0A \<notin> set v"
  shows "match_header (k @ CHR '':'' # CHR '' '' # v) = Some (k, v)"
  using assms by (simp add: match_header_def Let_def)

lemma match_header_empty: "match_header [] = None"
  by (simp add: match_header_def)

text \<open>One turn of the loop on a line that ends, and on the last one, which does not.\<close>

lemma parse_loop_line:
  assumes "buf_ok b" "readable b = line @ CHR 0x0D # CHR 0x0A # rest" "CHR 0x0D \<notin> set line" "wr_state r \<noteq> FINISH"
    and "parse_line verify (length line + 2 + length rest) line r e = Some (Inr (True, r', e'))"
  obtains b' where "parse_loop verify r b e = parse_loop verify r' b' e'" "buf_ok b'" "readable b' = rest"
proof -
  let ?b = "b\<lparr>readPos := readPos b + (length line + 2)\<rparr>"
  have n: "ReadableBytes b = length line + 2 + length rest" using length_readable [OF assms(1)] assms(2) by simp
  note ret = Retrieve_ok [OF assms(1), of "length line + 2"]
  have "RetrieveUntil (Peek b + length line + 2) b = Inr ?b"
    using RetrieveUntil_ok [OF assms(1), of "length line + 2"] ret(1) n by (simp add: add.assoc)
  then have "parse_loop verify r b e = parse_loop verify r' ?b e'"
    using assms(2-5) n by (subst parse_loop.simps) (simp add: Let_def)
  moreover have "buf_ok ?b" "readable ?b = rest" using ret(2,3) n assms(2) by simp_all
  ultimately show ?thesis by (rule that)
qed

lemma parse_loop_last:
  assumes "buf_ok b" "readable b = line" "line \<noteq> []" "find_str crlf line = None" "wr_state r \<noteq> FINISH"
  shows "parse_loop verify r b e
    = bind_wres (parse_line verify (length line) line r e) (\<lambda>(go, r', e'). Some (Inr (go, r', b, e')))"
proof -
  have n: "ReadableBytes b = length line" using length_readable [OF assms(1)] assms(2) by simp
  show ?thesis using assms(2-5) n
    by (subst parse_loop.simps) (auto simp: Let_def bind_wres_def split: option.splits sum.splits bool.splits)
qed

lemma find_crlf_none: "CHR 0x0D \<notin> set s \<Longrightarrow> find_str crlf s = None"
  by (induction s) auto

lemma parse_loop_finish: "wr_state r = FINISH \<or> readable b = [] \<and> buf_ok b \<Longrightarrow> parse_loop verify r b e = Some (Inr (True, r, b, e))"
proof -
  assume a: "wr_state r = FINISH \<or> readable b = [] \<and> buf_ok b"
  then have "wr_state r = FINISH \<or> ReadableBytes b = 0" by (metis length_readable list.size(3))
  then show ?thesis by (subst parse_loop.simps) auto
qed

definition print_header :: "string \<times> string \<Rightarrow> string" where
  "print_header h = fst h @ CHR '':'' # CHR '' '' # snd h"

definition header_ok :: "string \<times> string \<Rightarrow> bool" where
  "header_ok h \<longleftrightarrow> CHR '':'' \<notin> set (fst h) \<and> CHR 0x0D \<notin> set (fst h) \<and> CHR 0x0D \<notin> set (snd h) \<and> CHR 0x0A \<notin> set (snd h)"

definition print_headers :: "(string \<times> string) list \<Rightarrow> string" where
  "print_headers hs = concat (map (\<lambda>h. print_header h @ crlf) hs)"

definition print_web_request :: "string \<Rightarrow> string \<Rightarrow> string \<Rightarrow> (string \<times> string) list \<Rightarrow> string \<Rightarrow> string" where
  "print_web_request m p v hs body = m @ '' '' @ p @ '' HTTP/'' @ v @ crlf @ print_headers hs @ crlf @ body"

lemma parse_loop_headers:
  assumes "buf_ok b" "readable b = print_headers hs @ crlf @ body" "\<forall>h \<in> set hs. header_ok h" "wr_state r = HEADERS"
  shows "\<exists>b'. parse_loop verify r b e = parse_loop verify
      (r\<lparr>wr_header := wr_header r ++ map_of (rev hs), wr_state := if body = [] then FINISH else BODY\<rparr>) b' e
    \<and> buf_ok b' \<and> readable b' = body"
  using assms
proof (induction hs arbitrary: b r)
  case Nil
  let ?r = "r\<lparr>wr_state := if body = [] then FINISH else BODY\<rparr>"
  have "parse_line verify (length [] + 2 + length body) [] r e = Some (Inr (True, ?r, e))"
    using Nil.prems(4) by (simp add: parse_line_def ParseHeader_def match_header_empty Let_def)
  from parse_loop_line [OF Nil.prems(1) _ _ _ this]
  obtain b' where "parse_loop verify r b e = parse_loop verify ?r b' e" "buf_ok b'" "readable b' = body"
    using Nil.prems by (auto simp: print_headers_def)
  then show ?case by (intro exI [of _ b']) simp
next
  case (Cons h hs)
  let ?rest = "print_headers hs @ crlf @ body"
  let ?r = "r\<lparr>wr_header := (wr_header r)(fst h \<mapsto> snd h)\<rparr>"
  have h: "header_ok h" using Cons.prems(3) by simp
  have "match_header (print_header h) = Some (fst h, snd h)"
    using match_header_print h by (simp add: header_ok_def print_header_def)
  then have "parse_line verify (length (print_header h) + 2 + length ?rest) (print_header h) r e = Some (Inr (True, ?r, e))"
    using Cons.prems(4) by (simp add: parse_line_def ParseHeader_def Let_def split: prod.splits)
  from parse_loop_line [OF Cons.prems(1) _ _ _ this]
  obtain b1 where b1: "parse_loop verify r b e = parse_loop verify ?r b1 e" "buf_ok b1" "readable b1 = ?rest"
    using Cons.prems(2,4) h by (auto simp: print_headers_def header_ok_def print_header_def)
  have eq: "?r\<lparr>wr_header := wr_header ?r ++ map_of (rev hs), wr_state := st\<rparr>
      = r\<lparr>wr_header := wr_header r ++ map_of (rev (h # hs)), wr_state := st\<rparr>" for st by (cases h) simp
  have "\<forall>h \<in> set hs. header_ok h" "wr_state ?r = HEADERS" using Cons.prems(3,4) by simp_all
  from Cons.IH [OF b1(2,3) this] show ?case unfolding b1(1) eq .
qed

text \<open>The object after the headers of a printed request, with its default page.\<close>

definition read_request :: "string \<Rightarrow> string \<Rightarrow> string \<Rightarrow> (string \<times> string) list \<Rightarrow> WebRequest" where
  "read_request m p v hs =
     (ParsePath (wr_Init\<lparr>wr_method := m, wr_path := p, wr_version := v\<rparr>))\<lparr>wr_header := map_of (rev hs), wr_state := FINISH\<rparr>"

lemma wr_parse_head:
  assumes "buf_ok b" "readable b = print_web_request m p v hs body"
    and "CHR '' '' \<notin> set (m @ p @ v)" "CHR 0x0D \<notin> set (m @ p @ v)" "\<forall>h \<in> set hs. header_ok h"
  obtains b' where "wr_parse verify wr_Init b e = parse_loop verify
      ((read_request m p v hs)\<lparr>wr_state := if body = [] then FINISH else BODY\<rparr>) b' e"
    "buf_ok b'" "readable b' = body"
proof -
  let ?line = "m @ CHR '' '' # p @ CHR '' '' # ''HTTP/'' @ v"
  let ?rest = "print_headers hs @ crlf @ body"
  let ?r = "(ParsePath (wr_Init\<lparr>wr_method := m, wr_path := p, wr_version := v, wr_state := HEADERS\<rparr>))"
  have rd: "readable b = ?line @ CHR 0x0D # CHR 0x0A # ?rest" using assms(2) by (simp add: print_web_request_def)
  then have n: "ReadableBytes b \<noteq> 0" using length_readable [OF assms(1)] by auto
  have st: "wr_state ?r = HEADERS" "wr_header ?r = Map.empty" by (simp_all add: ParsePath_def wr_Init_def)
  have "parse_line verify (length ?line + 2 + length ?rest) ?line wr_Init e = Some (Inr (True, ?r, e))"
    using match_request_line_print [of m p v] assms(3) by (simp add: parse_line_def ParseRequestLine_def wr_Init_def)
  from parse_loop_line [OF assms(1) rd _ _ this]
  obtain b1 where b1: "parse_loop verify wr_Init b e = parse_loop verify ?r b1 e" "buf_ok b1" "readable b1 = ?rest"
    using assms(4) by (auto simp: wr_Init_def)
  obtain b' where b': "parse_loop verify ?r b1 e = parse_loop verify
      (?r\<lparr>wr_header := wr_header ?r ++ map_of (rev hs), wr_state := if body = [] then FINISH else BODY\<rparr>) b' e"
    "buf_ok b'" "readable b' = body"
    using parse_loop_headers [OF b1(2,3) assms(5) st(1), of verify e] by (elim exE conjE)
  have "?r\<lparr>wr_header := wr_header ?r ++ map_of (rev hs), wr_state := if body = [] then FINISH else BODY\<rparr>
      = (read_request m p v hs)\<lparr>wr_state := if body = [] then FINISH else BODY\<rparr>"
    using st(2) by (auto simp: read_request_def ParsePath_def wr_Init_def)
  then have "wr_parse verify wr_Init b e = parse_loop verify ((read_request m p v hs)\<lparr>wr_state := if body = [] then FINISH else BODY\<rparr>) b' e"
    using b'(1) b1(1) n unfolding wr_parse_def by (simp only: le_zero_eq if_False)
  then show ?thesis by (rule that) (use b' in simp_all)
qed

lemma wr_parse_whole:
  assumes "buf_ok b" "readable b = print_web_request m p v hs body"
    and "CHR '' '' \<notin> set (m @ p @ v)" "CHR 0x0D \<notin> set (m @ p @ v)" "\<forall>h \<in> set hs. header_ok h"
    and "CHR 0x0D \<notin> set body"
  shows "\<exists>b'. wr_parse verify wr_Init b e
      = (if body = [] then Some (Inr (True, read_request m p v hs, b', e))
         else bind_wres (ParsePost verify ((read_request m p v hs)\<lparr>wr_state := BODY, wr_body := body\<rparr>) e)
           (\<lambda>(r, e'). Some (Inr (True, r\<lparr>wr_state := FINISH\<rparr>, b', e'))))
    \<and> buf_ok b' \<and> readable b' = body"
proof -
  obtain b' where b': "wr_parse verify wr_Init b e = parse_loop verify
      ((read_request m p v hs)\<lparr>wr_state := if body = [] then FINISH else BODY\<rparr>) b' e"
    "buf_ok b'" "readable b' = body"
    by (rule wr_parse_head [OF assms(1-5), where verify = verify and e = e])
  have fin: "(read_request m p v hs)\<lparr>wr_state := FINISH\<rparr> = read_request m p v hs" by (simp add: read_request_def)
  show ?thesis
  proof (cases "body = []")
    case True
    then have "wr_parse verify wr_Init b e = Some (Inr (True, read_request m p v hs, b', e))"
      using b' fin parse_loop_finish [of "read_request m p v hs" b'] by (simp add: read_request_def)
    then show ?thesis using True b' by auto
  next
    case False
    let ?r = "(read_request m p v hs)\<lparr>wr_state := BODY\<rparr>"
    have "parse_loop verify ?r b' e = bind_wres (parse_line verify (length body) body ?r e) (\<lambda>(go, r', e'). Some (Inr (go, r', b', e')))"
      by (rule parse_loop_last [OF b'(2,3) False find_crlf_none [OF assms(6)]]) simp
    also have "\<dots> = bind_wres (ParsePost verify (?r\<lparr>wr_body := body\<rparr>) e) (\<lambda>(r, e'). Some (Inr (True, r\<lparr>wr_state := FINISH\<rparr>, b', e')))"
      by (simp add: parse_line_def ParseBody_def bind_wres_case case_prod_unfold)
    finally have "wr_parse verify wr_Init b e = \<dots>" using b'(1) False by (simp only: if_False)
    then show ?thesis using False b'(2,3) by (intro exI [of _ b']) simp
  qed
qed

text \<open>
  C23: A whole printed request in the buffer is read back: method, path (with its default page),
  version, headers (the later of two of the same name) and body. What the body means is decided by
  \<open>ParsePost_\<close>. The body itself is left in the buffer: it does not end in a line end, and only lines
  that do are retrieved.
\<close>

theorem web_request_roundtrip:
  assumes "buf_ok b" "readable b = print_web_request m p v hs body"
    and "CHR '' '' \<notin> set (m @ p @ v)" "CHR 0x0D \<notin> set (m @ p @ v)" "\<forall>h \<in> set hs. header_ok h"
    and "CHR 0x0D \<notin> set body"
  shows "\<exists>b'. wr_parse verify wr_Init b e
      = (if body = [] then Some (Inr (True, read_request m p v hs, b', e))
         else bind_wres (ParsePost verify ((read_request m p v hs)\<lparr>wr_state := BODY, wr_body := body\<rparr>) e)
           (\<lambda>(r, e'). Some (Inr (True, r\<lparr>wr_state := FINISH\<rparr>, b', e'))))
    \<and> buf_ok b' \<and> readable b' = body"
  by (rule wr_parse_whole [OF assms])

theorem web_request_roundtrip_witness:
  "\<exists>b'. wr_parse (\<lambda>_ _ _ e. Some (Inr (False, e))) wr_Init
       \<lparr>vec = ''GET / HTTP/1.1'' @ crlf @ ''Host: a'' @ crlf @ crlf, readPos = 0, writePos = 27\<rparr> ()
     = Some (Inr (True, read_request ''GET'' ''/'' ''1.1'' [(''Host'', ''a'')], b', ())) \<and> readable b' = []"
  using web_request_roundtrip [of "\<lparr>vec = ''GET / HTTP/1.1'' @ crlf @ ''Host: a'' @ crlf @ crlf, readPos = 0, writePos = 27\<rparr>"
      "''GET''" "''/''" "''1.1''" "[(''Host'', ''a'')]" "[]" "\<lambda>_ _ _ e. Some (Inr (False, e))" "()"]
  by (auto simp: buf_ok_def readable_def print_web_request_def print_headers_def print_header_def header_ok_def)

section \<open>Form bodies read back\<close>

definition plus_coded :: "string \<Rightarrow> string" where
  "plus_coded s = map (\<lambda>c. if c = CHR '' '' then CHR ''+'' else c) s"

definition plain :: "string \<Rightarrow> bool" where
  "plain s \<longleftrightarrow> CHR ''='' \<notin> set s \<and> CHR ''&'' \<notin> set s \<and> CHR ''%'' \<notin> set s \<and> CHR ''+'' \<notin> set s"

fun print_form :: "(string \<times> string) list \<Rightarrow> string" where
  "print_form [] = []"
| "print_form [(k, v)] = plus_coded k @ CHR ''='' # plus_coded v"
| "print_form ((k, v) # ps) = plus_coded k @ CHR ''='' # plus_coded v @ CHR ''&'' # print_form ps"

lemma form_loop_plain:
  "plain s \<Longrightarrow> form_loop (pre @ plus_coded s @ rest) (length pre) j key post
     = form_loop (pre @ s @ rest) (length pre + length s) j key post"
proof (induction s arbitrary: pre)
  case (Cons c s)
  let ?b = "pre @ plus_coded (c # s) @ rest"
  have c: "c \<noteq> CHR ''=''" "c \<noteq> CHR ''&''" "c \<noteq> CHR ''%''" "c \<noteq> CHR ''+''" "plain s"
    using Cons.prems by (auto simp: plain_def)
  have "form_loop ?b (length pre) j key post = form_loop ((pre @ [c]) @ plus_coded s @ rest) (length (pre @ [c])) j key post"
  proof (cases "c = CHR '' ''")
    case True
    then show ?thesis by (subst form_loop.simps) (simp add: plus_coded_def nth_append)
  next
    case False
    then show ?thesis using c by (subst form_loop.simps) (simp add: plus_coded_def nth_append)
  qed
  then show ?case using Cons.IH [OF c(5), of "pre @ [c]"] by simp
qed (simp add: plus_coded_def)

lemma form_loop_equals:
  "j \<le> length pre \<Longrightarrow> form_loop (pre @ CHR ''='' # rest) (length pre) j key post
     = form_loop (pre @ CHR ''='' # rest) (Suc (length pre)) (Suc (length pre)) (drop j pre) post"
  by (subst form_loop.simps) (simp add: substr_def nth_append)

lemma form_loop_amp:
  "j \<le> length pre \<Longrightarrow> form_loop (pre @ CHR ''&'' # rest) (length pre) j key post
     = form_loop (pre @ CHR ''&'' # rest) (Suc (length pre)) (Suc (length pre)) key (post(key \<mapsto> drop j pre))"
  by (subst form_loop.simps) (simp add: substr_def nth_append)

lemma form_loop_end: "form_loop body (length body) j key post = Inr (body, length body, j, key, post)"
  by (subst form_loop.simps) simp

text \<open>One pair, up to the character after it.\<close>

lemma form_loop_pair:
  assumes "plain k" "plain v"
  shows "form_loop (pre @ plus_coded k @ CHR ''='' # plus_coded v @ rest) (length pre) (length pre) key post
     = form_loop ((pre @ k @ CHR ''='' # v) @ rest) (length (pre @ k @ CHR ''='' # v)) (length (pre @ k) + 1) k post"
  using form_loop_plain [OF assms(1), of pre "CHR ''='' # plus_coded v @ rest" "length pre" key post]
    form_loop_equals [of "length pre" "pre @ k" "plus_coded v @ rest" key post]
    form_loop_plain [OF assms(2), of "pre @ k @ [CHR ''='']" rest "length (pre @ k) + 1" k post]
  by (simp add: add.assoc)

lemma form_loop_form:
  assumes "ps \<noteq> []" "\<forall>(k, v) \<in> set ps. plain k \<and> plain v"
  shows "\<exists>body j. form_loop (pre @ print_form ps) (length pre) (length pre) key post
      = Inr (body, length body, j, fst (last ps), post ++ map_of (rev (butlast ps)))
    \<and> j \<le> length body \<and> drop j body = snd (last ps)"
  using assms
proof (induction ps arbitrary: pre key post rule: print_form.induct)
  case (2 k v)
  let ?b = "pre @ k @ CHR ''='' # v"
  have "form_loop (pre @ print_form [(k, v)]) (length pre) (length pre) key post = Inr (?b, length ?b, length (pre @ k) + 1, k, post)"
    using form_loop_pair [of k v pre "[]" key post] form_loop_end [of ?b] 2 by simp
  then show ?case by (intro exI [of _ ?b] exI [of _ "length (pre @ k) + 1"]) simp
next
  case (3 k v q ps)
  let ?b = "pre @ k @ CHR ''='' # v"
  have "form_loop (pre @ print_form ((k, v) # q # ps)) (length pre) (length pre) key post
      = form_loop (?b @ CHR ''&'' # print_form (q # ps)) (length ?b) (length (pre @ k) + 1) k post"
    using form_loop_pair [of k v pre "CHR ''&'' # print_form (q # ps)" key post] 3(3) by simp
  also have "\<dots> = form_loop ((?b @ [CHR ''&'']) @ print_form (q # ps)) (length (?b @ [CHR ''&''])) (length (?b @ [CHR ''&''])) k (post(k \<mapsto> v))"
    using form_loop_amp [of "length (pre @ k) + 1" ?b "print_form (q # ps)" k post] by simp
  finally have l: "form_loop (pre @ print_form ((k, v) # q # ps)) (length pre) (length pre) key post
      = form_loop ((?b @ [CHR ''&'']) @ print_form (q # ps)) (length (?b @ [CHR ''&''])) (length (?b @ [CHR ''&''])) k (post(k \<mapsto> v))" .
  have m: "post ++ map_of (rev (butlast ((k, v) # q # ps))) = post(k \<mapsto> v) ++ map_of (rev (butlast (q # ps)))" by simp
  have t: "last ((k, v) # q # ps) = last (q # ps)" by simp
  show ?case unfolding l m t by (rule 3(1)) (use 3(3) in auto)
qed simp

text \<open>
  A form printed by a browser, with different keys, a last value that is not empty and no character
  that needs a percent sign, is read back pair by pair, plus_coded signs as spaces.
\<close>

theorem web_form_roundtrip:
  assumes "ps \<noteq> []" "\<forall>(k, v) \<in> set ps. plain k \<and> plain v" "distinct (map fst ps)" "snd (last ps) \<noteq> []"
    and "wr_body r = print_form ps" "wr_post r = Map.empty"
  shows "\<exists>body. ParseFromUrlencoded r = Inr (r\<lparr>wr_body := body, wr_post := map_of ps\<rparr>)"
proof -
  obtain body j where f: "form_loop (print_form ps) 0 0 [] Map.empty
      = Inr (body, length body, j, fst (last ps), map_of (rev (butlast ps)))" "j \<le> length body" "drop j body = snd (last ps)"
    using form_loop_form [OF assms(1,2), of "[]" "[]" Map.empty] by auto
  have ps: "ps = butlast ps @ [last ps]" using assms(1) by simp
  then have d: "distinct (map fst (butlast ps))" "fst (last ps) \<notin> fst ` set (butlast ps)"
    using assms(3) by (metis distinct_append map_append, metis distinct_append disjoint_insert(1) list.set(2) list.set_map list.simps(9) map_append)
  have m: "map_of (rev (butlast ps)) = map_of (butlast ps)" using d(1) by (subst map_of_inject_set) (simp_all add: rev_map [symmetric])
  have "map_of (butlast ps) (fst (last ps)) = None" using d(2) by (simp add: map_of_eq_None_iff)
  moreover have "j < length body" using f(2,3) assms(4) by (cases "j = length body") auto
  moreover have "substr body j (length body - j) = snd (last ps)" using f(3) by (metis length_drop order_refl substr_def take_all)
  moreover have "(map_of (butlast ps))(fst (last ps) \<mapsto> snd (last ps)) = map_of ps"
    using arg_cong [OF ps, of map_of] d(2) by (auto simp: map_add_def fun_eq_iff map_of_eq_None_iff split: option.splits)
  moreover have "print_form ps \<noteq> []" using assms(1) by (cases ps rule: print_form.cases) auto
  ultimately show ?thesis using assms(5,6) f m by (auto simp: ParseFromUrlencoded_def intro!: exI [of _ body])
qed

theorem web_form_roundtrip_witness:
  "\<exists>body. ParseFromUrlencoded (wr_Init\<lparr>wr_body := ''username=a+b&password=c''\<rparr>)
     = Inr (wr_Init\<lparr>wr_body := body, wr_post := [''username'' \<mapsto> ''a b'', ''password'' \<mapsto> ''c'']\<rparr>)"
  using web_form_roundtrip [of "[(''username'', ''a b''), (''password'', ''c'')]" "wr_Init\<lparr>wr_body := ''username=a+b&password=c''\<rparr>"]
  by (simp add: plain_def plus_coded_def wr_Init_def fun_upd_twist)

text \<open>Percent signs: a body never changes its length, so no escape is ever replaced by the byte it stands for.\<close>

lemma form_loop_length: "form_loop body i j key post = Inr (body', i', j', key', post') \<Longrightarrow> length body' = length body"
proof (induction body i j key post rule: form_loop.induct)
  case (1 body i j key post)
  from 1(6) show ?case
    by (subst (asm) form_loop.simps) (use 1(1-5) in \<open>auto simp: Let_def simp del: fun_upd_apply split: if_splits\<close>)
qed

lemma percent_not_decoded: "ParseFromUrlencoded r = Inr r' \<Longrightarrow> length (wr_body r') = length (wr_body r)"
  by (auto simp: ParseFromUrlencoded_def bind_res_Inr_iff dest!: form_loop_length split: if_splits)

lemma percent_at_end_undefined:
  assumes "plain s"
  shows "ParseFromUrlencoded (r\<lparr>wr_body := plus_coded s @ [CHR ''%'', c]\<rparr>) = Inl Undefined_Behaviour"
proof -
  have "form_loop (s @ [CHR ''%'', c]) (length s) 0 [] post = Inl Undefined_Behaviour" for post
    by (subst form_loop.simps) (simp add: nth_append)
  then show ?thesis using form_loop_plain [OF assms, of "[]" "[CHR ''%'', c]"] by (simp add: ParseFromUrlencoded_def)
qed

section \<open>Verification\<close>

lemma check_rows_result:
  "check_rows isLogin pwd (map Some pws) flag
     = Inr (if pws = [] then flag else isLogin \<and> pwd = c_str (last pws))"
  by (induction pws arbitrary: flag) auto



end
