(* ===== verification/Web_Response.thy ===== *)
theory Web_Response
  imports Byte_Buffer
begin

text \<open>
  The response class of the older server (\<open>code/http/httpresponse.cpp\<close>): it looks for the requested
  file, chooses a status, prints status line and headers into a \<open>Buffer\<close> and maps the file into
  memory; where that fails, it prints an error page. The file system is a record of the answers of
  \<open>stat\<close>, \<open>open\<close> and \<open>mmap\<close>.
\<close>

section \<open>The object\<close>

record web_stat =
  st_dir :: bool
  st_roth :: bool
  st_size :: nat

definition zero_stat :: web_stat where
  "zero_stat = \<lparr>st_dir = False, st_roth = False, st_size = 0\<rparr>"

text \<open>\<open>wf_map path n\<close> is the mapping of \<open>n\<close> bytes, or \<open>None\<close> where \<open>mmap\<close> gives \<open>MAP_FAILED\<close>.\<close>

record web_fs =
  wf_stat :: "string \<Rightarrow> web_stat option"
  wf_open :: "string \<Rightarrow> bool"
  wf_map :: "string \<Rightarrow> nat \<Rightarrow> string option"

record WebResponse =
  wp_code :: int
  wp_isKeepAlive :: bool
  wp_path :: string
  wp_srcDir :: string
  mmFile :: "string option"
  mmFileStat :: web_stat

definition SUFFIX_TYPE :: "(string \<times> string) list" where
  "SUFFIX_TYPE =
    [(''.html'', ''text/html''), (''.xml'', ''text/xml''), (''.xhtml'', ''application/xhtml+xml''), (''.txt'', ''text/plain''),
     (''.rtf'', ''application/rtf''), (''.pdf'', ''application/pdf''), (''.word'', ''application/nsword''), (''.png'', ''image/png''),
     (''.gif'', ''image/gif''), (''.jpg'', ''image/jpeg''), (''.jpeg'', ''image/jpeg''), (''.au'', ''audio/basic''),
     (''.mpeg'', ''video/mpeg''), (''.mpg'', ''video/mpeg''), (''.avi'', ''video/x-msvideo''), (''.gz'', ''application/x-gzip''),
     (''.tar'', ''application/x-tar''), (''.css'', ''text/css ''), (''.js'', ''text/javascript '')]"

definition CODE_STATUS :: "int \<rightharpoonup> string" where
  "CODE_STATUS = [200 \<mapsto> ''OK'', 400 \<mapsto> ''Bad Request'', 403 \<mapsto> ''Forbidden'', 404 \<mapsto> ''Not Found'']"

definition CODE_PATH :: "int \<rightharpoonup> string" where
  "CODE_PATH = [400 \<mapsto> ''/400.html'', 403 \<mapsto> ''/403.html'', 404 \<mapsto> ''/404.html'']"

definition WebResponse_new :: WebResponse where
  "WebResponse_new = \<lparr>wp_code = -1, wp_isKeepAlive = False, wp_path = [], wp_srcDir = [], mmFile = None, mmFileStat = zero_stat\<rparr>"

definition UnmapFile :: "WebResponse \<Rightarrow> WebResponse" where
  "UnmapFile r = r\<lparr>mmFile := None\<rparr>"

definition wp_Init :: "string \<Rightarrow> string \<Rightarrow> bool \<Rightarrow> int \<Rightarrow> WebResponse \<Rightarrow> WebResponse res" where
  "wp_Init srcDir path isKeepAlive code r =
     bind_res (assert_res (srcDir \<noteq> [])) (\<lambda>_.
       Inr ((if mmFile r \<noteq> None then UnmapFile r else r)\<lparr>wp_code := code, wp_isKeepAlive := isKeepAlive, wp_path := path,
          wp_srcDir := srcDir, mmFile := None, mmFileStat := zero_stat\<rparr>))"

definition FileLen :: "WebResponse \<Rightarrow> nat" where
  "FileLen r = st_size (mmFileStat r)"

section \<open>Printing\<close>

text \<open>The path the kernel is given, and \<open>stat\<close> into \<open>mmFileStat_\<close>, which a failed call leaves as it is.\<close>

definition full_path :: "WebResponse \<Rightarrow> string" where
  "full_path r = c_str (wp_srcDir r @ wp_path r)"

definition stat_into :: "web_fs \<Rightarrow> WebResponse \<Rightarrow> WebResponse" where
  "stat_into F r = (case wf_stat F (full_path r) of None \<Rightarrow> r | Some st \<Rightarrow> r\<lparr>mmFileStat := st\<rparr>)"

definition ErrorHtml :: "web_fs \<Rightarrow> WebResponse \<Rightarrow> WebResponse" where
  "ErrorHtml F r = (case CODE_PATH (wp_code r) of None \<Rightarrow> r | Some p \<Rightarrow> stat_into F (r\<lparr>wp_path := p\<rparr>))"

definition AddStateLine :: "Buffer \<times> WebResponse \<Rightarrow> (Buffer \<times> WebResponse) res" where
  "AddStateLine br =
     (case br of (buff, r) \<Rightarrow>
      case (case CODE_STATUS (wp_code r) of Some s \<Rightarrow> (s, r) | None \<Rightarrow> (''Bad Request'', r\<lparr>wp_code := 400\<rparr>)) of (status, r') \<Rightarrow>
        bind_res (Append (''HTTP/1.1 '' @ string_of_int (wp_code r') @ '' '' @ status @ crlf) buff) (\<lambda>b. Inr (b, r')))"

definition GetFileType :: "WebResponse \<Rightarrow> string" where
  "GetFileType r =
     (case find_last (CHR ''.'') (wp_path r) of
        None \<Rightarrow> ''text/plain''
      | Some idx \<Rightarrow> (case map_of SUFFIX_TYPE (drop idx (wp_path r)) of Some t \<Rightarrow> t | None \<Rightarrow> ''text/plain''))"

definition AddHeader :: "Buffer \<times> WebResponse \<Rightarrow> (Buffer \<times> WebResponse) res" where
  "AddHeader br =
     (case br of (buff, r) \<Rightarrow>
        bind_res (Append ''Connection: '' buff) (\<lambda>b1.
        bind_res (if wp_isKeepAlive r
                  then bind_res (Append (''keep-alive'' @ crlf) b1) (Append (''keep-alive: max=6, timeout=120'' @ crlf))
                  else Append (''close'' @ crlf) b1) (\<lambda>b2.
        bind_res (Append (''Content-type: '' @ GetFileType r @ crlf) b2) (\<lambda>b3. Inr (b3, r)))))"

definition error_body :: "int \<Rightarrow> string \<Rightarrow> string" where
  "error_body code message =
     ''<html><title>Error</title>'' @ ''<body bgcolor='' @ [CHR 0x22] @ ''ffffff'' @ [CHR 0x22] @ ''>''
     @ string_of_int code @ '' : '' @ (case CODE_STATUS code of Some s \<Rightarrow> s | None \<Rightarrow> ''Bad Request'') @ [CHR 0x0A]
     @ ''<p>'' @ message @ ''</p>'' @ ''<hr><em>TinyWebServer</em></body></html>''"

definition ErrorContent :: "string \<Rightarrow> Buffer \<times> WebResponse \<Rightarrow> (Buffer \<times> WebResponse) res" where
  "ErrorContent message br =
     (case br of (buff, r) \<Rightarrow>
        let body = error_body (wp_code r) message
        in bind_res (Append (''Content-length: '' @ string_of_nat (length body) @ crlf @ crlf) buff) (\<lambda>b1.
           bind_res (Append body b1) (\<lambda>b2. Inr (b2, r))))"

text \<open>
  The test for a failed \<open>mmap\<close> reads an \<open>int\<close> through the pointer it returned: for \<open>MAP_FAILED\<close> this is
  undefined, for a mapping it compares the first four bytes of the file with -1.
\<close>

definition starts_with_ones :: "string \<Rightarrow> bool" where
  "starts_with_ones f \<longleftrightarrow> take 4 f = replicate 4 (CHR 0xFF)"

definition AddContent :: "web_fs \<Rightarrow> Buffer \<times> WebResponse \<Rightarrow> (Buffer \<times> WebResponse) res" where
  "AddContent F br =
     (case br of (buff, r) \<Rightarrow>
        if \<not> wf_open F (full_path r) then ErrorContent ''File NotFound!'' (buff, r)
        else case wf_map F (full_path r) (FileLen r) of
          None \<Rightarrow> Inl Undefined_Behaviour
        | Some f \<Rightarrow>
            if starts_with_ones f then ErrorContent ''File NotFound!'' (buff, r)
            else bind_res (Append (''Content-length: '' @ string_of_nat (FileLen r) @ crlf @ crlf) buff)
                   (\<lambda>b. Inr (b, r\<lparr>mmFile := Some f\<rparr>)))"

definition choose_code :: "web_fs \<Rightarrow> WebResponse \<Rightarrow> WebResponse" where
  "choose_code F r =
     (let r1 = stat_into F r
      in if wf_stat F (full_path r) = None \<or> st_dir (mmFileStat r1) then r1\<lparr>wp_code := 404\<rparr>
         else if \<not> st_roth (mmFileStat r1) then r1\<lparr>wp_code := 403\<rparr>
         else if wp_code r1 = -1 then r1\<lparr>wp_code := 200\<rparr>
         else r1)"

definition MakeResponse :: "web_fs \<Rightarrow> Buffer \<times> WebResponse \<Rightarrow> (Buffer \<times> WebResponse) res" where
  "MakeResponse F br =
     (case br of (buff, r) \<Rightarrow>
        bind_res (AddStateLine (buff, ErrorHtml F (choose_code F r))) (\<lambda>br1.
        bind_res (AddHeader br1) (AddContent F)))"

section \<open>What is printed\<close>

text \<open>A mapping has the length asked for.\<close>

definition maps_ok :: "web_fs \<Rightarrow> bool" where
  "maps_ok F \<longleftrightarrow> (\<forall>p n f. wf_map F p n = Some f \<longrightarrow> length f = n)"

text \<open>The page that is answered with, and the lines before the length of the content.\<close>

definition answer_page :: "web_fs \<Rightarrow> WebResponse \<Rightarrow> WebResponse" where
  "answer_page F r =
     (let r1 = ErrorHtml F (choose_code F r) in if CODE_STATUS (wp_code r1) = None then r1\<lparr>wp_code := 400\<rparr> else r1)"

definition head_text :: "WebResponse \<Rightarrow> string" where
  "head_text r =
     ''HTTP/1.1 '' @ string_of_int (wp_code r) @ '' '' @ the (CODE_STATUS (wp_code r)) @ crlf
     @ ''Connection: '' @ (if wp_isKeepAlive r then ''keep-alive'' @ crlf @ ''keep-alive: max=6, timeout=120'' @ crlf else ''close'' @ crlf)
     @ ''Content-type: '' @ GetFileType r @ crlf"

text \<open>The file that is mapped for a page.\<close>

definition mapped_file :: "web_fs \<Rightarrow> WebResponse \<Rightarrow> string option" where
  "mapped_file F r =
     (if wf_open F (full_path r)
      then (case wf_map F (full_path r) (FileLen r) of Some f \<Rightarrow> if starts_with_ones f then None else Some f | None \<Rightarrow> None)
      else None)"

definition length_text :: "nat \<Rightarrow> string" where
  "length_text n = ''Content-length: '' @ string_of_nat n @ crlf @ crlf"

lemma stat_into_keeps [simp]:
  "mmFile (stat_into F r) = mmFile r" "wp_isKeepAlive (stat_into F r) = wp_isKeepAlive r" "wp_srcDir (stat_into F r) = wp_srcDir r"
  "wp_path (stat_into F r) = wp_path r" "wp_code (stat_into F r) = wp_code r"
  by (simp_all add: stat_into_def split: option.split)

lemma choose_code_keeps [simp]:
  "mmFile (choose_code F r) = mmFile r" "wp_isKeepAlive (choose_code F r) = wp_isKeepAlive r"
  "wp_srcDir (choose_code F r) = wp_srcDir r" "wp_path (choose_code F r) = wp_path r"
  by (simp_all add: choose_code_def Let_def)

lemma ErrorHtml_code [simp]: "wp_code (ErrorHtml F r) = wp_code r"
  by (simp add: ErrorHtml_def split: option.split)

lemma answer_page_keeps [simp]:
  "mmFile (answer_page F r) = mmFile r" "wp_isKeepAlive (answer_page F r) = wp_isKeepAlive r"
  "wp_srcDir (answer_page F r) = wp_srcDir r"
  by (simp_all add: answer_page_def ErrorHtml_def Let_def split: option.split)

lemma CODE_STATUS_400 [simp]: "CODE_STATUS 400 = Some ''Bad Request''"
  by (simp add: CODE_STATUS_def)

lemma AddHeader_ok:
  assumes "buf_ok b"
  shows "\<exists>b'. AddHeader (b, r) = Inr (b', r) \<and> buf_ok b' \<and> readable b' = readable b @ ''Connection: ''
     @ (if wp_isKeepAlive r then ''keep-alive'' @ crlf @ ''keep-alive: max=6, timeout=120'' @ crlf else ''close'' @ crlf)
     @ ''Content-type: '' @ GetFileType r @ crlf"
proof -
  obtain b1 where b1: "Append ''Connection: '' b = Inr b1" "buf_ok b1" "readable b1 = readable b @ ''Connection: ''"
    using Append_ok [OF assms] by blast
  let ?conn = "if wp_isKeepAlive r then ''keep-alive'' @ crlf @ ''keep-alive: max=6, timeout=120'' @ crlf else ''close'' @ crlf"
  have "\<exists>b2. (if wp_isKeepAlive r
      then bind_res (Append (''keep-alive'' @ crlf) b1) (Append (''keep-alive: max=6, timeout=120'' @ crlf))
      else Append (''close'' @ crlf) b1) = Inr b2 \<and> buf_ok b2 \<and> readable b2 = readable b1 @ ?conn"
  proof (cases "wp_isKeepAlive r")
    case True
    obtain c where c: "Append (''keep-alive'' @ crlf) b1 = Inr c" "buf_ok c" "readable c = readable b1 @ ''keep-alive'' @ crlf"
      using Append_ok [OF b1(2)] by blast
    obtain d where "Append (''keep-alive: max=6, timeout=120'' @ crlf) c = Inr d" "buf_ok d"
      "readable d = readable c @ ''keep-alive: max=6, timeout=120'' @ crlf"
      using Append_ok [OF c(2)] by blast
    with c True show ?thesis by simp
  next
    case False
    obtain c where "Append (''close'' @ crlf) b1 = Inr c" "buf_ok c" "readable c = readable b1 @ ''close'' @ crlf"
      using Append_ok [OF b1(2)] by blast
    with False show ?thesis by simp
  qed
  then obtain b2 where b2: "(if wp_isKeepAlive r
      then bind_res (Append (''keep-alive'' @ crlf) b1) (Append (''keep-alive: max=6, timeout=120'' @ crlf))
      else Append (''close'' @ crlf) b1) = Inr b2" "buf_ok b2" "readable b2 = readable b1 @ ?conn" by blast
  obtain b3 where "Append (''Content-type: '' @ GetFileType r @ crlf) b2 = Inr b3" "buf_ok b3"
    "readable b3 = readable b2 @ ''Content-type: '' @ GetFileType r @ crlf"
    using Append_ok [OF b2(2)] by blast
  with b1 b2 show ?thesis unfolding AddHeader_def prod.case by simp
qed

lemma head_ok:
  assumes "buf_ok b"
  shows "\<exists>b'. bind_res (AddStateLine (b, ErrorHtml F (choose_code F r))) AddHeader = Inr (b', answer_page F r)
    \<and> buf_ok b' \<and> readable b' = readable b @ head_text (answer_page F r)"
proof -
  let ?r = "answer_page F r"
  obtain s where s: "CODE_STATUS (wp_code ?r) = Some s"
    by (cases "CODE_STATUS (wp_code (ErrorHtml F (choose_code F r)))") (auto simp: answer_page_def Let_def)
  obtain b1 where b1: "Append (''HTTP/1.1 '' @ string_of_int (wp_code ?r) @ '' '' @ s @ crlf) b = Inr b1" "buf_ok b1"
    "readable b1 = readable b @ ''HTTP/1.1 '' @ string_of_int (wp_code ?r) @ '' '' @ s @ crlf"
    using Append_ok [OF assms] by blast
  have "AddStateLine (b, ErrorHtml F (choose_code F r)) = Inr (b1, ?r)"
    using s b1(1) by (auto simp: AddStateLine_def answer_page_def Let_def split: option.splits if_splits)
  then show ?thesis using AddHeader_ok [OF b1(2), of ?r] b1(3) s by (auto simp: head_text_def)
qed

lemma ErrorContent_ok:
  assumes "buf_ok b"
  shows "\<exists>b'. ErrorContent m (b, r) = Inr (b', r) \<and> buf_ok b'
    \<and> readable b' = readable b @ length_text (length (error_body (wp_code r) m)) @ error_body (wp_code r) m"
proof -
  let ?body = "error_body (wp_code r) m"
  obtain b1 where b1: "Append (length_text (length ?body)) b = Inr b1" "buf_ok b1" "readable b1 = readable b @ length_text (length ?body)"
    using Append_ok [OF assms] by blast
  obtain b2 where "Append ?body b1 = Inr b2" "buf_ok b2" "readable b2 = readable b1 @ ?body"
    using Append_ok [OF b1(2)] by blast
  with b1 show ?thesis by (simp add: ErrorContent_def Let_def length_text_def)
qed

lemma web_make:
  assumes "buf_ok b" "mmFile r = None" "maps_ok F"
    and "r' = answer_page F r"
  shows "case MakeResponse F (b, r) of
      Inl e \<Rightarrow> e = Undefined_Behaviour \<and> wf_open F (full_path r') \<and> wf_map F (full_path r') (FileLen r') = None
    | Inr (b', r'') \<Rightarrow>
        buf_ok b' \<and> r'' = r'\<lparr>mmFile := mapped_file F r'\<rparr>
        \<and> (\<exists>n body. readable b' = readable b @ head_text r' @ length_text n @ body
             \<and> (case mapped_file F r' of Some f \<Rightarrow> body = [] \<and> n = length f | None \<Rightarrow> n = length body))"
proof -
  obtain b1 where b1: "bind_res (AddStateLine (b, ErrorHtml F (choose_code F r))) AddHeader = Inr (b1, r')"
      "buf_ok b1" "readable b1 = readable b @ head_text r'"
    using head_ok [OF assms(1), of F r] assms(4) by auto
  then have m: "MakeResponse F (b, r) = AddContent F (b1, r')"
    by (cases "AddStateLine (b, ErrorHtml F (choose_code F r))") (auto simp: MakeResponse_def)
  have none: "mmFile r' = None" using assms(2,4) by simp
  obtain b2 where b2: "ErrorContent ''File NotFound!'' (b1, r') = Inr (b2, r')" "buf_ok b2"
      "readable b2 = readable b1 @ length_text (length (error_body (wp_code r') ''File NotFound!'')) @ error_body (wp_code r') ''File NotFound!''"
    using ErrorContent_ok [OF b1(2), of "''File NotFound!''" r'] by (elim exE conjE)
  show ?thesis
  proof (cases "wf_open F (full_path r') \<longrightarrow> (\<exists>f. wf_map F (full_path r') (FileLen r') = Some f \<and> starts_with_ones f)")
    case True
    then have "MakeResponse F (b, r) = Inr (b2, r')" "mapped_file F r' = None" using m b2(1) by (auto simp: AddContent_def mapped_file_def)
    then show ?thesis using b2(2,3) b1(3) none by (simp, intro exI [of _ "error_body (wp_code r') ''File NotFound!''"] refl)
  next
    case False
    then have op: "wf_open F (full_path r')" by simp
    show ?thesis
    proof (cases "wf_map F (full_path r') (FileLen r')")
      case None
      then show ?thesis using m op by (simp add: AddContent_def)
    next
      case (Some f)
      obtain b2 where "Append (length_text (FileLen r')) b1 = Inr b2" "buf_ok b2" "readable b2 = readable b1 @ length_text (FileLen r')"
        using Append_ok [OF b1(2)] by blast
      with Some False op m b1(3) assms(3) show ?thesis
        by (auto simp: AddContent_def length_text_def maps_ok_def mapped_file_def)
    qed
  qed
qed

text \<open>
  C24: What \<open>MakeResponse\<close> puts into the buffer, in every case: status line and headers of the page it
  answers with, and a content length that is the length of what follows: of the mapped file, or of
  the error page in the buffer. It faults exactly when the file opens and cannot be mapped (which the
  code means to test, by reading through the failed pointer): this is so for every empty file.
\<close>

theorem web_response_framing:
  assumes "buf_ok b" "mmFile r = None" "maps_ok F"
    and "r' = answer_page F r"
  shows "case MakeResponse F (b, r) of
      Inl e \<Rightarrow> e = Undefined_Behaviour \<and> wf_open F (full_path r') \<and> wf_map F (full_path r') (FileLen r') = None
    | Inr (b', r'') \<Rightarrow>
        buf_ok b' \<and> r'' = r'\<lparr>mmFile := mapped_file F r'\<rparr>
        \<and> (\<exists>n body. readable b' = readable b @ head_text r' @ length_text n @ body
             \<and> (case mapped_file F r' of Some f \<Rightarrow> body = [] \<and> n = length f | None \<Rightarrow> n = length body))"
  by (rule web_make [OF assms])

definition some_fs :: web_fs where
  "some_fs = \<lparr>wf_stat = (\<lambda>p. if p = ''/w/a.html'' then Some \<lparr>st_dir = False, st_roth = True, st_size = 2\<rparr> else None),
     wf_open = (\<lambda>p. p = ''/w/a.html''), wf_map = (\<lambda>p n. if p = ''/w/a.html'' \<and> n = 2 then Some ''hi'' else None)\<rparr>"

definition some_response :: WebResponse where
  "some_response = WebResponse_new\<lparr>wp_code := 200, wp_path := ''/a.html'', wp_srcDir := ''/w''\<rparr>"

lemma some_page: "answer_page some_fs some_response
    = some_response\<lparr>mmFileStat := \<lparr>st_dir = False, st_roth = True, st_size = 2\<rparr>\<rparr>"
  by (simp add: answer_page_def some_response_def some_fs_def WebResponse_new_def choose_code_def stat_into_def full_path_def
      c_str_def ErrorHtml_def CODE_PATH_def CODE_STATUS_def)

lemma some_map:
  "maps_ok some_fs" "mmFile some_response = None"
  "wf_map some_fs (full_path (answer_page some_fs some_response)) (FileLen (answer_page some_fs some_response)) = Some ''hi''"
  by (auto simp: some_page) (auto simp: some_fs_def maps_ok_def some_response_def WebResponse_new_def full_path_def c_str_def FileLen_def split: if_splits)

theorem web_response_framing_witness:
  "case MakeResponse some_fs (Buffer_new 1024, some_response) of
      Inl e \<Rightarrow> False
    | Inr (b', r'') \<Rightarrow> buf_ok b' \<and> (\<exists>n body. readable b' = head_text (answer_page some_fs some_response) @ length_text n @ body)"
  using web_response_framing [OF Buffer_new_ok(1) [of 1024] some_map(2,1) refl] some_map(3)
  by (cases "MakeResponse some_fs (Buffer_new 1024, some_response)") auto

end
