(* ===== verification/Web_Conn.thy ===== *)
theory Web_Conn
  imports Web_Request Web_Response
begin

text \<open>
  A connection of the older server (\<open>code/http/httpconn.cpp\<close>): it reads into one \<open>Buffer\<close>, parses
  (\<open>Web_Request\<close>), has the response printed into another (\<open>Web_Response\<close>), and sends the second buffer and
  the mapped file with \<open>writev\<close>. The answers of the kernel to successive \<open>readv\<close> and \<open>writev\<close> calls are lists;
  a call that needs more answers than the list has gives \<open>None\<close>.
\<close>

section \<open>The object\<close>

text \<open>
  The two areas of \<open>iov_\<close>: the base of the first is an offset into the vector of \<open>writeBuff_\<close>, that of the
  second into the mapped file. The lengths are not initialised by the constructor.
\<close>

record 'a HttpConn =
  hc_fd :: int
  hc_addr :: "'a option"
  hc_isClose :: bool
  iovCnt :: nat
  iov0_base :: nat
  iov0_len :: "nat option"
  iov1_base :: nat
  iov1_len :: "nat option"
  readBuff :: Buffer
  writeBuff :: Buffer
  hc_request :: WebRequest
  hc_response :: WebResponse

definition HttpConn_new :: "'a HttpConn" where
  "HttpConn_new = \<lparr>hc_fd = -1, hc_addr = None, hc_isClose = True, iovCnt = 0, iov0_base = 0, iov0_len = None, iov1_base = 0,
     iov1_len = None, readBuff = Buffer_new 1024, writeBuff = Buffer_new 1024, hc_request = wr_Init, hc_response = WebResponse_new\<rparr>"

text \<open>\<open>userCount\<close> is the number of open connections, a static member.\<close>

definition hc_init :: "int \<Rightarrow> 'a \<Rightarrow> int \<Rightarrow> 'a HttpConn \<Rightarrow> (int \<times> 'a HttpConn) res" where
  "hc_init fd addr userCount c =
     bind_res (assert_res (fd > 0)) (\<lambda>_.
       Inr (userCount + 1,
         c\<lparr>hc_addr := Some addr, hc_fd := fd, writeBuff := RetrieveAll (writeBuff c), readBuff := RetrieveAll (readBuff c), hc_isClose := False\<rparr>))"

text \<open>\<open>Close\<close> gives the descriptors it closes.\<close>

definition hc_Close :: "int \<Rightarrow> 'a HttpConn \<Rightarrow> int list \<times> int \<times> 'a HttpConn" where
  "hc_Close userCount c =
     (let c1 = c\<lparr>hc_response := UnmapFile (hc_response c)\<rparr>
      in if \<not> hc_isClose c1 then ([hc_fd c1], userCount - 1, c1\<lparr>hc_isClose := True\<rparr>) else ([], userCount, c1))"

fun hc_read :: "bool \<Rightarrow> (int + string) list \<Rightarrow> 'a HttpConn \<Rightarrow> ((int + nat) \<times> 'a HttpConn) wres" where
  "hc_read isET [] c = None"
| "hc_read isET (outcome # os) c =
     (case ReadFd outcome (readBuff c) of
        Inl f \<Rightarrow> Some (Inl f)
      | Inr (len, b) \<Rightarrow>
          let c1 = c\<lparr>readBuff := b\<rparr>
          in if (case len of Inl _ \<Rightarrow> True | Inr n \<Rightarrow> n = 0) then Some (Inr (len, c1))
             else if isET then hc_read isET os c1
             else Some (Inr (len, c1)))"

section \<open>Sending\<close>

text \<open>A \<open>size_t\<close> as an \<open>int\<close>.\<close>

definition int_of_size :: "nat \<Rightarrow> int" where
  "int_of_size n = (let m = int n mod 2 ^ 32 in if m < 2 ^ 31 then m else m - 2 ^ 32)"

definition iov_total :: "'a HttpConn \<Rightarrow> nat res" where
  "iov_total c =
     (case (iov0_len c, iov1_len c) of (Some l0, Some l1) \<Rightarrow> Inr (l0 + l1) | _ \<Rightarrow> Inl Undefined_Behaviour)"

definition ToWriteBytes :: "'a HttpConn \<Rightarrow> int res" where
  "ToWriteBytes c = bind_res (iov_total c) (\<lambda>n. Inr (int_of_size n))"

text \<open>The bytes \<open>writev\<close> is offered.\<close>

definition iov0_bytes :: "'a HttpConn \<Rightarrow> string" where
  "iov0_bytes c = (case iov0_len c of Some l \<Rightarrow> take l (drop (iov0_base c) (vec (writeBuff c))) | None \<Rightarrow> [])"

definition iov1_bytes :: "'a HttpConn \<Rightarrow> string" where
  "iov1_bytes c =
     (case (iov1_len c, mmFile (hc_response c)) of (Some l, Some f) \<Rightarrow> take l (drop (iov1_base c) f) | _ \<Rightarrow> [])"

definition pending :: "'a HttpConn \<Rightarrow> string" where
  "pending c = iov0_bytes c @ (if iovCnt c = 2 then iov1_bytes c else [])"

text \<open>After a \<open>writev\<close> that took \<open>len\<close> bytes, \<open>len > 0\<close>.\<close>

definition advance_iov :: "nat \<Rightarrow> 'a HttpConn \<Rightarrow> 'a HttpConn res" where
  "advance_iov len c =
     (case (iov0_len c, iov1_len c) of
        (Some l0, Some l1) \<Rightarrow>
          if l0 < len
          then let c1 = c\<lparr>iov1_base := iov1_base c + (len - l0), iov1_len := Some (size_sub l1 (len - l0))\<rparr>
               in Inr (if l0 \<noteq> 0 then c1\<lparr>writeBuff := RetrieveAll (writeBuff c), iov0_len := Some 0\<rparr> else c1)
          else bind_res (Retrieve len (writeBuff c)) (\<lambda>b.
                 Inr (c\<lparr>iov0_base := iov0_base c + len, iov0_len := Some (l0 - len), writeBuff := b\<rparr>))
      | _ \<Rightarrow> Inl Undefined_Behaviour)"

text \<open>
  The kernel's answer to a \<open>writev\<close>: an error, or the room in the socket, of which the call fills as much
  as it has bytes. The result has the value returned and the bytes sent.
\<close>

fun hc_write :: "bool \<Rightarrow> (int + nat) list \<Rightarrow> 'a HttpConn \<Rightarrow> ((int + nat) \<times> string \<times> 'a HttpConn) wres" where
  "hc_write isET [] c = None"
| "hc_write isET (Inl errno # os) c = Some (Inr (Inl errno, [], c))"
| "hc_write isET (Inr room # os) c =
     (let len = min room (length (pending c)); sent = take len (pending c)
      in if len = 0 then Some (Inr (Inr 0, [], c))
         else (case iov_total c of
           Inl f \<Rightarrow> Some (Inl f)
         | Inr tot \<Rightarrow>
             if tot = 0 then Some (Inr (Inr len, sent, c))
             else (case advance_iov len c of
               Inl f \<Rightarrow> Some (Inl f)
             | Inr c1 \<Rightarrow>
                 (case ToWriteBytes c1 of
                    Inl f \<Rightarrow> Some (Inl f)
                  | Inr n \<Rightarrow>
                      if isET \<or> 10240 < n
                      then (case hc_write isET os c1 of
                              Some (Inr (r, later, c2)) \<Rightarrow> Some (Inr (r, sent @ later, c2))
                            | x \<Rightarrow> x)
                      else Some (Inr (Inr len, sent, c1))))))"

section \<open>Answering\<close>

definition hc_process :: "'e verifier \<Rightarrow> web_fs \<Rightarrow> string \<Rightarrow> 'a HttpConn \<Rightarrow> 'e \<Rightarrow> (bool \<times> 'a HttpConn \<times> 'e) wres" where
  "hc_process verify F srcDir c e =
     (let c0 = c\<lparr>hc_request := wr_Init\<rparr>
      in if ReadableBytes (readBuff c0) \<le> 0 then Some (Inr (False, c0, e))
         else bind_wres (wr_parse verify wr_Init (readBuff c0) e) (\<lambda>(good, r, b, e').
           let c1 = c0\<lparr>hc_request := r, readBuff := b\<rparr>
           in bind_wres (Some (if good then wp_Init srcDir (wr_path r) (wr_IsKeepAlive r) 200 (hc_response c1)
                               else wp_Init srcDir (wr_path r) False 400 (hc_response c1))) (\<lambda>p.
              bind_wres (Some (MakeResponse F (writeBuff c1, p))) (\<lambda>(wb, p').
                let c2 = c1\<lparr>hc_response := p', writeBuff := wb, iov0_base := Peek wb, iov0_len := Some (ReadableBytes wb), iovCnt := 1\<rparr>
                in Some (Inr (True,
                     if FileLen p' > 0 \<and> mmFile p' \<noteq> None
                     then c2\<lparr>iov1_base := 0, iov1_len := Some (FileLen p'), iovCnt := 2\<rparr>
                     else c2, e'))))))"

section \<open>Sending is exact\<close>

text \<open>
  The areas of \<open>iov_\<close> are what is left of the buffer and of the file. (After an answer without a file on
  a new connection the second length is not initialised; the invariant asks for a value.)
\<close>

definition iov_ok :: "'a HttpConn \<Rightarrow> bool" where
  "iov_ok c \<longleftrightarrow> buf_ok (writeBuff c) \<and> (\<exists>l0 l1. iov0_len c = Some l0 \<and> iov1_len c = Some l1
     \<and> l0 = length (readable (writeBuff c)) \<and> (l0 \<noteq> 0 \<longrightarrow> iov0_base c = readPos (writeBuff c))
     \<and> (if iovCnt c = 2 then \<exists>f. mmFile (hc_response c) = Some f \<and> iov1_base c + l1 = length f else l1 = 0))"

lemma iov0_readable: "iov_ok c \<Longrightarrow> iov0_bytes c = readable (writeBuff c)"
proof -
  assume ok: "iov_ok c"
  have r: "take (length (readable b)) (drop (readPos b) (vec b)) = readable b" for b by (simp add: readable_def min_def)
  show ?thesis
  proof (cases "readable (writeBuff c) = []")
    case True
    then show ?thesis using ok by (auto simp: iov_ok_def iov0_bytes_def)
  next
    case False
    then have "iov0_base c = readPos (writeBuff c)" "iov0_len c = Some (length (readable (writeBuff c)))"
      using ok unfolding iov_ok_def by auto
    then show ?thesis using r by (simp add: iov0_bytes_def)
  qed
qed

lemma iov_total_pending: "iov_ok c \<Longrightarrow> iov_total c = Inr (length (pending c))"
  using iov0_readable [of c] by (auto simp: iov_ok_def iov_total_def pending_def iov1_bytes_def split: if_splits)

lemma advance_iov_ok:
  assumes "iov_ok c" "0 < len" "len \<le> length (pending c)"
  shows "\<exists>c'. advance_iov len c = Inr c' \<and> iov_ok c' \<and> pending c' = drop len (pending c)
    \<and> readBuff c' = readBuff c \<and> hc_request c' = hc_request c \<and> hc_response c' = hc_response c"
proof -
  obtain l0 l1 where l: "iov0_len c = Some l0" "iov1_len c = Some l1" "l0 = length (readable (writeBuff c))" "buf_ok (writeBuff c)"
    "l0 \<noteq> 0 \<longrightarrow> iov0_base c = readPos (writeBuff c)"
    "if iovCnt c = 2 then \<exists>f. mmFile (hc_response c) = Some f \<and> iov1_base c + l1 = length f else l1 = 0"
    using assms(1) unfolding iov_ok_def by blast
  have p0: "iov0_bytes c = readable (writeBuff c)" using iov0_readable [OF assms(1)] .
  show ?thesis
  proof (cases "l0 < len")
    case True
    have two: "iovCnt c = 2" using True assms(3) p0 l(3) by (auto simp: pending_def split: if_splits)
    then obtain f where f: "mmFile (hc_response c) = Some f" "iov1_base c + l1 = length f" using l(6) by auto
    have len1: "len - l0 \<le> l1" using assms(3) two p0 l f by (simp add: pending_def iov1_bytes_def)
    let ?c1 = "c\<lparr>iov1_base := iov1_base c + (len - l0), iov1_len := Some (l1 - (len - l0))\<rparr>"
    let ?c = "if l0 \<noteq> 0 then ?c1\<lparr>writeBuff := RetrieveAll (writeBuff c), iov0_len := Some 0\<rparr> else ?c1"
    have a: "advance_iov len c = Inr ?c" using l True len1 by (simp add: advance_iov_def Let_def)
    have ok: "iov_ok ?c" using l two f len1 by (auto simp: iov_ok_def RetrieveAll_def buf_ok_def)
    have "drop len (pending c) = drop (len - l0) (iov1_bytes c)" using p0 l(3) True two by (simp add: pending_def)
    also have "\<dots> = iov1_bytes ?c"
      using l f len1 by (simp add: iov1_bytes_def drop_take) (simp add: add.commute)
    also have "\<dots> = pending ?c" using two iov0_readable [OF ok] l(3) by (auto simp: pending_def)
    finally have p: "pending ?c = drop len (pending c)" by simp
    from a ok p show ?thesis by (intro exI [of _ ?c]) simp
  next
    case False
    then have le: "len \<le> ReadableBytes (writeBuff c)" using l(3) length_readable [OF l(4)] by simp
    note r = Retrieve_ok [OF l(4) le]
    let ?b = "(writeBuff c)\<lparr>readPos := readPos (writeBuff c) + len\<rparr>"
    let ?c = "c\<lparr>iov0_base := iov0_base c + len, iov0_len := Some (l0 - len), writeBuff := ?b\<rparr>"
    have a: "advance_iov len c = Inr ?c" using l False r(1) by (simp add: advance_iov_def)
    have ok: "iov_ok ?c" using l r False assms(2) by (auto simp: iov_ok_def)
    have "iov1_bytes ?c = iov1_bytes c" by (simp add: iov1_bytes_def split: option.split)
    then have p: "pending ?c = drop len (pending c)"
      using iov0_readable [OF ok] r(3) p0 False l(3) by (simp add: pending_def)
    from a ok p show ?thesis by (intro exI [of _ ?c]) simp
  qed
qed

text \<open>One turn of the loop that sends something: its bytes are the front of what was pending.\<close>

lemma hc_write_turn:
  assumes "iov_ok c" "len = min room (length (pending c))" "len \<noteq> 0"
  shows "\<exists>c1. iov_ok c1 \<and> pending c = take len (pending c) @ pending c1 \<and> take len (pending c) \<noteq> []
    \<and> readBuff c1 = readBuff c \<and> hc_request c1 = hc_request c \<and> hc_response c1 = hc_response c
    \<and> hc_write isET (Inr room # os) c
      = (if isET \<or> 10240 < int_of_size (length (pending c1))
         then (case hc_write isET os c1 of Some (Inr (r, later, c2)) \<Rightarrow> Some (Inr (r, take len (pending c) @ later, c2)) | x \<Rightarrow> x)
         else Some (Inr (Inr len, take len (pending c), c1)))"
proof -
  have ne: "pending c \<noteq> []" "len \<le> length (pending c)" using assms(2,3) by auto
  obtain c1 where c1: "advance_iov len c = Inr c1" "iov_ok c1" "pending c1 = drop len (pending c)"
      "readBuff c1 = readBuff c" "hc_request c1 = hc_request c" "hc_response c1 = hc_response c"
    using advance_iov_ok [OF assms(1), of len] assms(3) ne(2) by auto
  show ?thesis
    using c1 assms(3) ne iov_total_pending [OF assms(1)] iov_total_pending [OF c1(2)]
    by (intro exI [of _ c1]) (simp add: Let_def ToWriteBytes_def flip: assms(2))
qed

lemma hc_write_prefix:
  assumes "iov_ok c" "hc_write isET os c = Some x"
  shows "\<exists>r sent c'. x = Inr (r, sent, c') \<and> pending c = sent @ pending c' \<and> iov_ok c'
    \<and> readBuff c' = readBuff c \<and> hc_request c' = hc_request c \<and> hc_response c' = hc_response c
    \<and> (\<forall>n. r = Inr n \<longrightarrow> sent = [] \<longrightarrow> n = 0)"
  using assms
proof (induction os arbitrary: c x)
  case (Cons outcome os)
  show ?case
  proof (cases outcome)
    case (Inl errno)
    then show ?thesis using Cons.prems by auto
  next
    case (Inr room)
    define len where "len = min room (length (pending c))"
    show ?thesis
    proof (cases "len = 0")
      case True
      then show ?thesis using Cons.prems Inr by (auto simp: len_def Let_def)
    next
      case False
      obtain c1 where c1: "iov_ok c1" "pending c = take len (pending c) @ pending c1" "take len (pending c) \<noteq> []"
          "readBuff c1 = readBuff c" "hc_request c1 = hc_request c" "hc_response c1 = hc_response c"
        and w: "hc_write isET (outcome # os) c
          = (if isET \<or> 10240 < int_of_size (length (pending c1))
             then (case hc_write isET os c1 of Some (Inr (r, later, c2)) \<Rightarrow> Some (Inr (r, take len (pending c) @ later, c2)) | x \<Rightarrow> x)
             else Some (Inr (Inr len, take len (pending c), c1)))"
        using hc_write_turn [OF Cons.prems(1) len_def False] Inr by blast
      show ?thesis
      proof (cases "isET \<or> 10240 < int_of_size (length (pending c1))")
        case True
        then obtain y where y: "hc_write isET os c1 = Some y" using w Cons.prems(2) by (cases "hc_write isET os c1") auto
        then obtain r later c2 where m: "y = Inr (r, later, c2)" "pending c1 = later @ pending c2" "iov_ok c2"
          "readBuff c2 = readBuff c1" "hc_request c2 = hc_request c1" "hc_response c2 = hc_response c1"
          using Cons.IH [OF c1(1)] by blast
        then have "x = Inr (r, take len (pending c) @ later, c2)" using w True y Cons.prems(2) by simp
        moreover have "pending c = (take len (pending c) @ later) @ pending c2" using c1(2) m(2) by simp
        ultimately show ?thesis using m c1(3-6) by auto
      next
        case nt: False
        then have "x = Inr (Inr len, take len (pending c), c1)" using w Cons.prems(2) by simp
        then show ?thesis using c1 by blast
      qed
    qed
  qed
qed simp

text \<open>
  C11: However the kernel cuts it up, what is sent is the front of what was pending, and the rest is
  pending afterwards: no byte of the answer is lost, repeated or moved, across the boundary between
  the buffer and the file too; nothing but the buffer and the areas changes, and no assertion fails.
\<close>

theorem write_sends_prefix:
  assumes "iov_ok c" "hc_write isET os c = Some x"
  shows "\<exists>r sent c'. x = Inr (r, sent, c') \<and> pending c = sent @ pending c' \<and> iov_ok c'
    \<and> readBuff c' = readBuff c \<and> hc_request c' = hc_request c \<and> hc_response c' = hc_response c
    \<and> (\<forall>n. r = Inr n \<longrightarrow> sent = [] \<longrightarrow> n = 0)"
  using hc_write_prefix [OF assms] .

definition some_conn :: "unit HttpConn" where
  "some_conn = HttpConn_new\<lparr>iovCnt := 2, iov0_len := Some 2, iov1_len := Some 3,
     writeBuff := \<lparr>vec = ''ab'', readPos = 0, writePos = 2\<rparr>, hc_response := WebResponse_new\<lparr>mmFile := Some ''cde''\<rparr>\<rparr>"

lemma some_conn_ok: "iov_ok some_conn" "pending some_conn = ''abcde''"
  by (simp_all add: some_conn_def HttpConn_new_def iov_ok_def buf_ok_def readable_def pending_def iov0_bytes_def iov1_bytes_def)

theorem write_sends_prefix_witness:
  "\<exists>x r sent c'. hc_write True [Inr 3, Inr 9, Inr 9] some_conn = Some x \<and> x = Inr (r, sent, c') \<and> ''abcde'' = sent @ pending c'"
proof -
  have "(case hc_write True [Inr 3, Inr 9, Inr 9] some_conn of None \<Rightarrow> False | Some _ \<Rightarrow> True)" by code_simp
  then obtain x where x: "hc_write True [Inr 3, Inr 9, Inr 9] some_conn = Some x" by (auto split: option.splits)
  from write_sends_prefix [OF some_conn_ok(1) x] obtain r sent c' where "x = Inr (r, sent, c')" "pending some_conn = sent @ pending c'"
    by blast
  with x some_conn_ok(2) show ?thesis by (intro exI [of _ x] exI [of _ r] exI [of _ sent] exI [of _ c']) simp
qed

section \<open>Answers\<close>

lemma hc_read_segments:
  assumes "\<forall>seg \<in> set segs. seg \<noteq> [] \<and> length seg \<le> extra_buff_size" "buf_ok (readBuff c)"
  shows "\<exists>b. hc_read True (map Inr segs @ [Inl errno]) c = Some (Inr (Inl errno, c\<lparr>readBuff := b\<rparr>))
    \<and> buf_ok b \<and> readable b = readable (readBuff c) @ concat segs"
  using assms
proof (induction segs arbitrary: c)
  case Nil
  then show ?case by (intro exI [of _ "readBuff c"]) (simp add: ReadFd_def)
next
  case (Cons seg segs)
  obtain b1 where b1: "ReadFd (Inr seg) (readBuff c) = Inr (Inr (length seg), b1)" "buf_ok b1" "readable b1 = readable (readBuff c) @ seg"
    using ReadFd_ok [OF Cons.prems(2), of seg] Cons.prems(1) by auto
  obtain b where "hc_read True (map Inr segs @ [Inl errno]) (c\<lparr>readBuff := b1\<rparr>)
      = Some (Inr (Inl errno, c\<lparr>readBuff := b1\<rparr>\<lparr>readBuff := b\<rparr>))" "buf_ok b" "readable b = readable b1 @ concat segs"
    using Cons.IH [of "c\<lparr>readBuff := b1\<rparr>"] b1(2) Cons.prems(1) by auto
  then show ?case using b1 Cons.prems(1) by (intro exI [of _ b]) simp
qed

text \<open>The response object that \<open>process\<close> sets up for a parsed request.\<close>

definition start_response :: "string \<Rightarrow> bool \<Rightarrow> WebRequest \<Rightarrow> WebResponse" where
  "start_response srcDir good r = \<lparr>wp_code = (if good then 200 else 400), wp_isKeepAlive = (good \<and> wr_IsKeepAlive r), wp_path = wr_path r,
     wp_srcDir = srcDir, mmFile = None, mmFileStat = zero_stat\<rparr>"

lemma wp_Init_start:
  "srcDir \<noteq> [] \<Longrightarrow> (if good then wp_Init srcDir (wr_path r) (wr_IsKeepAlive r) 200 p else wp_Init srcDir (wr_path r) False 400 p)
     = Inr (start_response srcDir good r)"
  by (cases p) (simp add: wp_Init_def UnmapFile_def start_response_def)

lemma process_framed:
  assumes "buf_ok (readBuff c)" "readable (readBuff c) \<noteq> []" "buf_ok (writeBuff c)" "readable (writeBuff c) = []"
    and "maps_ok F" "srcDir \<noteq> []" "wr_parse verify wr_Init (readBuff c) e = Some (Inr (good, r, b, e'))"
    and "p = answer_page F (start_response srcDir good r)"
    and "\<not> (wf_open F (full_path p) \<and> wf_map F (full_path p) (FileLen p) = None)"
  shows "\<exists>c' body. hc_process verify F srcDir c e = Some (Inr (True, c', e'))
    \<and> readBuff c' = b \<and> hc_request c' = r \<and> pending c' = head_text p @ length_text (length body) @ body
    \<and> hc_response c' = p\<lparr>mmFile := mapped_file F p\<rparr> \<and> (\<forall>f. mapped_file F p = Some f \<longrightarrow> body = f)
    \<and> (iov1_len c = Some 0 \<or> (\<exists>f. mapped_file F p = Some f \<and> f \<noteq> []) \<longrightarrow> iov_ok c')"
proof -
  have mm: "mmFile (start_response srcDir good r) = None" by (simp add: start_response_def)
  obtain wb p' where m: "MakeResponse F (writeBuff c, start_response srcDir good r) = Inr (wb, p')"
    using web_make [OF assms(3) mm assms(5,8)] assms(9) by (auto split: sum.splits)
  then obtain n body where wb: "buf_ok wb" "p' = p\<lparr>mmFile := mapped_file F p\<rparr>" "readable wb = head_text p @ length_text n @ body"
    "case mapped_file F p of Some f \<Rightarrow> body = [] \<and> n = length f | None \<Rightarrow> n = length body"
    using web_make [OF assms(3) mm assms(5,8)] assms(4) by auto
  let ?c2 = "c\<lparr>hc_request := r, readBuff := b, hc_response := p', writeBuff := wb, iov0_base := Peek wb, iov0_len := Some (ReadableBytes wb), iovCnt := 1\<rparr>"
  let ?c = "if FileLen p' > 0 \<and> mmFile p' \<noteq> None then ?c2\<lparr>iov1_base := 0, iov1_len := Some (FileLen p'), iovCnt := 2\<rparr> else ?c2"
  have rd: "ReadableBytes (readBuff c) \<noteq> 0" using length_readable [OF assms(1)] assms(2) by (metis length_0_conv)
  have pr: "hc_process verify F srcDir c e = Some (Inr (True, ?c, e'))"
    using rd assms(7) m wp_Init_start [OF assms(6), of good r "hc_response c"]
    by (cases good) (simp_all add: hc_process_def Let_def del: buf_ok_sizes)
  have i0: "iov0_bytes ?c = readable wb" by (simp add: iov0_bytes_def readable_def Peek_def wb(1))
  show ?thesis
  proof (cases "mapped_file F p")
    case None
    then have "pending ?c = head_text p @ length_text (length body) @ body" using i0 wb by (simp add: pending_def)
    moreover have "iov1_len c = Some 0 \<longrightarrow> iov_ok ?c" using None wb(1,2) by (auto simp: iov_ok_def Peek_def)
    ultimately show ?thesis using pr None wb(2) by (intro exI [of _ ?c] exI [of _ body]) auto
  next
    case (Some f)
    then have f: "body = []" "n = length f" "mmFile p' = Some f" using wb(2,4) by auto
    have "FileLen p = length f" using Some assms(5)
      by (auto simp: mapped_file_def maps_ok_def split: if_splits option.splits)
    then have len: "FileLen p' = length f" using wb(2) by (simp add: FileLen_def)
    have i1: "iov1_bytes ?c = f" if "f \<noteq> []" using f(3) len that by (simp add: iov1_bytes_def)
    have "pending ?c = head_text p @ length_text (length f) @ f" using i0 i1 f wb(3) len by (cases "f = []") (simp_all add: pending_def)
    moreover have "iov1_len c = Some 0 \<or> f \<noteq> [] \<longrightarrow> iov_ok ?c" using f(3) len wb(1) by (auto simp: iov_ok_def Peek_def)
    ultimately show ?thesis using pr Some wb(2) by (intro exI [of _ ?c] exI [of _ f]) auto
  qed
qed


lemma some_file:
  "read_request ''GET'' ''/a.html'' ''1.1'' [] = wr_Init\<lparr>wr_method := ''GET'', wr_path := ''/a.html'', wr_version := ''1.1'', wr_state := FINISH\<rparr>"
  "wf_stat some_fs ''/w/a.html'' = Some \<lparr>st_dir = False, st_roth = True, st_size = 2\<rparr>"
  "wf_open some_fs ''/w/a.html''" "wf_map some_fs ''/w/a.html'' 2 = Some ''hi''"
  by (simp_all add: read_request_def ParsePath_def wr_Init_def DEFAULT_HTML_def some_fs_def)


text \<open>
  A request with a body is answered twice. \<open>process\<close> leaves the body in the read buffer, and on a
  connection that is kept alive the server calls it again after the answer is sent: the body is
  taken for a request line, refused, and a second answer made, with an error status and closing the
  connection.
\<close>

theorem body_answered_again:
  fixes c :: "'a HttpConn"
  assumes "buf_ok (readBuff c)" "readable (readBuff c) = print_web_request m path v hs body"
    and "buf_ok (writeBuff c)" "readable (writeBuff c) = []"
    and "CHR '' '' \<notin> set (m @ path @ v)" "CHR 0x0D \<notin> set (m @ path @ v)" "\<forall>h \<in> set hs. header_ok h"
    and "body \<noteq> []" "CHR 0x0D \<notin> set body" "match_request_line body = None" "maps_ok F" "srcDir \<noteq> []"
    and "ParsePost verify ((read_request m path v hs)\<lparr>wr_state := BODY, wr_body := body\<rparr>) e = Some (Inr (r, e'))"
    and "p = answer_page F (start_response srcDir True (r\<lparr>wr_state := FINISH\<rparr>))"
    and "\<not> (wf_open F (full_path p) \<and> wf_map F (full_path p) (FileLen p) = None)"
    and "q = answer_page F (start_response srcDir False wr_Init)"
    and "\<not> (wf_open F (full_path q) \<and> wf_map F (full_path q) (FileLen q) = None)"
  shows "\<exists>c1. hc_process verify F srcDir c e = Some (Inr (True, c1, e')) \<and> readable (readBuff c1) = body
    \<and> (\<forall>(c2 :: 'a HttpConn) e2. readBuff c2 = readBuff c1 \<longrightarrow> buf_ok (writeBuff c2) \<longrightarrow> readable (writeBuff c2) = []
         \<longrightarrow> (\<exists>c3. hc_process verify F srcDir c2 e2 = Some (Inr (True, c3, e2)) \<and> readBuff c3 = readBuff c1
               \<and> wp_code (hc_response c3) \<noteq> 200 \<and> \<not> wr_IsKeepAlive (hc_request c3)))"
proof -
  obtain b where b: "wr_parse verify wr_Init (readBuff c) e = Some (Inr (True, r\<lparr>wr_state := FINISH\<rparr>, b, e'))" "buf_ok b" "readable b = body"
    using wr_parse_whole [OF assms(1,2,5-7,9), of verify e] assms(8,13) by auto
  have ne: "readable (readBuff c) \<noteq> []" using assms(2) by (simp add: print_web_request_def)
  obtain c1 where c1: "hc_process verify F srcDir c e = Some (Inr (True, c1, e'))" "readBuff c1 = b"
    using process_framed [OF assms(1) ne assms(3,4,11,12) b(1) assms(14,15)] by blast
  have bad: "wr_parse verify wr_Init b e2 = Some (Inr (False, wr_Init, b, e2))" for e2
  proof -
    have "parse_line verify (length body) body wr_Init e2 = Some (Inr (False, wr_Init, e2))"
      using assms(10) by (simp add: parse_line_def ParseRequestLine_def wr_Init_def)
    moreover have "ReadableBytes b \<noteq> 0" using length_readable [OF b(2)] b(3) assms(8) by (metis length_0_conv)
    ultimately show ?thesis
      using parse_loop_last [OF b(2,3) assms(8) find_crlf_none [OF assms(9)], of wr_Init verify e2]
      by (simp add: wr_parse_def wr_Init_def del: buf_ok_sizes)
  qed
  have code: "wp_code q \<noteq> 200"
    by (simp add: assms(16) answer_page_def Let_def choose_code_def start_response_def)
  have "\<exists>c3. hc_process verify F srcDir c2 e2 = Some (Inr (True, c3, e2)) \<and> readBuff c3 = readBuff c1
               \<and> wp_code (hc_response c3) \<noteq> 200 \<and> \<not> wr_IsKeepAlive (hc_request c3)"
    if c2: "readBuff c2 = readBuff c1" "buf_ok (writeBuff c2)" "readable (writeBuff c2) = []" for c2 :: "'a HttpConn" and e2
  proof -
    have r2: "buf_ok (readBuff c2)" "readable (readBuff c2) \<noteq> []" using c2(1) c1(2) b(2,3) assms(8) by simp_all
    have p2: "wr_parse verify wr_Init (readBuff c2) e2 = Some (Inr (False, wr_Init, b, e2))" using bad c2(1) c1(2) by simp
    obtain c3 where "hc_process verify F srcDir c2 e2 = Some (Inr (True, c3, e2))" "readBuff c3 = b" "hc_request c3 = wr_Init"
        "hc_response c3 = q\<lparr>mmFile := mapped_file F q\<rparr>"
      using process_framed [OF r2 c2(2,3) assms(11,12) p2 assms(16,17)] by blast
    with code c1(2) show ?thesis by (intro exI [of _ c3]) (simp add: wr_IsKeepAlive_def wr_Init_def)
  qed
  with c1 b(3) show ?thesis by blast
qed

theorem body_answered_again_witness:
  "\<exists>c1. hc_process (\<lambda>_ _ _ e. Some (Inr (False, e))) some_fs ''/w''
       ((HttpConn_new :: unit HttpConn)\<lparr>readBuff := \<lparr>vec = ''PUT /a.html HTTP/1.1'' @ crlf @ crlf @ ''body'', readPos = 0, writePos = 28\<rparr>\<rparr>) ()
     = Some (Inr (True, c1, ())) \<and> readable (readBuff c1) = ''body''
   \<and> (\<exists>c3. hc_process (\<lambda>_ _ _ e. Some (Inr (False, e))) some_fs ''/w'' (c1\<lparr>writeBuff := Buffer_new 1024\<rparr>) () = Some (Inr (True, c3, ())))"
proof -
  let ?V = "\<lambda>_ _ _ (e :: unit). Some (Inr (False, e))"
  let ?c = "(HttpConn_new :: unit HttpConn)\<lparr>readBuff := \<lparr>vec = ''PUT /a.html HTTP/1.1'' @ crlf @ crlf @ ''body'', readPos = 0, writePos = 28\<rparr>\<rparr>"
  let ?r = "(read_request ''PUT'' ''/a.html'' ''1.1'' [])\<lparr>wr_state := BODY, wr_body := ''body''\<rparr>"
  let ?p = "answer_page some_fs (start_response ''/w'' True (?r\<lparr>wr_state := FINISH\<rparr>))"
  let ?q = "answer_page some_fs (start_response ''/w'' False wr_Init)"
  have post: "ParsePost ?V ?r () = Some (Inr (?r, ()))" by (simp add: ParsePost_def read_request_def ParsePath_def wr_Init_def DEFAULT_HTML_def)
  have page: "\<not> (wf_open some_fs (full_path ?p) \<and> wf_map some_fs (full_path ?p) (FileLen ?p) = None)"
      "\<not> (wf_open some_fs (full_path ?q) \<and> wf_map some_fs (full_path ?q) (FileLen ?q) = None)" by code_simp+
  have b: "buf_ok (readBuff ?c)" "readable (readBuff ?c) = print_web_request ''PUT'' ''/a.html'' ''1.1'' [] ''body''"
      "buf_ok (writeBuff ?c)" "readable (writeBuff ?c) = []"
    by (simp_all add: HttpConn_new_def buf_ok_def readable_def print_web_request_def print_headers_def Buffer_new_def)
  have m: "match_request_line ''body'' = None" by (simp add: match_request_line_def)
  obtain c1 where c1: "hc_process ?V some_fs ''/w'' ?c () = Some (Inr (True, c1, ()))" "readable (readBuff c1) = ''body''"
      "\<forall>(c2 :: unit HttpConn) e2. readBuff c2 = readBuff c1 \<longrightarrow> buf_ok (writeBuff c2) \<longrightarrow> readable (writeBuff c2) = []
         \<longrightarrow> (\<exists>c3. hc_process ?V some_fs ''/w'' c2 e2 = Some (Inr (True, c3, e2)) \<and> readBuff c3 = readBuff c1
               \<and> wp_code (hc_response c3) \<noteq> 200 \<and> \<not> wr_IsKeepAlive (hc_request c3))"
    using body_answered_again [OF b _ _ _ _ _ m some_map(1) _ post refl page(1) refl page(2)] by auto
  have "\<exists>c3. hc_process ?V some_fs ''/w'' (c1\<lparr>writeBuff := Buffer_new 1024\<rparr>) () = Some (Inr (True, c3, ()))"
    using c1(3) [rule_format, of "c1\<lparr>writeBuff := Buffer_new 1024\<rparr>" "()"] by auto
  with c1(1,2) show ?thesis by blast
qed

end
