(* ===== verification/Web_Server.thy ===== *)
theory Web_Server
  imports Epoll Web_Conn Timer Thread_Pool
begin

text \<open>
  The older server itself (\<open>code/server/webserver.cpp\<close>, \<open>code/server/epoller.h\<close>): the main thread waits for
  events, accepts connections, closes broken ones and hands readable and writable ones to the thread
  pool of \<open>Thread_Pool\<close>, whose workers read, process and write (\<open>Web_Conn\<close>). The interest list of the
  kernel's epoll instance is part of the state; what \<open>accept\<close>, \<open>readv\<close>, \<open>writev\<close> and \<open>epoll_wait\<close> answer is
  an argument. A handler runs as one step; the steps of the main thread and of the workers interleave
  in any order.
\<close>

unbundle bit_operations_syntax

section \<open>Epoller\<close>

text \<open>The boolean result tells whether \<open>epoll_ctl\<close> succeeded.\<close>

definition ctl_result :: "interest \<Rightarrow> interest option \<Rightarrow> bool \<times> interest" where
  "ctl_result m r = (case r of None \<Rightarrow> (False, m) | Some m' \<Rightarrow> (True, m'))"

definition AddFd :: "int \<Rightarrow> u32 \<Rightarrow> interest \<Rightarrow> bool \<times> interest" where
  "AddFd fd events m = (if fd < 0 then (False, m) else ctl_result m (ctl_add fd events m))"

definition ModFd :: "int \<Rightarrow> u32 \<Rightarrow> interest \<Rightarrow> bool \<times> interest" where
  "ModFd fd events m = (if fd < 0 then (False, m) else ctl_result m (ctl_mod fd events m))"

definition DelFd :: "int \<Rightarrow> interest \<Rightarrow> bool \<times> interest" where
  "DelFd fd m = (if fd < 0 then (False, m) else ctl_result m (ctl_del fd m))"

section \<open>The object\<close>

datatype web_task = OnRead_Task int | OnWrite_Task int

text \<open>
  \<open>ws_events\<close> are the reported events that the main thread has still to handle; \<open>ws_env\<close> is what the
  verification of users works on, and \<open>ws_refused\<close> the clients that were sent an error and closed. A timer's callback closes the connection of its descriptor.
\<close>

record ('a, 'e) WebServer =
  ws_timeoutMS :: int
  ws_isClose :: bool
  ws_listenFd :: int
  ws_srcDir :: string
  ws_listenEvent :: u32
  ws_connEvent :: u32
  ws_timer :: "int timer"
  ws_pool :: "web_task Pool"
  ws_epoll :: interest
  ws_users :: "int \<rightharpoonup> 'a HttpConn"
  ws_userCount :: int
  ws_events :: "(int \<times> u32) list"
  ws_refused :: "(int \<times> string) list"
  ws_env :: 'e

text \<open>What the server is given: verification of users, the files, and \<open>timer::adjust\<close>, which the class in \<open>code/timer\<close> does not have.\<close>

record 'e web_world =
  ww_verify :: "'e verifier"
  ww_fs :: web_fs
  ww_adjust :: "int \<Rightarrow> int \<Rightarrow> int timer \<Rightarrow> int timer res"

definition MAX_FD :: int where
  "MAX_FD = 65536"

definition isET :: "('a, 'e) WebServer \<Rightarrow> bool" where
  "isET s \<longleftrightarrow> ws_connEvent s AND EPOLLET \<noteq> 0"

definition InitEventMode :: "int \<Rightarrow> ('a, 'e) WebServer \<Rightarrow> ('a, 'e) WebServer" where
  "InitEventMode trigMode s =
     (let listen = EPOLLRDHUP; conn = EPOLLONESHOT OR EPOLLRDHUP
      in if trigMode = 0 then s\<lparr>ws_listenEvent := listen, ws_connEvent := conn\<rparr>
         else if trigMode = 1 then s\<lparr>ws_listenEvent := listen, ws_connEvent := conn OR EPOLLET\<rparr>
         else if trigMode = 2 then s\<lparr>ws_listenEvent := listen OR EPOLLET, ws_connEvent := conn\<rparr>
         else s\<lparr>ws_listenEvent := listen OR EPOLLET, ws_connEvent := conn OR EPOLLET\<rparr>)"

text \<open>
  \<open>InitSocket_\<close> with the answers of the five system calls it makes: \<open>socket\<close>, twice \<open>setsockopt\<close>, \<open>bind\<close>,
  \<open>listen\<close>. The second component is the descriptor closed on a failure.
\<close>

definition InitSocket :: "int \<Rightarrow> int \<Rightarrow> (int \<times> int \<times> int \<times> int) \<Rightarrow> ('a, 'e) WebServer \<Rightarrow> bool \<times> int list \<times> ('a, 'e) WebServer" where
  "InitSocket port sock answers s =
     (case answers of (linger, reuse, bound, listening) \<Rightarrow>
        if port > 65535 \<or> port < 1024 then (False, [], s)
        else let s1 = s\<lparr>ws_listenFd := sock\<rparr>
             in if sock < 0 then (False, [], s1)
                else if linger < 0 then (False, [sock], s1)
                else if reuse = -1 then (False, [sock], s1)
                else if bound < 0 then (False, [sock], s1)
                else if listening < 0 then (False, [sock], s1)
                else case AddFd sock (ws_listenEvent s1 OR EPOLLIN) (ws_epoll s1) of
                  (False, m) \<Rightarrow> (False, [sock], s1\<lparr>ws_epoll := m\<rparr>)
                | (True, m) \<Rightarrow> (True, [], s1\<lparr>ws_epoll := m\<rparr>))"

text \<open>
  The constructor, on the pool of connections and the log set up elsewhere; \<open>listenFd_\<close> starts indeterminate.
  \<open>getcwd\<close> gives 256 bytes, or nothing when the path needs more; the folder is appended in place.
\<close>

definition WebServer_new :: "int \<Rightarrow> int \<Rightarrow> int \<Rightarrow> nat \<Rightarrow> string \<Rightarrow> int \<Rightarrow> int \<Rightarrow> (int \<times> int \<times> int \<times> int) \<Rightarrow> 'e \<Rightarrow> ('a, 'e) WebServer res" where
  "WebServer_new port trigMode timeoutMS threadNum cwd junk sock answers e =
     bind_res (Pool_new threadNum) (\<lambda>pool.
     bind_res (assert_res (length cwd < 256)) (\<lambda>_.
     bind_res (if length cwd + length ''/resources/'' < 256 then Inr () else Inl Undefined_Behaviour) (\<lambda>_.
       let s0 = \<lparr>ws_timeoutMS = timeoutMS, ws_isClose = False, ws_listenFd = junk, ws_srcDir = cwd @ ''/resources/'', ws_listenEvent = 0,
                 ws_connEvent = 0, ws_timer = timer_new, ws_pool = pool, ws_epoll = Map.empty, ws_users = Map.empty, ws_userCount = 0,
                 ws_events = [], ws_refused = [], ws_env = e\<rparr>
       in case InitSocket port sock answers (InitEventMode trigMode s0) of
            (good, _, s1) \<Rightarrow> if good then bind_res (assert_res (sock > 0)) (\<lambda>_. Inr s1) else Inr (s1\<lparr>ws_isClose := True\<rparr>))))"

text \<open>
  The destructor, up to the pool of connections (\<open>ClosePool\<close> in \<open>Db_Pool\<close>): the descriptor that it closes, and the object.
\<close>

definition WebServer_delete :: "('a, 'e) WebServer \<Rightarrow> int \<times> ('a, 'e) WebServer" where
  "WebServer_delete s = (ws_listenFd s, s\<lparr>ws_isClose := True\<rparr>)"

text \<open>
  A constructor whose \<open>InitSocket_\<close> failed has already closed the descriptor, or never had one; the destructor closes it again, or an
  indeterminate one.
\<close>

lemma delete_after_failure:
  assumes "InitSocket port sock answers s = (False, closed, s')"
  shows "fst (WebServer_delete s') \<in> set closed \<or> closed = [] \<and> (fst (WebServer_delete s') = ws_listenFd s \<or> fst (WebServer_delete s') < 0)"
  using assms by (auto simp: InitSocket_def WebServer_delete_def Let_def split: prod.splits if_splits bool.splits)

text \<open>The flags \<open>SetFdNonblock\<close> sets as the status of a descriptor: those of the descriptor itself, with \<open>O_NONBLOCK\<close>.\<close>

definition O_NONBLOCK :: u32 where
  "O_NONBLOCK = 0x800"

definition SetFdNonblock :: "int \<Rightarrow> u32 \<times> u32 \<Rightarrow> (u32 \<times> u32) res" where
  "SetFdNonblock fd flags =
     bind_res (assert_res (fd > 0)) (\<lambda>_. case flags of (fd_flags, status) \<Rightarrow> Inr (fd_flags, fd_flags OR O_NONBLOCK))"

lemma SetFdNonblock_forgets:
  "fd > 0 \<Longrightarrow> SetFdNonblock fd (fd_flags, status) = SetFdNonblock fd (fd_flags, status')"
  "SetFdNonblock fd flags = Inr flags' \<Longrightarrow> snd flags' AND O_NONBLOCK = O_NONBLOCK"
  by (auto simp: SetFdNonblock_def cxx_res assert_res_def split: prod.splits if_splits)

section \<open>Connections\<close>

definition CloseConn :: "int \<Rightarrow> ('a, 'e) WebServer \<Rightarrow> ('a, 'e) WebServer res" where
  "CloseConn fd s =
     (case ws_users s fd of
        None \<Rightarrow> Inl Undefined_Behaviour
      | Some c \<Rightarrow>
          (case hc_Close (ws_userCount s) c of (_, n, c') \<Rightarrow>
             Inr (s\<lparr>ws_epoll := snd (DelFd (hc_fd c) (ws_epoll s)), ws_users := (ws_users s)(fd \<mapsto> c'), ws_userCount := n\<rparr>)))"

definition AddClient :: "int \<Rightarrow> int \<Rightarrow> 'a \<Rightarrow> ('a, 'e) WebServer \<Rightarrow> ('a, 'e) WebServer res" where
  "AddClient now fd addr s =
     bind_res (assert_res (fd > 0)) (\<lambda>_.
     bind_res (hc_init fd addr (ws_userCount s) (case ws_users s fd of Some c \<Rightarrow> c | None \<Rightarrow> HttpConn_new)) (\<lambda>(n, c).
     bind_res (if ws_timeoutMS s > 0 then Timer.add now fd (ws_timeoutMS s) fd (ws_timer s) else Inr (ws_timer s)) (\<lambda>t.
       Inr (s\<lparr>ws_users := (ws_users s)(fd \<mapsto> c), ws_userCount := n, ws_timer := t,
              ws_epoll := snd (AddFd fd (EPOLLIN OR ws_connEvent s) (ws_epoll s))\<rparr>))))"

definition SendError :: "int \<Rightarrow> string \<Rightarrow> ('a, 'e) WebServer \<Rightarrow> ('a, 'e) WebServer res" where
  "SendError fd info s = bind_res (assert_res (fd > 0)) (\<lambda>_. Inr (s\<lparr>ws_refused := ws_refused s @ [(fd, info)]\<rparr>))"

text \<open>The answers of \<open>accept\<close>: a descriptor with the address, or \<open>None\<close> for a result that is not positive.\<close>

fun DealListen :: "int \<Rightarrow> (int \<times> 'a) option list \<Rightarrow> ('a, 'e) WebServer \<Rightarrow> ('a, 'e) WebServer wres" where
  "DealListen now [] s = None"
| "DealListen now (None # accs) s = Some (Inr s)"
| "DealListen now (Some (fd, addr) # accs) s =
     (if ws_userCount s \<ge> MAX_FD then Some (SendError fd ''Server busy!'' s)
      else (case AddClient now fd addr s of
              Inl f \<Rightarrow> Some (Inl f)
            | Inr s' \<Rightarrow> if ws_listenEvent s AND EPOLLET \<noteq> 0 then DealListen now accs s' else Some (Inr s')))"

definition ExtentTime :: "'e web_world \<Rightarrow> int \<Rightarrow> ('a, 'e) WebServer \<Rightarrow> ('a, 'e) WebServer res" where
  "ExtentTime W fd s =
     (if ws_timeoutMS s > 0
      then bind_res (ww_adjust W fd (ws_timeoutMS s) (ws_timer s)) (\<lambda>t. Inr (s\<lparr>ws_timer := t\<rparr>))
      else Inr s)"

definition DealRead :: "'e web_world \<Rightarrow> int \<Rightarrow> ('a, 'e) WebServer \<Rightarrow> ('a, 'e) WebServer res" where
  "DealRead W fd s =
     bind_res (ExtentTime W fd s) (\<lambda>s1. bind_res (AddTask (OnRead_Task fd) (ws_pool s1)) (\<lambda>p. Inr (s1\<lparr>ws_pool := p\<rparr>)))"

definition DealWrite :: "'e web_world \<Rightarrow> int \<Rightarrow> ('a, 'e) WebServer \<Rightarrow> ('a, 'e) WebServer res" where
  "DealWrite W fd s =
     bind_res (ExtentTime W fd s) (\<lambda>s1. bind_res (AddTask (OnWrite_Task fd) (ws_pool s1)) (\<lambda>p. Inr (s1\<lparr>ws_pool := p\<rparr>)))"

text \<open>The body of the loop of \<open>Start\<close> for one event, and what happens before the wait.\<close>

definition handle_event :: "'e web_world \<Rightarrow> int \<Rightarrow> (int \<times> 'a) option list \<Rightarrow> int \<Rightarrow> u32 \<Rightarrow> ('a, 'e) WebServer \<Rightarrow> ('a, 'e) WebServer wres" where
  "handle_event W now accs fd events s =
     (if fd = ws_listenFd s then DealListen now accs s
      else if events AND (EPOLLRDHUP OR EPOLLHUP OR EPOLLERR) \<noteq> 0
      then Some (bind_res (assert_res (ws_users s fd \<noteq> None)) (\<lambda>_. CloseConn fd s))
      else if events AND EPOLLIN \<noteq> 0 then Some (bind_res (assert_res (ws_users s fd \<noteq> None)) (\<lambda>_. DealRead W fd s))
      else if events AND EPOLLOUT \<noteq> 0 then Some (bind_res (assert_res (ws_users s fd \<noteq> None)) (\<lambda>_. DealWrite W fd s))
      else Some (Inr s))"

fun close_all :: "int list \<Rightarrow> ('a, 'e) WebServer \<Rightarrow> ('a, 'e) WebServer res" where
  "close_all [] s = Inr s"
| "close_all (fd # fds) s = bind_res (CloseConn fd s) (close_all fds)"

definition before_wait :: "(nat \<Rightarrow> int) \<Rightarrow> int \<Rightarrow> ('a, 'e) WebServer \<Rightarrow> ('a, 'e) WebServer res" where
  "before_wait nows now s =
     (if ws_timeoutMS s > 0
      then bind_res (getNextTick nows now (ws_timer s)) (\<lambda>(timeMS, fired, t). close_all fired (s\<lparr>ws_timer := t\<rparr>))
      else Inr s)"

section \<open>Tasks\<close>

definition EAGAIN :: int where
  "EAGAIN = 11"

definition mod_client :: "int \<Rightarrow> u32 \<Rightarrow> 'a HttpConn \<Rightarrow> ('a, 'e) WebServer \<Rightarrow> ('a, 'e) WebServer" where
  "mod_client fd events c s =
     s\<lparr>ws_users := (ws_users s)(fd \<mapsto> c), ws_epoll := snd (ModFd (hc_fd c) (ws_connEvent s OR events) (ws_epoll s))\<rparr>"

definition OnProcess :: "'e web_world \<Rightarrow> int \<Rightarrow> 'a HttpConn \<Rightarrow> ('a, 'e) WebServer \<Rightarrow> ('a, 'e) WebServer wres" where
  "OnProcess W fd c s =
     bind_wres (hc_process (ww_verify W) (ww_fs W) (ws_srcDir s) c (ws_env s)) (\<lambda>(made, c', e).
       Some (Inr (mod_client fd (if made then EPOLLOUT else EPOLLIN) c' (s\<lparr>ws_env := e\<rparr>))))"

definition OnRead :: "'e web_world \<Rightarrow> (int + string) list \<Rightarrow> int \<Rightarrow> ('a, 'e) WebServer \<Rightarrow> ('a, 'e) WebServer wres" where
  "OnRead W os fd s =
     (case ws_users s fd of
        None \<Rightarrow> Some (Inl Undefined_Behaviour)
      | Some c \<Rightarrow>
          bind_wres (hc_read (isET s) os c) (\<lambda>(ret, c1).
            if (case ret of Inl errno \<Rightarrow> errno \<noteq> EAGAIN | Inr n \<Rightarrow> n = 0)
            then Some (CloseConn fd (s\<lparr>ws_users := (ws_users s)(fd \<mapsto> c1)\<rparr>))
            else OnProcess W fd c1 s))"

text \<open>The second component has the bytes that were sent.\<close>

definition OnWrite :: "'e web_world \<Rightarrow> (int + nat) list \<Rightarrow> int \<Rightarrow> ('a, 'e) WebServer \<Rightarrow> (('a, 'e) WebServer \<times> string) wres" where
  "OnWrite W os fd s =
     (case ws_users s fd of
        None \<Rightarrow> Some (Inl Undefined_Behaviour)
      | Some c \<Rightarrow>
          bind_wres (hc_write (isET s) os c) (\<lambda>(ret, sent, c1).
          bind_wres (Some (ToWriteBytes c1)) (\<lambda>left.
            bind_wres
              (if left = 0 \<and> wr_IsKeepAlive (hc_request c1) then OnProcess W fd c1 s
               else if left \<noteq> 0 \<and> ret = Inl EAGAIN then Some (Inr (mod_client fd EPOLLOUT c1 s))
               else Some (CloseConn fd (s\<lparr>ws_users := (ws_users s)(fd \<mapsto> c1)\<rparr>)))
              (\<lambda>s'. Some (Inr (s', sent))))))"

fun run_task :: "'e web_world \<Rightarrow> (int + string) list \<Rightarrow> (int + nat) list \<Rightarrow> web_task \<Rightarrow> ('a, 'e) WebServer \<Rightarrow> ('a, 'e) WebServer wres" where
  "run_task W ros wos (OnRead_Task fd) s = OnRead W ros fd s"
| "run_task W ros wos (OnWrite_Task fd) s = bind_wres (OnWrite W wos fd s) (\<lambda>(s', _). Some (Inr s'))"

fun run_finished :: "'e web_world \<Rightarrow> (int + string) list \<Rightarrow> (int + nat) list \<Rightarrow> web_task pool_event list \<Rightarrow> ('a, 'e) WebServer
    \<Rightarrow> ('a, 'e) WebServer wres" where
  "run_finished W ros wos [Finished t] s = run_task W ros wos t s"
| "run_finished W ros wos _ s = Some (Inr s)"

section \<open>Runs\<close>

definition open_fd :: "int \<Rightarrow> ('a, 'e) WebServer \<Rightarrow> bool" where
  "open_fd fd s \<longleftrightarrow> (case ws_users s fd of Some c \<Rightarrow> \<not> hc_isClose c | None \<Rightarrow> False)"

text \<open>The kernel hands out descriptors that are not open, no two the same in one go.\<close>

definition fresh_accepts :: "(int \<times> 'a) option list \<Rightarrow> ('a, 'e) WebServer \<Rightarrow> bool" where
  "fresh_accepts accs s \<longleftrightarrow>
     (let fds = concat (map (\<lambda>a. case a of Some (fd, _) \<Rightarrow> [fd] | None \<Rightarrow> []) accs)
      in distinct fds \<and> (\<forall>fd \<in> set fds. 0 < fd \<and> fd \<noteq> ws_listenFd s \<and> \<not> open_fd fd s))"

definition some_event :: "u32 \<Rightarrow> bool" where
  "some_event ev \<longleftrightarrow> ev AND (EPOLLRDHUP OR EPOLLHUP OR EPOLLERR) \<noteq> 0 \<or> ev AND EPOLLIN \<noteq> 0 \<or> ev AND EPOLLOUT \<noteq> 0"

text \<open>What \<open>epoll_wait\<close> may report: armed descriptors, each once, with at least one of the events there are.\<close>

definition can_report :: "(int \<times> u32) list \<Rightarrow> ('a, 'e) WebServer \<Rightarrow> bool" where
  "can_report evs s \<longleftrightarrow> distinct (map fst evs) \<and> (\<forall>fd \<in> fst ` set evs. \<exists>ev. ws_epoll s fd = Some (ev, True))
     \<and> (\<forall>ev \<in> snd ` set evs. some_event ev)"

inductive ws_step :: "'e web_world \<Rightarrow> ('a, 'e) WebServer \<Rightarrow> ('a, 'e) WebServer \<Rightarrow> bool" for W where
  wait: "ws_events s = [] \<Longrightarrow> \<not> ws_isClose s \<Longrightarrow> before_wait nows now s = Inr s1 \<Longrightarrow> can_report evs s1 \<Longrightarrow>
     ws_step W s (s1\<lparr>ws_events := evs, ws_epoll := fold (\<lambda>ev. ep_report (fst ev)) evs (ws_epoll s1)\<rparr>)"
| event: "ws_events s = (fd, ev) # evs \<Longrightarrow> fresh_accepts accs s \<Longrightarrow>
     handle_event W now accs fd ev (s\<lparr>ws_events := evs\<rparr>) = Some (Inr s') \<Longrightarrow> ws_step W s s'"
| work: "pool_loop i (ws_pool s) = Some (es, p) \<Longrightarrow> run_finished W ros wos es (s\<lparr>ws_pool := p\<rparr>) = Some (Inr s') \<Longrightarrow> ws_step W s s'"

inductive_cases ws_stepE [consumes 1, case_names wait event work]: "ws_step W s s'"

inductive ws_reach :: "'e web_world \<Rightarrow> ('a, 'e) WebServer \<Rightarrow> ('a, 'e) WebServer \<Rightarrow> bool" for W s0 where
  start: "ws_reach W s0 s0"
| step: "ws_reach W s0 s \<Longrightarrow> ws_step W s s' \<Longrightarrow> ws_reach W s0 s'"

section \<open>One holder per connection\<close>

definition armed :: "int \<Rightarrow> ('a, 'e) WebServer \<Rightarrow> bool" where
  "armed fd s \<longleftrightarrow> (case ws_epoll s fd of Some (_, a) \<Rightarrow> a | None \<Rightarrow> False)"

fun task_fd :: "web_task \<Rightarrow> int" where
  "task_fd (OnRead_Task fd) = fd"
| "task_fd (OnWrite_Task fd) = fd"

definition pool_fds :: "web_task Pool \<Rightarrow> int multiset" where
  "pool_fds p = mset (map task_fd (pl_tasks p)) + image_mset task_fd (busy_tasks (pl_workers p))"

text \<open>How many hold a connection: the kernel while it is armed, reported events, queued and running tasks.\<close>

definition holders :: "int \<Rightarrow> ('a, 'e) WebServer \<Rightarrow> nat" where
  "holders fd s = of_bool (armed fd s) + count (mset (map fst (ws_events s))) fd + count (pool_fds (ws_pool s)) fd"

definition conn_ok :: "nat \<Rightarrow> int \<Rightarrow> ('a, 'e) WebServer \<Rightarrow> bool" where
  "conn_ok h fd s \<longleftrightarrow> holders fd s + h = of_bool (open_fd fd s)
     \<and> (case ws_epoll s fd of None \<Rightarrow> \<not> open_fd fd s | Some (ev, _) \<Rightarrow> open_fd fd s \<and> ev AND EPOLLONESHOT \<noteq> 0)"

text \<open>The invariant while one more holder, outside the state, is running (\<open>h = Some fd\<close>), or none is.\<close>

definition ws_inv :: "int option \<Rightarrow> ('a, 'e) WebServer \<Rightarrow> bool" where
  "ws_inv h s \<longleftrightarrow> ws_timeoutMS s \<le> 0 \<and> ws_connEvent s AND EPOLLONESHOT \<noteq> 0 \<and> ws_users s (ws_listenFd s) = None
     \<and> (\<forall>fd c. ws_users s fd = Some c \<longrightarrow> hc_fd c = fd \<and> 0 < fd)
     \<and> (\<forall>fd. fd \<noteq> ws_listenFd s \<longrightarrow> conn_ok (of_bool (h = Some fd)) fd s)
     \<and> finite {fd. open_fd fd s} \<and> ws_userCount s = int (card {fd. open_fd fd s})
     \<and> (\<forall>ev \<in> snd ` set (ws_events s). some_event ev) \<and> ws_listenFd s \<notin># pool_fds (ws_pool s)"

lemma ws_invD:
  assumes "ws_inv h s"
  shows "ws_timeoutMS s \<le> 0" "ws_connEvent s AND EPOLLONESHOT \<noteq> 0" "ws_users s (ws_listenFd s) = None"
    "\<And>fd c. ws_users s fd = Some c \<Longrightarrow> hc_fd c = fd \<and> 0 < fd"
    "\<And>fd. fd \<noteq> ws_listenFd s \<Longrightarrow> conn_ok (of_bool (h = Some fd)) fd s"
    "finite {fd. open_fd fd s}" "ws_userCount s = int (card {fd. open_fd fd s})"
    "\<forall>ev \<in> snd ` set (ws_events s). some_event ev" "ws_listenFd s \<notin># pool_fds (ws_pool s)"
  using assms by (auto simp: ws_inv_def)

lemma oneshot_or [simp]: "ev AND EPOLLONESHOT \<noteq> 0 \<Longrightarrow> (x OR ev) AND EPOLLONESHOT \<noteq> 0"
  "ev AND EPOLLONESHOT \<noteq> 0 \<Longrightarrow> (ev OR x) AND EPOLLONESHOT \<noteq> 0" for ev x :: u32
proof -
  have b: "ev AND EPOLLONESHOT \<noteq> 0 \<longleftrightarrow> bit ev 30" for ev :: u32
    unfolding EPOLLONESHOT_def push_bit_eq_mult mult_1 and_exp_eq_0_iff_not_bit by simp
  show "ev AND EPOLLONESHOT \<noteq> 0 \<Longrightarrow> (x OR ev) AND EPOLLONESHOT \<noteq> 0"
    "ev AND EPOLLONESHOT \<noteq> 0 \<Longrightarrow> (ev OR x) AND EPOLLONESHOT \<noteq> 0"
    unfolding b by (simp_all add: bit_or_iff)
qed

text \<open>What the operations of a connection leave alone.\<close>

definition same_socket :: "'a HttpConn \<Rightarrow> 'a HttpConn \<Rightarrow> bool" where
  "same_socket c c' \<longleftrightarrow> hc_fd c' = hc_fd c \<and> hc_isClose c' = hc_isClose c"

lemma hc_read_socket: "hc_read et os c = Some (Inr (r, c')) \<Longrightarrow> same_socket c c'"
proof (induction os arbitrary: c)
  case (Cons x os)
  then obtain len b where b: "ReadFd x (readBuff c) = Inr (len, b)" by (cases "ReadFd x (readBuff c)") auto
  have "c' = c\<lparr>readBuff := b\<rparr> \<or> hc_read et os (c\<lparr>readBuff := b\<rparr>) = Some (Inr (r, c'))"
    using Cons.prems b by (simp add: Let_def split: if_splits)
  then show ?case using Cons.IH [of "c\<lparr>readBuff := b\<rparr>"] by (auto simp: same_socket_def)
qed simp

lemma advance_iov_socket: "advance_iov n c = Inr c' \<Longrightarrow> same_socket c c'"
  by (auto simp: advance_iov_def same_socket_def Let_def bind_res_Inr_iff split: option.splits if_splits)

lemma hc_write_socket: "hc_write et os c = Some (Inr (r, sent, c')) \<Longrightarrow> same_socket c c'"
proof (induction os arbitrary: c r sent)
  case (Cons x os)
  show ?case
  proof (cases x)
    case (Inl errno)
    then show ?thesis using Cons.prems by (simp add: same_socket_def)
  next
    case (Inr room)
    then consider "c' = c" | c1 where "advance_iov (min room (length (pending c))) c = Inr c1" "c' = c1"
      | c1 r' sent' where "advance_iov (min room (length (pending c))) c = Inr c1" "hc_write et os c1 = Some (Inr (r', sent', c'))"
      using Cons.prems by (auto simp: Let_def split: if_splits sum.splits option.splits prod.splits)
    then show ?thesis
      by cases (use Cons.IH advance_iov_socket in \<open>fastforce simp: same_socket_def\<close>)+
  qed
qed simp

lemma hc_process_socket:
  assumes "hc_process V F d c e = Some (Inr (made, c', e'))"
  shows "same_socket c c'"
proof (cases "ReadableBytes (readBuff c) \<le> 0")
  case True
  then show ?thesis using assms by (auto simp: hc_process_def same_socket_def)
next
  case False
  then show ?thesis using assms by (auto simp: hc_process_def Let_def bind_wres_Inr_iff same_socket_def if_distrib [of hc_isClose] if_distrib [of hc_fd] cong: if_cong)
qed

lemma conn_ok_cong:
  assumes "ws_epoll s' fd = ws_epoll s fd" "open_fd fd s' = open_fd fd s"
    and "count (mset (map fst (ws_events s'))) fd = count (mset (map fst (ws_events s))) fd"
    and "count (pool_fds (ws_pool s')) fd = count (pool_fds (ws_pool s)) fd"
  shows "conn_ok h fd s' = conn_ok h fd s"
  by (simp only: conn_ok_def holders_def armed_def assms)

lemma open_fd_cong: "ws_users s' fd = ws_users s fd \<Longrightarrow> open_fd fd s' = open_fd fd s"
  by (simp add: open_fd_def)

text \<open>The holder that runs closes the connection, arms it again, or hands it to the pool.\<close>

lemma held_conn:
  assumes "ws_inv (Some fd) s" "fd \<noteq> ws_listenFd s"
  obtains c ev where "ws_users s fd = Some c" "\<not> hc_isClose c" "hc_fd c = fd" "0 < fd" "ws_epoll s fd = Some (ev, False)" "holders fd s = 0"
proof -
  have ok: "conn_ok 1 fd s" using ws_invD(5) [OF assms] by simp
  then have o: "open_fd fd s" "holders fd s = 0" by (cases "open_fd fd s", auto simp: conn_ok_def)+
  then obtain c where c: "ws_users s fd = Some c" "\<not> hc_isClose c" by (auto simp: open_fd_def split: option.splits)
  obtain ev a where ev: "ws_epoll s fd = Some (ev, a)" using ok o(1) by (auto simp: conn_ok_def split: option.splits)
  have "\<not> a" using o(2) ev by (auto simp: holders_def armed_def)
  then show ?thesis using that c ev o(2) ws_invD(4) [OF assms(1) c(1)] by auto
qed

lemma CloseConn_inv:
  assumes "ws_inv (Some fd) s" "fd \<noteq> ws_listenFd s"
  shows "\<exists>s'. CloseConn fd s = Inr s' \<and> ws_inv None s'"
proof -
  obtain c ev where c: "ws_users s fd = Some c" "\<not> hc_isClose c" "hc_fd c = fd" "0 < fd" "ws_epoll s fd = Some (ev, False)" "holders fd s = 0"
    using held_conn [OF assms] .
  let ?c = "c\<lparr>hc_response := UnmapFile (hc_response c), hc_isClose := True\<rparr>"
  let ?s = "s\<lparr>ws_epoll := (ws_epoll s)(fd := None), ws_users := (ws_users s)(fd \<mapsto> ?c), ws_userCount := ws_userCount s - 1\<rparr>"
  have e: "CloseConn fd s = Inr ?s" using c by (simp add: CloseConn_def hc_Close_def Let_def DelFd_def ctl_result_def ctl_defs)
  have o: "open_fd x ?s \<longleftrightarrow> x \<noteq> fd \<and> open_fd x s" for x by (simp add: open_fd_def)
  have set: "{x. open_fd x ?s} = {x. open_fd x s} - {fd}" using o by auto
  have fd: "fd \<in> {x. open_fd x s}" using c by (simp add: open_fd_def)
  have card: "int (card {x. open_fd x ?s}) = ws_userCount s - 1"
    using ws_invD(6,7) [OF assms(1)] fd card_Suc_Diff1 [OF ws_invD(6) [OF assms(1)] fd] unfolding set by simp
  have "conn_ok 0 x ?s" if "x \<noteq> ws_listenFd s" for x
  proof (cases "x = fd")
    case True
    then show ?thesis using c(6) o [of fd] by (simp add: conn_ok_def holders_def armed_def)
  next
    case False
    then show ?thesis using ws_invD(5) [OF assms(1) that] conn_ok_cong [of ?s x s 0] by (simp add: open_fd_def)
  qed
  then have "ws_inv None ?s"
    using ws_invD(1-4,6,8,9) [OF assms(1)] c assms(2) card set unfolding ws_inv_def by auto
  with e show ?thesis by blast
qed

lemma mod_client_inv:
  assumes "ws_inv (Some fd) s" "fd \<noteq> ws_listenFd s" "ws_users s fd = Some c" "same_socket c c'"
  shows "ws_inv None (mod_client fd events c' s)"
proof -
  obtain ev where c: "\<not> hc_isClose c" "hc_fd c = fd" "0 < fd" "ws_epoll s fd = Some (ev, False)" "holders fd s = 0"
    using held_conn [OF assms(1,2)] assms(3) by (metis option.inject)
  let ?s = "mod_client fd events c' s"
  have s: "ws_epoll ?s = (ws_epoll s)(fd \<mapsto> (ws_connEvent s OR events, True))" "ws_users ?s = (ws_users s)(fd \<mapsto> c')"
    using c assms(4) by (simp_all add: mod_client_def ModFd_def ctl_result_def ctl_defs same_socket_def)
  have rest: "ws_events ?s = ws_events s" "ws_pool ?s = ws_pool s" "ws_timeoutMS ?s = ws_timeoutMS s" "ws_connEvent ?s = ws_connEvent s"
    "ws_listenFd ?s = ws_listenFd s" "ws_userCount ?s = ws_userCount s" by (simp_all add: mod_client_def)
  have o: "open_fd x ?s = open_fd x s" for x using assms(3,4) by (simp add: open_fd_def s same_socket_def)
  have "conn_ok 0 x ?s" if "x \<noteq> ws_listenFd s" for x
  proof (cases "x = fd")
    case True
    then show ?thesis using c assms(3) ws_invD(2) [OF assms(1)] o [of fd]
      by (simp add: conn_ok_def holders_def armed_def s rest open_fd_def)
  next
    case False
    then show ?thesis using ws_invD(5) [OF assms(1) that] conn_ok_cong [of ?s x s 0] by (simp add: o s rest)
  qed
  then show ?thesis using ws_invD [OF assms(1)] assms(2,3,4) o c unfolding ws_inv_def rest
    by (auto simp: s same_socket_def)
qed

lemma add_task_inv:
  assumes "ws_inv (Some fd) s" "fd \<noteq> ws_listenFd s" "task_fd t = fd"
  shows "ws_inv None (s\<lparr>ws_pool := (ws_pool s)\<lparr>pl_tasks := pl_tasks (ws_pool s) @ [t]\<rparr>\<rparr>)"
proof -
  obtain c ev where c: "ws_users s fd = Some c" "\<not> hc_isClose c" "hc_fd c = fd" "0 < fd" "ws_epoll s fd = Some (ev, False)" "holders fd s = 0"
    using held_conn [OF assms(1,2)] .
  let ?s = "s\<lparr>ws_pool := (ws_pool s)\<lparr>pl_tasks := pl_tasks (ws_pool s) @ [t]\<rparr>\<rparr>"
  have o: "open_fd x ?s = open_fd x s" for x by (simp add: open_fd_def)
  have "conn_ok 0 x ?s" if "x \<noteq> ws_listenFd s" for x
  proof (cases "x = fd")
    case True
    have "ev AND EPOLLONESHOT \<noteq> 0" "open_fd fd s" using ws_invD(5) [OF assms(1,2)] c(5) by (simp_all add: conn_ok_def)
    then show ?thesis using True c(5,6) assms(3) o [of fd] by (simp add: conn_ok_def holders_def armed_def pool_fds_def)
  next
    case False
    then have "count (pool_fds (ws_pool ?s)) x = count (pool_fds (ws_pool s)) x" using assms(3) by (simp add: pool_fds_def)
    then show ?thesis using False ws_invD(5) [OF assms(1) that] conn_ok_cong [of ?s x s 0] o [of x] by simp
  qed
  moreover have "ws_listenFd ?s \<notin># pool_fds (ws_pool ?s)" using ws_invD(9) [OF assms(1)] assms(2,3) by (simp add: pool_fds_def)
  ultimately show ?thesis using ws_invD [OF assms(1)] o unfolding ws_inv_def by auto
qed

lemma DealRead_inv:
  assumes "ws_inv (Some fd) s" "fd \<noteq> ws_listenFd s"
  shows "\<exists>s'. DealRead W fd s = Inr s' \<and> ws_inv None s'" "\<exists>s'. DealWrite W fd s = Inr s' \<and> ws_inv None s'"
  using add_task_inv [OF assms, of "OnRead_Task fd"] add_task_inv [OF assms, of "OnWrite_Task fd"] ws_invD(1) [OF assms(1)]
  by (simp_all add: DealRead_def DealWrite_def ExtentTime_def AddTask_def)

lemma AddClient_inv:
  assumes "ws_inv None s" "0 < fd" "fd \<noteq> ws_listenFd s" "\<not> open_fd fd s"
  shows "\<exists>s'. AddClient now fd addr s = Inr s' \<and> ws_inv None s' \<and> ws_listenFd s' = ws_listenFd s
    \<and> (\<forall>x. open_fd x s' \<longleftrightarrow> x = fd \<or> open_fd x s)"
proof -
  have ok: "conn_ok 0 fd s" using ws_invD(5) [OF assms(1,3)] by simp
  then have ep: "ws_epoll s fd = None" "holders fd s = 0" using assms(4) by (auto simp: conn_ok_def split: option.splits)
  let ?c0 = "case ws_users s fd of Some c \<Rightarrow> c | None \<Rightarrow> HttpConn_new"
  let ?c = "?c0\<lparr>hc_addr := Some addr, hc_fd := fd, writeBuff := RetrieveAll (writeBuff ?c0), readBuff := RetrieveAll (readBuff ?c0), hc_isClose := False\<rparr>"
  let ?s = "s\<lparr>ws_users := (ws_users s)(fd \<mapsto> ?c), ws_userCount := ws_userCount s + 1, ws_timer := ws_timer s,
    ws_epoll := (ws_epoll s)(fd \<mapsto> (EPOLLIN OR ws_connEvent s, True))\<rparr>"
  have e: "AddClient now fd addr s = Inr ?s"
    using assms(2) ep(1) ws_invD(1) [OF assms(1)] by (simp add: AddClient_def hc_init_def AddFd_def ctl_result_def ctl_defs)
  have o: "open_fd x ?s \<longleftrightarrow> x = fd \<or> open_fd x s" for x by (simp add: open_fd_def)
  have set: "{x. open_fd x ?s} = insert fd {x. open_fd x s}" using o by auto
  have fin: "finite {x. open_fd x ?s}" "int (card {x. open_fd x ?s}) = ws_userCount s + 1"
    using ws_invD(6,7) [OF assms(1)] assms(4) unfolding set by simp_all
  have "conn_ok 0 x ?s" if "x \<noteq> ws_listenFd s" for x
  proof (cases "x = fd")
    case True
    then show ?thesis using ep(2) o [of fd] ep(1) ws_invD(2) [OF assms(1)] by (simp add: conn_ok_def holders_def armed_def)
  next
    case False
    then show ?thesis using ws_invD(5) [OF assms(1) that] conn_ok_cong [of ?s x s 0] o [of x] by simp
  qed
  then have "ws_inv None ?s"
    using ws_invD(1-4,8,9) [OF assms(1)] assms(2,3) fin unfolding ws_inv_def by auto
  with e o show ?thesis by auto
qed

lemma SendError_inv:
  assumes "0 < fd" "ws_inv h s"
  shows "\<exists>s'. SendError fd info s = Inr s' \<and> ws_inv h s'"
proof -
  let ?s = "s\<lparr>ws_refused := ws_refused s @ [(fd, info)]\<rparr>"
  have o: "open_fd x ?s = open_fd x s" for x by (simp add: open_fd_def)
  have "conn_ok n x ?s = conn_ok n x s" for n x unfolding conn_ok_def o by (simp add: holders_def armed_def)
  then show ?thesis using assms by (simp add: SendError_def ws_inv_def o)
qed

lemma DealListen_inv:
  assumes "ws_inv None s" "fresh_accepts accs s" "DealListen now accs s = Some r"
  shows "\<exists>s'. r = Inr s' \<and> ws_inv None s'"
  using assms
proof (induction now accs s rule: DealListen.induct)
  case (3 now fd addr accs s)
  have fr: "0 < fd" "fd \<noteq> ws_listenFd s" "\<not> open_fd fd s" using 3(3) by (simp_all add: fresh_accepts_def Let_def)
  obtain s1 where s1: "AddClient now fd addr s = Inr s1" "ws_inv None s1" "ws_listenFd s1 = ws_listenFd s"
    "\<forall>x. open_fd x s1 \<longleftrightarrow> x = fd \<or> open_fd x s"
    using AddClient_inv [OF 3(2) fr] by metis
  have fr1: "fresh_accepts accs s1" using 3(3) s1(3,4) by (auto simp: fresh_accepts_def Let_def)
  show ?case
  proof (cases "ws_userCount s \<ge> MAX_FD \<or> ws_listenEvent s AND EPOLLET = 0")
    case True
    then have "r = SendError fd ''Server busy!'' s \<or> r = Inr s1" using 3(4) by (simp add: s1(1) split: if_splits)
    then show ?thesis using SendError_inv [OF fr(1) 3(2)] s1(2) by blast
  next
    case False
    then show ?thesis using 3(1) [OF _ s1(1) _ s1(2) fr1] 3(4) s1(1) by auto
  qed
qed auto

text \<open>Taking a reported event or a running task makes its connection the held one.\<close>

lemma take_event_inv:
  assumes "ws_inv None s" "ws_events s = (fd, ev) # evs"
  shows "ws_inv (if fd = ws_listenFd s then None else Some fd) (s\<lparr>ws_events := evs\<rparr>)" "some_event ev"
proof -
  let ?s = "s\<lparr>ws_events := evs\<rparr>"
  have o: "open_fd x ?s = open_fd x s" for x by (simp add: open_fd_def)
  have "conn_ok (of_bool ((if fd = ws_listenFd s then None else Some fd) = Some x)) x ?s" if "x \<noteq> ws_listenFd s" for x
  proof (cases "x = fd")
    case True
    then show ?thesis using ws_invD(5) [OF assms(1) that] assms(2) that unfolding conn_ok_def o
      by (simp add: holders_def armed_def)
  next
    case False
    then show ?thesis using ws_invD(5) [OF assms(1) that] conn_ok_cong [of ?s x s 0] o [of x] assms(2) by auto
  qed
  then show "ws_inv (if fd = ws_listenFd s then None else Some fd) ?s"
    using ws_invD(1-4,6-9) [OF assms(1)] o assms(2) unfolding ws_inv_def by auto
  show "some_event ev" using ws_invD(8) [OF assms(1)] assms(2) by simp
qed

lemma handle_event_inv:
  assumes "ws_inv None s" "ws_events s = (fd, ev) # evs" "fresh_accepts accs s"
    and "handle_event W now accs fd ev (s\<lparr>ws_events := evs\<rparr>) = Some r"
  shows "\<exists>s'. r = Inr s' \<and> ws_inv None s'"
proof -
  let ?s = "s\<lparr>ws_events := evs\<rparr>"
  note t = take_event_inv [OF assms(1,2)]
  show ?thesis
  proof (cases "fd = ws_listenFd s")
    case True
    have "fresh_accepts accs ?s" using assms(3) by (simp add: fresh_accepts_def open_fd_def)
    then show ?thesis using DealListen_inv [of ?s accs now r] t(1) assms(4) True by (simp add: handle_event_def)
  next
    case False
    then have i: "ws_inv (Some fd) ?s" "fd \<noteq> ws_listenFd ?s" using t(1) by simp_all
    obtain c where "ws_users ?s fd = Some c" using held_conn [OF i] by metis
    then have "r \<in> {CloseConn fd ?s, DealRead W fd ?s, DealWrite W fd ?s}"
      using assms(4) False t(2) by (simp add: handle_event_def some_event_def split: if_splits)
    then show ?thesis using CloseConn_inv [OF i] DealRead_inv [OF i, of W] by blast
  qed
qed


text \<open>A wait moves the reported connections from the kernel to the list of events.\<close>

lemma ep_report_other: "x \<notin> fst ` set evs \<Longrightarrow> fold (\<lambda>ev. ep_report (fst ev)) evs m x = m x"
  by (induction evs arbitrary: m) (auto simp: ep_report_def split: option.splits prod.splits)

lemma ep_report_at:
  assumes "distinct (map fst evs)" "x \<in> fst ` set evs" "m x = Some (ev, a)" "ev AND EPOLLONESHOT \<noteq> 0"
  shows "fold (\<lambda>ev. ep_report (fst ev)) evs m x = Some (ev, False)"
  using assms
proof (induction evs arbitrary: m)
  case (Cons e evs)
  show ?case
  proof (cases "x = fst e")
    case True
    then have "x \<notin> fst ` set evs" using Cons.prems(1) by auto
    moreover have "ep_report x m = m(x \<mapsto> (ev, False))" using Cons.prems(3,4) by (simp add: ep_report_def)
    ultimately show ?thesis using True ep_report_other [of x evs "ep_report x m"] by simp
  next
    case False
    then have "ep_report (fst e) m x = m x" by (auto simp: ep_report_def split: option.splits prod.splits)
    then show ?thesis using False Cons.prems Cons.IH [of "ep_report (fst e) m"] by auto
  qed
qed simp

lemma wait_inv:
  assumes "ws_inv None s" "ws_events s = []" "can_report evs s"
  shows "ws_inv None (s\<lparr>ws_events := evs, ws_epoll := fold (\<lambda>ev. ep_report (fst ev)) evs (ws_epoll s)\<rparr>)"
proof -
  let ?s = "s\<lparr>ws_events := evs, ws_epoll := fold (\<lambda>ev. ep_report (fst ev)) evs (ws_epoll s)\<rparr>"
  have o: "open_fd x ?s = open_fd x s" for x by (simp add: open_fd_def)
  have d: "distinct (map fst evs)" using assms(3) by (simp add: can_report_def)
  have "conn_ok 0 x ?s" if "x \<noteq> ws_listenFd s" for x
  proof (cases "x \<in> fst ` set evs")
    case True
    then obtain ev where ev: "ws_epoll s x = Some (ev, True)" using assms(3) by (auto simp: can_report_def)
    have ok: "conn_ok 0 x s" using ws_invD(5) [OF assms(1) that] by simp
    then have one: "ev AND EPOLLONESHOT \<noteq> 0" using ev by (simp add: conn_ok_def)
    have ep: "ws_epoll ?s x = Some (ev, False)" using ep_report_at [of evs x "ws_epoll s", OF d True ev one] by simp
    have "count (mset (map fst evs)) x = 1" using d True distinct_count_atmost_1 [of "map fst evs"] by simp
    then show ?thesis using ok one ev ep assms(2) unfolding conn_ok_def o by (simp add: holders_def armed_def)
  next
    case False
    then have "count (mset (map fst evs)) x = 0" by (metis count_mset_0_iff set_map)
    then show ?thesis using ws_invD(5) [OF assms(1) that] conn_ok_cong [of ?s x s 0] o [of x] assms(2) ep_report_other [OF False] by simp
  qed
  then show ?thesis using ws_invD(1-4,6,7,9) [OF assms(1)] o assms(3) unfolding ws_inv_def by (auto simp: can_report_def)
qed

text \<open>A worker takes a task, or its task becomes the held one.\<close>

lemma pool_loop_fds:
  assumes "pool_loop i p = Some (es, p')"
  shows "(\<exists>t. es = [Finished t] \<and> pool_fds p = add_mset (task_fd t) (pool_fds p'))
    \<or> ((es = [] \<or> (\<exists>t. es = [Started t])) \<and> pool_fds p' = pool_fds p)"
proof -
  have "pool_act AddTask Pool_destroy pool_loop (Step i) p = ([], es, p')" using assms by (simp add: pool_act_def)
  note books = web_pool.act_books(1,2) [OF this]
  have "pool_fds p = pool_fds p' + image_mset task_fd (mset (finished es))"
    using books(1) arg_cong [OF books(2), of "image_mset task_fd"] by (simp add: pool_fds_def ac_simps)
  moreover have "es = [] \<or> (\<exists>t. es = [Started t]) \<or> (\<exists>t. es = [Finished t])"
    using assms by (auto simp: pool_loop_def split: if_splits pool_worker.splits)
  ultimately show ?thesis by auto
qed

lemma take_task_inv:
  assumes "ws_inv None s" "pool_fds (ws_pool s) = add_mset fd (pool_fds p)"
  shows "ws_inv (Some fd) (s\<lparr>ws_pool := p\<rparr>)" "fd \<noteq> ws_listenFd s"
proof -
  let ?s = "s\<lparr>ws_pool := p\<rparr>"
  have o: "open_fd x ?s = open_fd x s" for x by (simp add: open_fd_def)
  show l: "fd \<noteq> ws_listenFd s" using ws_invD(9) [OF assms(1)] assms(2) by auto
  have "conn_ok (of_bool (Some fd = Some x)) x ?s" if "x \<noteq> ws_listenFd s" for x
  proof -
    have "holders x ?s + of_bool (Some fd = Some x) = holders x s" using assms(2) by (simp add: holders_def armed_def)
    then show ?thesis using ws_invD(5) [OF assms(1) that] unfolding conn_ok_def o by simp
  qed
  then show "ws_inv (Some fd) ?s" using ws_invD(1-4,6-9) [OF assms(1)] o assms(2) unfolding ws_inv_def by auto
qed

lemma same_pool_inv:
  assumes "ws_inv None s" "pool_fds p = pool_fds (ws_pool s)"
  shows "ws_inv None (s\<lparr>ws_pool := p\<rparr>)"
proof -
  have o: "open_fd x (s\<lparr>ws_pool := p\<rparr>) = open_fd x s" for x by (simp add: open_fd_def)
  have "conn_ok 0 x (s\<lparr>ws_pool := p\<rparr>) = conn_ok 0 x s" for x using assms(2) unfolding conn_ok_def o by (simp add: holders_def armed_def)
  then show ?thesis using ws_invD [OF assms(1)] o assms(2) unfolding ws_inv_def by auto
qed


section \<open>Every step keeps one holder\<close>

lemma set_conn_inv:
  assumes "ws_inv h s" "ws_users s fd = Some c" "same_socket c c'"
  shows "ws_inv h (s\<lparr>ws_users := (ws_users s)(fd \<mapsto> c')\<rparr>)"
proof -
  let ?s = "s\<lparr>ws_users := (ws_users s)(fd \<mapsto> c')\<rparr>"
  have o: "open_fd x ?s = open_fd x s" for x using assms(2,3) by (simp add: open_fd_def same_socket_def)
  have "conn_ok n x ?s = conn_ok n x s" for n x unfolding conn_ok_def o by (simp add: holders_def armed_def)
  then show ?thesis using ws_invD [OF assms(1)] assms(2,3) o unfolding ws_inv_def by (auto simp: same_socket_def)
qed

lemma set_env_inv:
  assumes "ws_inv h s"
  shows "ws_inv h (s\<lparr>ws_env := e\<rparr>)"
proof -
  have o: "open_fd x (s\<lparr>ws_env := e\<rparr>) = open_fd x s" for x by (simp add: open_fd_def)
  show ?thesis using assms unfolding ws_inv_def conn_ok_def o by (simp add: holders_def armed_def)
qed

lemma OnProcess_inv:
  assumes "ws_inv (Some fd) s" "fd \<noteq> ws_listenFd s" "ws_users s fd = Some c" "same_socket c c1" "OnProcess W fd c1 s = Some (Inr s')"
  shows "ws_inv None s'"
proof -
  obtain made c' e where p: "hc_process (ww_verify W) (ww_fs W) (ws_srcDir s) c1 (ws_env s) = Some (Inr (made, c', e))"
    "s' = mod_client fd (if made then EPOLLOUT else EPOLLIN) c' (s\<lparr>ws_env := e\<rparr>)"
    using assms(5) by (auto simp: OnProcess_def bind_wres_Inr_iff)
  have "same_socket c c'" using hc_process_socket [OF p(1)] assms(4) by (simp add: same_socket_def)
  then show ?thesis using mod_client_inv [OF set_env_inv [OF assms(1)], of e c c'] assms(2,3) p(2) by simp
qed

lemma close_after_inv:
  assumes "ws_inv (Some fd) s" "fd \<noteq> ws_listenFd s" "ws_users s fd = Some c" "same_socket c c1"
  shows "\<exists>s'. CloseConn fd (s\<lparr>ws_users := (ws_users s)(fd \<mapsto> c1)\<rparr>) = Inr s' \<and> ws_inv None s'"
  using CloseConn_inv [OF set_conn_inv [OF assms(1,3,4)]] assms(2) by simp

lemma OnRead_inv:
  assumes "ws_inv (Some fd) s" "fd \<noteq> ws_listenFd s" "OnRead W os fd s = Some (Inr s')"
  shows "ws_inv None s'"
proof -
  obtain c where c: "ws_users s fd = Some c" using held_conn [OF assms(1,2)] by metis
  obtain ret c1 where r: "hc_read (isET s) os c = Some (Inr (ret, c1))"
    "CloseConn fd (s\<lparr>ws_users := (ws_users s)(fd \<mapsto> c1)\<rparr>) = Inr s' \<or> OnProcess W fd c1 s = Some (Inr s')"
    using assms(3) by (auto simp: OnRead_def c bind_wres_Inr_iff split: if_splits)
  note sock = hc_read_socket [OF r(1)]
  show ?thesis using r(2) close_after_inv [OF assms(1,2) c sock] OnProcess_inv [OF assms(1,2) c sock] by auto
qed

lemma OnWrite_inv:
  assumes "ws_inv (Some fd) s" "fd \<noteq> ws_listenFd s" "OnWrite W os fd s = Some (Inr (s', sent))"
  shows "ws_inv None s'"
proof -
  obtain c where c: "ws_users s fd = Some c" using held_conn [OF assms(1,2)] by metis
  obtain ret c1 where r: "hc_write (isET s) os c = Some (Inr (ret, sent, c1))"
    "CloseConn fd (s\<lparr>ws_users := (ws_users s)(fd \<mapsto> c1)\<rparr>) = Inr s' \<or> OnProcess W fd c1 s = Some (Inr s')
      \<or> s' = mod_client fd EPOLLOUT c1 s"
    using assms(3) by (auto simp: OnWrite_def c bind_wres_Inr_iff split: if_splits)
  note sock = hc_write_socket [OF r(1)]
  show ?thesis
    using r(2) close_after_inv [OF assms(1,2) c sock] OnProcess_inv [OF assms(1,2) c sock] mod_client_inv [OF assms(1,2) c sock] by auto
qed

lemma run_task_inv:
  assumes "ws_inv (Some (task_fd t)) s" "task_fd t \<noteq> ws_listenFd s" "run_task W ros wos t s = Some (Inr s')"
  shows "ws_inv None s'"
  using assms by (cases t) (auto simp: bind_wres_Inr_iff dest: OnRead_inv OnWrite_inv)

lemma ws_step_inv:
  assumes "ws_step W s s'" "ws_inv None s"
  shows "ws_inv None s'"
  using assms
proof (cases rule: ws_stepE)
  case (wait nows now s1 evs)
  then have "s1 = s" using ws_invD(1) [OF assms(2)] by (simp add: before_wait_def)
  then show ?thesis using wait wait_inv [OF assms(2)] by simp
next
  case (event fd ev evs accs now)
  then show ?thesis using handle_event_inv [OF assms(2) event(1,2)] by blast
next
  case (work i es p ros wos)
  consider t where "es = [Finished t]" "pool_fds (ws_pool s) = add_mset (task_fd t) (pool_fds p)"
    | "es = [] \<or> (\<exists>t. es = [Started t])" "pool_fds p = pool_fds (ws_pool s)"
    using pool_loop_fds [OF work(1)] by blast
  then show ?thesis
  proof cases
    case 1
    then show ?thesis using take_task_inv [OF assms(2) 1(2)] work(2) run_task_inv [of t "s\<lparr>ws_pool := p\<rparr>"] by simp
  next
    case 2
    then have "s' = s\<lparr>ws_pool := p\<rparr>" using work(2) by auto
    then show ?thesis using same_pool_inv [OF assms(2) 2(2)] by simp
  qed
qed

lemma ws_reach_inv: "ws_reach W s0 s \<Longrightarrow> ws_inv None s0 \<Longrightarrow> ws_inv None s"
  by (induction rule: ws_reach.induct) (auto dest: ws_step_inv)


lemma WebServer_new_fields:
  fixes s0 :: "('a, 'e) WebServer"
  assumes "WebServer_new port trigMode timeoutMS threadNum cwd junk sock answers e = Inr s0"
  shows "ws_timeoutMS s0 = timeoutMS" "ws_timer s0 = timer_new" "ws_users s0 = Map.empty" "ws_events s0 = []" "ws_userCount s0 = 0"
    "pool_fds (ws_pool s0) = {#}" "ws_connEvent s0 AND EPOLLONESHOT \<noteq> 0" "fd \<noteq> ws_listenFd s0 \<Longrightarrow> ws_epoll s0 fd = None"
proof -
  have one: "ws_connEvent (InitEventMode trigMode s) AND EPOLLONESHOT \<noteq> 0" for s :: "('a, 'e) WebServer"
    by (simp add: InitEventMode_def Let_def EPOLLONESHOT_def EPOLLRDHUP_def EPOLLET_def)
  have keep: "ws_timeoutMS (InitEventMode trigMode s) = ws_timeoutMS s" "ws_timer (InitEventMode trigMode s) = ws_timer s"
    "ws_users (InitEventMode trigMode s) = ws_users s" "ws_epoll (InitEventMode trigMode s) = ws_epoll s"
    "ws_events (InitEventMode trigMode s) = ws_events s" "ws_pool (InitEventMode trigMode s) = ws_pool s"
    "ws_userCount (InitEventMode trigMode s) = ws_userCount s" for s :: "('a, 'e) WebServer"
    by (simp_all add: InitEventMode_def Let_def)
  obtain pool :: "web_task Pool" where pool: "Pool_new threadNum = Inr pool"
    using assms by (auto simp: WebServer_new_def bind_res_Inr_iff)
  then have fds: "pool_fds pool = {#}" by (auto simp: Pool_new_def pool_fds_def bind_res_Inr_iff)
  show "ws_timeoutMS s0 = timeoutMS" "ws_timer s0 = timer_new" "ws_users s0 = Map.empty" "ws_events s0 = []" "ws_userCount s0 = 0"
    "pool_fds (ws_pool s0) = {#}" "ws_connEvent s0 AND EPOLLONESHOT \<noteq> 0" "fd \<noteq> ws_listenFd s0 \<Longrightarrow> ws_epoll s0 fd = None"
    using assms by (auto simp: WebServer_new_def bind_res_Inr_iff pool Let_def InitSocket_def AddFd_def ctl_result_def ctl_defs keep one fds split: prod.splits if_splits option.splits)
qed

lemma WebServer_new_inv:
  assumes "WebServer_new port trigMode timeoutMS threadNum cwd junk sock answers e = Inr s0" "timeoutMS \<le> 0"
  shows "ws_inv None s0"
  using WebServer_new_fields [OF assms(1)] assms(2) by (simp add: ws_inv_def conn_ok_def holders_def armed_def open_fd_def)

lemma et_write_again:
  assumes "iov_ok c" "hc_write True os c = Some (Inr (r, sent, c'))" "pending c' \<noteq> []"
    and "\<forall>x \<in> set os. x = Inl EAGAIN \<or> (\<exists>room. x = Inr room \<and> 0 < room)"
  shows "r = Inl EAGAIN"
  using assms
proof (induction os arbitrary: c r sent)
  case (Cons x os)
  show ?case
  proof (cases x)
    case (Inl errno)
    then show ?thesis using Cons.prems by auto
  next
    case (Inr room)
    define len where "len = min room (length (pending c))"
    have "\<exists>y. pending c = y @ pending c'" using hc_write_prefix [OF Cons.prems(1,2)] by auto
    then have len: "0 < len" "len \<le> length (pending c)" and ne: "pending c \<noteq> []" using Inr Cons.prems(3,4) by (auto simp: len_def)
    obtain c1 where c1: "advance_iov len c = Inr c1" "iov_ok c1" "pending c1 = drop len (pending c)"
      using advance_iov_ok [OF Cons.prems(1) len] by blast
    obtain later where "hc_write True os c1 = Some (Inr (r, later, c'))"
      using Cons.prems(2) Inr len ne c1(1) iov_total_pending [OF Cons.prems(1)] iov_total_pending [OF c1(2)]
      by (auto simp: Let_def ToWriteBytes_def simp flip: len_def split: option.splits sum.splits)
    then show ?thesis using Cons.IH [OF c1(2)] Cons.prems(3,4) by auto
  qed
qed simp

section \<open>Exclusive use, and what the modes do\<close>


definition some_world :: "unit web_world" where
  "some_world = \<lparr>ww_verify = (\<lambda>_ _ _ e. Some (Inr (False, e))), ww_fs = some_fs, ww_adjust = (\<lambda>_ _ t. Inr t)\<rparr>"

definition some_start :: "(unit, unit) WebServer" where
  "some_start = \<lparr>ws_timeoutMS = 0, ws_isClose = False, ws_listenFd = 3, ws_srcDir = ''/w/resources/'',
     ws_listenEvent = EPOLLRDHUP, ws_connEvent = EPOLLONESHOT OR EPOLLRDHUP, ws_timer = timer_new,
     ws_pool = \<lparr>pl_workers = [Idle], pl_isClosed = False, pl_tasks = []\<rparr>, ws_epoll = [3 \<mapsto> (EPOLLRDHUP OR EPOLLIN, True)],
     ws_users = Map.empty, ws_userCount = 0, ws_events = [], ws_refused = [], ws_env = ()\<rparr>"

lemma some_start_new: "WebServer_new 8080 0 0 1 ''/w'' 0 3 (0, 0, 0, 0) () = Inr some_start"
  by (simp add: WebServer_new_def Pool_new_def InitSocket_def InitEventMode_def AddFd_def ctl_result_def ctl_defs some_start_def Let_def)

text \<open>The listening socket is readable; the main thread accepts a client on descriptor 5.\<close>

lemma some_accept: "\<exists>s. ws_reach some_world some_start s \<and> open_fd 5 s \<and> ws_listenFd s = 3"
proof -
  let ?s1 = "some_start\<lparr>ws_events := [(3, EPOLLIN)], ws_epoll := fold (\<lambda>ev. ep_report (fst ev)) [(3, EPOLLIN)] (ws_epoll some_start)\<rparr>"
  have 1: "ws_step some_world some_start ?s1"
    by (rule ws_step.wait [of _ "\<lambda>_. 0" 0])
       (simp_all add: some_start_def before_wait_def can_report_def some_event_def EPOLLIN_def)
  obtain s2 where s2: "AddClient 0 5 () (?s1\<lparr>ws_events := []\<rparr>) = Inr s2" "ws_listenFd s2 = 3" "open_fd 5 s2"
    by (simp add: AddClient_def hc_init_def some_start_def open_fd_def)
  have "ws_step some_world ?s1 s2"
    by (rule ws_step.event [of _ 3 EPOLLIN "[]" "[Some (5, ())]" _ 0])
       (use s2(1) in \<open>simp_all add: handle_event_def fresh_accepts_def some_start_def open_fd_def MAX_FD_def EPOLLRDHUP_def EPOLLET_def\<close>)
  with 1 s2(2,3) show ?thesis by (meson ws_reach.start ws_reach.step)
qed


text \<open>With a timeout the first wait reads the front of an empty heap of timers: \<open>getNextTick\<close> tests the wrong way.\<close>

theorem start_with_timeout_undefined:
  assumes "WebServer_new port trigMode timeoutMS threadNum cwd junk sock answers e = Inr s0" "0 < timeoutMS"
  shows "before_wait nows now s0 = Inl Undefined_Behaviour"
  using WebServer_new_fields(1,2) [OF assms(1)] assms(2) getNextTick_inverted(1) [of "timer_new :: int timer" nows now]
  by (simp add: before_wait_def timer_new_def)

text \<open>The server of \<open>code/main.cpp\<close> has a timeout of a minute, and so meets this as soon as it starts to wait.\<close>

definition web_main :: "string \<Rightarrow> int \<Rightarrow> int \<Rightarrow> (int \<times> int \<times> int \<times> int) \<Rightarrow> 'e \<Rightarrow> ('a, 'e) WebServer res" where
  "web_main cwd junk sock answers e = WebServer_new 1316 3 60000 6 cwd junk sock answers e"

lemma web_main_undefined:
  assumes "web_main cwd junk sock answers e = Inr s0"
  shows "before_wait nows now s0 = Inl Undefined_Behaviour"
  using start_with_timeout_undefined [OF assms [unfolded web_main_def]] by simp

lemma web_main_starts: "\<exists>s0 :: (unit, unit) WebServer. web_main ''/w'' 0 3 (0, 0, 0, 0) () = Inr s0"
  by (simp add: web_main_def WebServer_new_def Pool_new_def InitSocket_def InitEventMode_def AddFd_def ctl_result_def ctl_defs Let_def)

text \<open>
  Edge triggered, an answer that the socket takes only in part stays: what was sent is the front of what was
  pending, the rest is pending, and the connection waits for room.
\<close>

theorem et_write_resumes:
  assumes "isET s" "ws_users s fd = Some c" "iov_ok c" "length (pending c) < 2 ^ 31"
    and "OnWrite W os fd s = Some (Inr (s', sent))" "sent \<noteq> pending c"
    and "\<forall>x \<in> set os. x = Inl EAGAIN \<or> (\<exists>room. x = Inr room \<and> 0 < room)"
  shows "\<exists>c'. pending c = sent @ pending c' \<and> iov_ok c' \<and> s' = mod_client fd EPOLLOUT c' s"
proof -
  obtain ret c1 where w: "hc_write True os c = Some (Inr (ret, sent, c1))" using assms(1,2,5) by (auto simp: OnWrite_def bind_wres_Inr_iff)
  have ok: "pending c = sent @ pending c1" "iov_ok c1" using hc_write_prefix [OF assms(3) w] by auto
  have left: "pending c1 \<noteq> []" using ok(1) assms(6) by auto
  have "ret = Inl EAGAIN" using et_write_again [OF assms(3) w left assms(7)] .
  moreover have "ToWriteBytes c1 = Inr (int (length (pending c1)))"
    using iov_total_pending [OF ok(2)] ok(1) assms(4) by (simp add: ToWriteBytes_def int_of_size_def Let_def)
  ultimately show ?thesis using assms(1,2,5) w left ok by (auto simp: OnWrite_def)
qed

definition some_serving :: "u32 \<Rightarrow> (unit, unit) WebServer" where
  "some_serving events = some_start\<lparr>ws_connEvent := events, ws_users := [5 \<mapsto> some_conn\<lparr>hc_fd := 5, hc_isClose := False\<rparr>], ws_userCount := 1\<rparr>"

lemma some_serving_conn: "iov_ok (some_conn\<lparr>hc_fd := 5, hc_isClose := False\<rparr>)" "pending (some_conn\<lparr>hc_fd := 5, hc_isClose := False\<rparr>) = ''abcde''"
  using some_conn_ok by (simp_all add: iov_ok_def pending_def iov0_bytes_def iov1_bytes_def some_conn_def HttpConn_new_def)

theorem et_write_resumes_witness:
  "\<exists>s' c'. OnWrite some_world [Inr 3, Inl EAGAIN] 5 (some_serving EPOLLET) = Some (Inr (s', ''abc'')) \<and> pending c' = ''de''
     \<and> s' = mod_client 5 EPOLLOUT c' (some_serving EPOLLET)"
proof -
  let ?c = "some_conn\<lparr>hc_fd := 5, hc_isClose := False\<rparr>"
  have s: "isET (some_serving EPOLLET)" "ws_users (some_serving EPOLLET) 5 = Some ?c"
    by (simp_all add: some_serving_def isET_def EPOLLET_def)
  obtain s' where w: "OnWrite some_world [Inr 3, Inl EAGAIN] 5 (some_serving EPOLLET) = Some (Inr (s', ''abc''))"
    using s by (simp add: OnWrite_def some_conn_def HttpConn_new_def pending_def iov0_bytes_def iov1_bytes_def iov_total_def advance_iov_def
      ToWriteBytes_def int_of_size_def Let_def RetrieveAll_def readable_def)
  from et_write_resumes [OF s some_serving_conn(1) _ w] obtain c' where "''abcde'' = ''abc'' @ pending c'" "s' = mod_client 5 EPOLLOUT c' (some_serving EPOLLET)"
    unfolding some_serving_conn(2) by auto
  with w show ?thesis by auto
qed

text \<open>
  C39: Level triggered, the loop of \<open>write\<close> ends when no more than 10240 bytes are left, with a positive result; \<open>OnWrite_\<close>
  waits for room only after an error, so it closes the connection and the rest of the answer is lost.
\<close>

theorem lt_write_truncates:
  assumes "\<not> isET s" "ws_users s fd = Some c" "iov_ok c" "0 < room" "room < length (pending c)" "length (pending c) \<le> room + 10240"
  shows "\<exists>s'. OnWrite W (Inr room # os) fd s = Some (Inr (s', take room (pending c))) \<and> \<not> open_fd fd s'"
proof -
  obtain c1 where c1: "advance_iov room c = Inr c1" "iov_ok c1" "pending c1 = drop room (pending c)"
    using advance_iov_ok [OF assms(3,4)] assms(5) by auto
  have tot: "iov_total c1 = Inr (length (pending c) - room)" using iov_total_pending [OF c1(2)] c1(3) by simp
  have small: "int_of_size (length (pending c) - room) = int (length (pending c)) - int room"
    using assms(5,6) by (simp add: int_of_size_def Let_def of_nat_diff)
  have w: "hc_write False (Inr room # os) c = Some (Inr (Inr room, take room (pending c), c1))"
    using assms(4-6) c1(1) tot small iov_total_pending [OF assms(3)] by (auto simp: Let_def ToWriteBytes_def)
  let ?s = "s\<lparr>ws_users := (ws_users s)(fd \<mapsto> c1)\<rparr>"
  have "OnWrite W (Inr room # os) fd s = bind_wres (Some (CloseConn fd ?s)) (\<lambda>s'. Some (Inr (s', take room (pending c))))"
    using assms(1,2,5) w tot small by (simp add: OnWrite_def ToWriteBytes_def)
  moreover have "\<exists>s'. CloseConn fd ?s = Inr s' \<and> \<not> open_fd fd s'"
    by (cases "hc_isClose c1") (simp_all add: CloseConn_def hc_Close_def open_fd_def Let_def)
  ultimately show ?thesis by auto
qed

theorem lt_write_truncates_witness:
  "\<exists>s'. OnWrite some_world [Inr 3] 5 (some_serving 0) = Some (Inr (s', ''abc'')) \<and> \<not> open_fd 5 s'"
  using lt_write_truncates [of "some_serving 0" 5 _ 3 some_world "[]", OF _ _ some_serving_conn(1)]
  unfolding some_serving_conn(2) by (simp add: some_serving_def isET_def)

end
