(* ===== verification/Event_Loop.thy ===== *)
theory Event_Loop
  imports Epoll Timer "HOL-Library.AList"
begin

text \<open>
  The reactor of \<open>code\<close>: \<open>channel\<close> (a descriptor with its callbacks), \<open>epoller\<close> (the table of channels over an
  epoll instance), \<open>eventLoop\<close> (waiting, dispatching, functions queued by other threads) and \<open>Acceptor\<close>.
  Channels are objects on a heap, reached by shared pointers: one is destroyed, and its descriptor
  closed, when the last pointer goes. Callbacks are names; what the callbacks of a client do is the
  parameter \<open>U\<close>, a function on the whole state that may throw. The kernel's side is part of the state:
  the open descriptors, the interest list, the counter of the event descriptor and whether a write to
  it has still to be reported.
\<close>

unbundle bit_operations_syntax

section \<open>State\<close>

datatype 'c callback = Wake_Read | User 'c

record 'c channel =
  ch_fd :: int
  ch_events :: u32
  ch_revents :: u32
  read_handler :: "'c callback option"
  write_handler :: "'c callback option"
  update_handler :: "'c callback option"
  error_handler :: "'c callback option"

text \<open>
  Pointers to channels are held by the table of the epoller (\<open>el_map\<close>), by the vector of ready channels
  (\<open>el_ready\<close>) and by the rest of the program (\<open>el_held\<close>; the loop holds its wake-up channel).
\<close>

record ('c, 's) eventLoop =
  el_channels :: "nat \<rightharpoonup> 'c channel"
  el_held :: "nat list"
  el_ready :: "nat list"
  el_next :: nat
  el_map :: "(int \<times> nat) list"
  el_open :: "int list"
  el_epoll :: interest
  event_fd :: int
  el_counter :: nat
  el_edge :: bool
  wakeup_channel :: nat
  el_thread :: nat
  el_locked :: bool
  pending_functions :: "'c callback list"
  el_timer :: "'c callback timer"
  is_stop :: bool
  is_looping :: bool
  is_event_handling :: bool
  el_user :: 's

text \<open>A computation ends normally or with a fault, and changes the state either way.\<close>

type_synonym 'w eff = "'w \<Rightarrow> fault option \<times> 'w"

definition then_do :: "fault option \<times> 'w \<Rightarrow> 'w eff \<Rightarrow> fault option \<times> 'w" where
  "then_do r f = (case r of (None, s) \<Rightarrow> f s | (Some e, s) \<Rightarrow> (Some e, s))"

lemma then_do_simps [simp]: "then_do (None, s) f = f s" "then_do (Some e, s) f = (Some e, s)"
  by (simp_all add: then_do_def)

section \<open>Channels\<close>

definition channel_new :: "int \<Rightarrow> 'c channel" where
  "channel_new fd = \<lparr>ch_fd = fd, ch_events = 0, ch_revents = 0, read_handler = None, write_handler = None, update_handler = None, error_handler = None\<rparr>"

definition upd_channel :: "nat \<Rightarrow> ('c channel \<Rightarrow> 'c channel) \<Rightarrow> ('c, 's) eventLoop \<Rightarrow> ('c, 's) eventLoop" where
  "upd_channel p f s = s\<lparr>el_channels := (case el_channels s p of Some c \<Rightarrow> (el_channels s)(p \<mapsto> f c) | None \<Rightarrow> el_channels s)\<rparr>"

definition set_fd :: "int \<Rightarrow> 'c channel \<Rightarrow> 'c channel" where
  "set_fd fd c = c\<lparr>ch_fd := fd\<rparr>"

definition set_events :: "u32 \<Rightarrow> 'c channel \<Rightarrow> 'c channel" where
  "set_events ev c = c\<lparr>ch_events := ev\<rparr>"

definition set_revents :: "u32 \<Rightarrow> 'c channel \<Rightarrow> 'c channel" where
  "set_revents ev c = c\<lparr>ch_revents := ev\<rparr>"

definition set_read_callback :: "'c callback \<Rightarrow> 'c channel \<Rightarrow> 'c channel" where
  "set_read_callback f c = c\<lparr>read_handler := Some f\<rparr>"

definition set_write_callback :: "'c callback \<Rightarrow> 'c channel \<Rightarrow> 'c channel" where
  "set_write_callback f c = c\<lparr>write_handler := Some f\<rparr>"

definition set_update_handler :: "'c callback \<Rightarrow> 'c channel \<Rightarrow> 'c channel" where
  "set_update_handler f c = c\<lparr>update_handler := Some f\<rparr>"

definition set_error_handler :: "'c callback \<Rightarrow> 'c channel \<Rightarrow> 'c channel" where
  "set_error_handler f c = c\<lparr>error_handler := Some f\<rparr>"

text \<open>\<open>make_shared\<close>: the new channel is held by its maker.\<close>

definition make_channel :: "int \<Rightarrow> ('c, 's) eventLoop \<Rightarrow> nat \<times> ('c, 's) eventLoop" where
  "make_channel fd s =
     (el_next s, s\<lparr>el_channels := (el_channels s)(el_next s \<mapsto> channel_new fd), el_next := Suc (el_next s), el_held := el_next s # el_held s\<rparr>)"

text \<open>Closing a descriptor removes it from the interest list.\<close>

definition close_fd :: "int \<Rightarrow> ('c, 's) eventLoop \<Rightarrow> ('c, 's) eventLoop" where
  "close_fd fd s = s\<lparr>el_open := removeAll fd (el_open s), el_epoll := (el_epoll s)(fd := None)\<rparr>"

definition channel_destroy :: "nat \<Rightarrow> ('c, 's) eventLoop \<Rightarrow> ('c, 's) eventLoop" where
  "channel_destroy p s =
     (case el_channels s p of
        None \<Rightarrow> s
      | Some c \<Rightarrow> (let s1 = s\<lparr>el_channels := (el_channels s)(p := None)\<rparr> in if ch_fd c \<ge> 0 then close_fd (ch_fd c) s1 else s1))"

definition pointed :: "nat \<Rightarrow> ('c, 's) eventLoop \<Rightarrow> bool" where
  "pointed p s \<longleftrightarrow> p \<in> set (el_held s) \<or> p \<in> set (el_ready s) \<or> p \<in> snd ` set (el_map s)"

text \<open>After a pointer to \<open>p\<close> went away.\<close>

definition release :: "nat \<Rightarrow> ('c, 's) eventLoop \<Rightarrow> ('c, 's) eventLoop" where
  "release p s = (if pointed p s then s else channel_destroy p s)"

definition drop_held :: "nat \<Rightarrow> ('c, 's) eventLoop \<Rightarrow> ('c, 's) eventLoop" where
  "drop_held p s = release p (s\<lparr>el_held := remove1 p (el_held s)\<rparr>)"

definition run_handler :: "('c callback \<Rightarrow> ('c, 's) eventLoop eff) \<Rightarrow> 'c callback option \<Rightarrow> ('c, 's) eventLoop eff" where
  "run_handler U h s = (case h of None \<Rightarrow> (None, s) | Some f \<Rightarrow> U f s)"

text \<open>The members are read again after each callback, which may have changed them.\<close>

definition when_event :: "('c callback \<Rightarrow> ('c, 's) eventLoop eff) \<Rightarrow> nat \<Rightarrow> u32 \<Rightarrow> ('c channel \<Rightarrow> 'c callback option) \<Rightarrow> ('c, 's) eventLoop eff" where
  "when_event U p bits sel s =
     (case el_channels s p of
        None \<Rightarrow> (Some Undefined_Behaviour, s)
      | Some c \<Rightarrow> if ch_revents c AND bits \<noteq> 0 then run_handler U (sel c) s else (None, s))"

definition handle_events :: "('c callback \<Rightarrow> ('c, 's) eventLoop eff) \<Rightarrow> nat \<Rightarrow> ('c, 's) eventLoop eff" where
  "handle_events U p s =
     (case el_channels s p of
        None \<Rightarrow> (Some Undefined_Behaviour, s)
      | Some c \<Rightarrow>
          if ch_revents c AND EPOLLHUP \<noteq> 0 \<and> ch_revents c AND EPOLLIN = 0 then run_handler U (error_handler c) s
          else if ch_revents c AND EPOLLERR \<noteq> 0 then run_handler U (error_handler c) s
          else then_do (then_do (then_do
                 (when_event U p (EPOLLIN OR EPOLLPRI OR EPOLLRDHUP) read_handler s)
                 (when_event U p EPOLLOUT write_handler))
                 (when_event U p (EPOLLIN OR EPOLLOUT OR EPOLLERR OR EPOLLHUP) update_handler))
                 (\<lambda>s. (None, upd_channel p (set_revents 0) s)))"

section \<open>Epoller\<close>

text \<open>
  \<open>epoll_ctl\<close> fails for a descriptor that is not open. A \<open>std::system_error\<close> is a \<open>std::runtime_error\<close>; its text is given up to the
  system's message. A null pointer is not passed.
\<close>

definition map_put :: "int \<Rightarrow> nat \<Rightarrow> ('c, 's) eventLoop \<Rightarrow> ('c, 's) eventLoop" where
  "map_put fd p s =
     (let s1 = s\<lparr>el_map := AList.update fd p (el_map s)\<rparr>
      in case map_of (el_map s) fd of None \<Rightarrow> s1 | Some q \<Rightarrow> release q s1)"

definition epoll_add :: "nat \<Rightarrow> u32 \<Rightarrow> ('c, 's) eventLoop eff" where
  "epoll_add p events s =
     (case el_channels s p of
        None \<Rightarrow> (Some Undefined_Behaviour, s)
      | Some c \<Rightarrow>
          (case if ch_fd c \<in> set (el_open s) then ctl_add (ch_fd c) events (el_epoll s) else None of
             None \<Rightarrow> (Some (Exception (Runtime_Error ''Failed to add channel'')), s)
           | Some m \<Rightarrow> (None, map_put (ch_fd c) p (s\<lparr>el_epoll := m\<rparr>))))"

definition epoll_mod :: "nat \<Rightarrow> u32 \<Rightarrow> ('c, 's) eventLoop eff" where
  "epoll_mod p events s =
     (case el_channels s p of
        None \<Rightarrow> (Some Undefined_Behaviour, s)
      | Some c \<Rightarrow>
          (case if ch_fd c \<in> set (el_open s) then ctl_mod (ch_fd c) events (el_epoll s) else None of
             None \<Rightarrow> (Some (Exception (Runtime_Error ''Failed to add channel'')), s)
           | Some m \<Rightarrow> (None, map_put (ch_fd c) p (s\<lparr>el_epoll := m\<rparr>))))"

definition epoll_del :: "nat \<Rightarrow> ('c, 's) eventLoop eff" where
  "epoll_del p s =
     (case el_channels s p of
        None \<Rightarrow> (Some Undefined_Behaviour, s)
      | Some c \<Rightarrow>
          (case if ch_fd c \<in> set (el_open s) then ctl_del (ch_fd c) (el_epoll s) else None of
             None \<Rightarrow> (Some (Exception (Runtime_Error ''Failed to delete channel'')), s)
           | Some m \<Rightarrow>
               let s1 = s\<lparr>el_epoll := m, el_map := AList.delete (ch_fd c) (el_map s)\<rparr>
               in (None, case map_of (el_map s) (ch_fd c) of None \<Rightarrow> s1 | Some q \<Rightarrow> release q s1)))"

fun take_events :: "(int \<times> u32) list \<Rightarrow> ('c, 's) eventLoop \<Rightarrow> nat list \<times> ('c, 's) eventLoop" where
  "take_events [] s = ([], s)"
| "take_events ((fd, ev) # evs) s =
     (case map_of (el_map s) fd of
        Some p \<Rightarrow> (case take_events evs (upd_channel p (set_revents ev) s) of (ps, s') \<Rightarrow> (p # ps, s'))
      | None \<Rightarrow> take_events evs s)"

definition EINTR :: int where
  "EINTR = 4"

text \<open>The answer of \<open>epoll_wait\<close> is an error number or at most 1024 events, which the kernel no longer has to report.\<close>

definition reported :: "(int \<times> u32) list \<Rightarrow> ('c, 's) eventLoop \<Rightarrow> ('c, 's) eventLoop" where
  "reported evs s =
     s\<lparr>el_epoll := fold (\<lambda>ev. ep_report (fst ev)) evs (el_epoll s), el_edge := (el_edge s \<and> event_fd s \<notin> fst ` set evs)\<rparr>"

definition epoll :: "int + (int \<times> u32) list \<Rightarrow> ('c, 's) eventLoop \<Rightarrow> (fault + nat list) \<times> ('c, 's) eventLoop" where
  "epoll answer s =
     (case answer of
        Inl errno \<Rightarrow> if errno \<noteq> EINTR then (Inl (Exception (Runtime_Error ''epoll_wait failed'')), s) else (Inr [], s)
      | Inr evs \<Rightarrow> (case take_events evs (reported evs s) of (ps, s') \<Rightarrow> (Inr ps, s'\<lparr>el_ready := ps\<rparr>)))"

section \<open>Event loop\<close>

text \<open>The event descriptor: a write adds one, unless the counter is full, and is reported once; a read takes it all.\<close>

definition wakeUp :: "('c, 's) eventLoop \<Rightarrow> ('c, 's) eventLoop" where
  "wakeUp s = (if el_counter s < 2 ^ 64 - 2 then s\<lparr>el_counter := Suc (el_counter s), el_edge := True\<rparr> else s)"

definition handleRead :: "('c, 's) eventLoop \<Rightarrow> ('c, 's) eventLoop" where
  "handleRead s = s\<lparr>el_counter := 0\<rparr>"

fun call :: "('c \<Rightarrow> ('c, 's) eventLoop eff) \<Rightarrow> 'c callback \<Rightarrow> ('c, 's) eventLoop eff" where
  "call U Wake_Read s = (None, handleRead s)"
| "call U (User c) s = U c s"

definition createEventfd :: "int \<Rightarrow> int res" where
  "createEventfd fd = (if fd < 0 then Inl (Exception (Runtime_Error ''Failed to create eventfd'')) else Inr fd)"

definition eventLoop_new :: "nat \<Rightarrow> int \<Rightarrow> int \<Rightarrow> int list \<Rightarrow> 's \<Rightarrow> ('c, 's) eventLoop res" where
  "eventLoop_new tid epfd efd others u =
     bind_res (if epfd < 0 then Inl (Exception (Runtime_Error ''Failed to create epoll instance'')) else Inr ()) (\<lambda>_.
     bind_res (createEventfd efd) (\<lambda>fd.
       let s0 = \<lparr>el_channels = Map.empty, el_held = [], el_ready = [], el_next = 0, el_map = [], el_open = fd # epfd # others,
                 el_epoll = Map.empty, event_fd = fd, el_counter = 0, el_edge = False, wakeup_channel = 0, el_thread = tid, el_locked = False,
                 pending_functions = [], el_timer = timer_new, is_stop = False, is_looping = False, is_event_handling = False, el_user = u\<rparr>;
           s1 = snd (make_channel fd s0);
           s2 = upd_channel 0 (set_read_callback Wake_Read \<circ> set_events (EPOLLIN OR EPOLLET)) s1
       in case epoll_add 0 (EPOLLIN OR EPOLLET) s2 of (None, s3) \<Rightarrow> Inr s3 | (Some e, _) \<Rightarrow> Inl e))"

text \<open>The destructor; the members, the epoller with its table among them, go afterwards.\<close>

definition eventLoop_destroy :: "('c, 's) eventLoop \<Rightarrow> ('c, 's) eventLoop" where
  "eventLoop_destroy s = close_fd (event_fd s) (upd_channel (wakeup_channel s) (set_fd (- 1)) s)"

definition is_in_loop_thread :: "nat \<Rightarrow> ('c, 's) eventLoop \<Rightarrow> bool" where
  "is_in_loop_thread tid s \<longleftrightarrow> el_thread s = tid"

definition stopLoop :: "('c, 's) eventLoop \<Rightarrow> ('c, 's) eventLoop" where
  "stopLoop s = wakeUp (s\<lparr>is_stop := True\<rparr>)"

text \<open>Locking a \<open>std::mutex\<close> again in the thread that holds it is undefined.\<close>

definition queueInLoop :: "'c callback \<Rightarrow> ('c, 's) eventLoop eff" where
  "queueInLoop f s =
     (if el_locked s then (Some Undefined_Behaviour, s)
      else (None, wakeUp (s\<lparr>pending_functions := pending_functions s @ [f]\<rparr>)))"

definition runInLoop :: "('c callback \<Rightarrow> ('c, 's) eventLoop eff) \<Rightarrow> nat \<Rightarrow> 'c callback \<Rightarrow> ('c, 's) eventLoop eff" where
  "runInLoop U tid f s = (if is_in_loop_thread tid s then U f s else queueInLoop f s)"

definition get_events :: "nat \<Rightarrow> ('c, 's) eventLoop \<Rightarrow> u32" where
  "get_events p s = (case el_channels s p of Some c \<Rightarrow> ch_events c | None \<Rightarrow> 0)"

definition epollerAdd :: "nat \<Rightarrow> ('c, 's) eventLoop eff" where
  "epollerAdd p s = epoll_add p (get_events p s) s"

definition epollerMod :: "nat \<Rightarrow> ('c, 's) eventLoop eff" where
  "epollerMod p s = epoll_mod p (get_events p s) s"

definition epollerDel :: "nat \<Rightarrow> ('c, 's) eventLoop eff" where
  "epollerDel p s = epoll_del p s"

definition handleUpdate :: "int \<Rightarrow> u32 \<Rightarrow> ('c, 's) eventLoop eff" where
  "handleUpdate fd events s =
     (case make_channel fd s of (p, s1) \<Rightarrow>
        (case epoll_mod p events (upd_channel p (set_events events) s1) of (r, s2) \<Rightarrow> (r, drop_held p s2)))"

fun run_functions :: "('c callback \<Rightarrow> ('c, 's) eventLoop eff) \<Rightarrow> 'c callback list \<Rightarrow> ('c, 's) eventLoop eff" where
  "run_functions U [] s = (None, s)"
| "run_functions U (f # fs) s = then_do (U f s) (run_functions U fs)"

definition performPendingFunctions :: "('c callback \<Rightarrow> ('c, 's) eventLoop eff) \<Rightarrow> ('c, 's) eventLoop eff" where
  "performPendingFunctions U s =
     (if el_locked s then (Some Undefined_Behaviour, s)
      else case run_functions U (pending_functions s) (s\<lparr>pending_functions := [], el_locked := True\<rparr>) of (r, s') \<Rightarrow> (r, s'\<lparr>el_locked := False\<rparr>))"

fun handle_all :: "('c callback \<Rightarrow> ('c, 's) eventLoop eff) \<Rightarrow> nat list \<Rightarrow> ('c, 's) eventLoop eff" where
  "handle_all U [] s = (None, s)"
| "handle_all U (p # ps) s = then_do (handle_events U p s) (handle_all U ps)"

text \<open>One turn of the loop after the timeout is known, up to the second \<open>tick\<close>.\<close>

definition dispatch :: "('c callback \<Rightarrow> ('c, 's) eventLoop eff) \<Rightarrow> int + (int \<times> u32) list \<Rightarrow> ('c, 's) eventLoop eff" where
  "dispatch U answer s =
     (case epoll answer s of
        (Inl e, s1) \<Rightarrow> (Some e, s1)
      | (Inr ps, s1) \<Rightarrow>
          then_do (then_do (handle_all U ps (s1\<lparr>is_event_handling := True\<rparr>)) (\<lambda>s. (None, s\<lparr>is_event_handling := False\<rparr>)))
            (performPendingFunctions U))"

definition run_tick :: "('c callback \<Rightarrow> ('c, 's) eventLoop eff) \<Rightarrow> 'c callback list \<times> 'c callback timer \<Rightarrow> ('c, 's) eventLoop eff" where
  "run_tick U r s = (case r of (fired, t) \<Rightarrow> run_functions U fired (s\<lparr>el_timer := t\<rparr>))"

fun release_all :: "nat list \<Rightarrow> ('c, 's) eventLoop \<Rightarrow> ('c, 's) eventLoop" where
  "release_all [] s = s"
| "release_all (p # ps) s = release_all ps (release p s)"

definition leave_turn :: "('c, 's) eventLoop \<Rightarrow> ('c, 's) eventLoop" where
  "leave_turn s = release_all (el_ready s) (s\<lparr>el_ready := []\<rparr>)"

record loop_input =
  li_nows :: "nat \<Rightarrow> int"
  li_now :: int
  li_answer :: "int + (int \<times> u32) list"
  li_nows2 :: "nat \<Rightarrow> int"

definition loop_turn :: "('c callback \<Rightarrow> ('c, 's) eventLoop eff) \<Rightarrow> loop_input \<Rightarrow> ('c, 's) eventLoop eff" where
  "loop_turn U i s =
     (case getNextTick (li_nows i) (li_now i) (el_timer s) of
        Inl e \<Rightarrow> (Some e, s)
      | Inr (timeout, fired, t) \<Rightarrow>
          (case then_do (then_do (run_tick U (fired, t) s) (dispatch U (li_answer i)))
                  (\<lambda>s. case tick (li_nows2 i) (el_timer s) of Inl e \<Rightarrow> (Some e, s) | Inr r \<Rightarrow> run_tick U r s) of
             (Some (Exception e), s') \<Rightarrow> (None, leave_turn s')
           | (r, s') \<Rightarrow> (r, leave_turn s')))"

text \<open>\<open>loop\<close>, with what each turn is given; \<open>None\<close> when the list ends before the loop does.\<close>

fun loop_turns :: "('c callback \<Rightarrow> ('c, 's) eventLoop eff) \<Rightarrow> loop_input list \<Rightarrow> ('c, 's) eventLoop \<Rightarrow> (fault option \<times> ('c, 's) eventLoop) option" where
  "loop_turns U is s =
     (if is_stop s then Some (None, s\<lparr>is_looping := False\<rparr>)
      else case is of
        [] \<Rightarrow> None
      | i # is' \<Rightarrow> (case loop_turn U i s of (None, s') \<Rightarrow> loop_turns U is' s' | (Some e, s') \<Rightarrow> Some (Some e, s')))"

definition loop :: "('c callback \<Rightarrow> ('c, 's) eventLoop eff) \<Rightarrow> nat \<Rightarrow> loop_input list \<Rightarrow> ('c, 's) eventLoop \<Rightarrow> (fault option \<times> ('c, 's) eventLoop) option" where
  "loop U tid is s =
     (if is_looping s \<or> \<not> is_in_loop_thread tid s then Some (Some Assertion_Failure, s)
      else loop_turns U is (s\<lparr>is_looping := True, is_stop := False\<rparr>))"

declare loop_turns.simps [simp del]

section \<open>The table of the epoller\<close>

text \<open>
  The table has an entry for exactly the descriptors in the interest list; the channel of an entry exists and
  has this descriptor, which is open.
\<close>

definition table_ok :: "('c, 's) eventLoop \<Rightarrow> bool" where
  "table_ok s \<longleftrightarrow> distinct (map fst (el_map s))
     \<and> (\<forall>fd p. map_of (el_map s) fd = Some p \<longrightarrow> 0 \<le> fd \<and> fd \<in> set (el_open s) \<and> (\<exists>c. el_channels s p = Some c \<and> ch_fd c = fd))
     \<and> (\<forall>fd. el_epoll s fd = None \<longleftrightarrow> map_of (el_map s) fd = None)"

lemma table_okD:
  assumes "table_ok s"
  shows "distinct (map fst (el_map s))" "map_of (el_map s) fd = Some p \<Longrightarrow> 0 \<le> fd \<and> fd \<in> set (el_open s) \<and> (\<exists>c. el_channels s p = Some c \<and> ch_fd c = fd)"
    "el_epoll s fd = None \<longleftrightarrow> map_of (el_map s) fd = None"
  using assms by (auto simp: table_ok_def)

lemma table_values: "table_ok s \<Longrightarrow> p \<in> snd ` set (el_map s) \<longleftrightarrow> (\<exists>fd. map_of (el_map s) fd = Some p)"
  using ran_distinct [OF table_okD(1), of s] by (auto simp: ran_def)

lemma release_pointed: "pointed p s \<Longrightarrow> release p s = s"
  by (simp add: release_def)

lemma release_fields [simp]:
  "el_map (release p s) = el_map s" "el_held (release p s) = el_held s" "event_fd (release p s) = event_fd s"
  "pending_functions (release p s) = pending_functions s" "el_edge (release p s) = el_edge s" "el_locked (release p s) = el_locked s"
  by (simp_all add: release_def channel_destroy_def close_fd_def Let_def split: option.split)

lemma upd_channel_fields [simp]:
  "el_map (upd_channel p f s) = el_map s" "el_epoll (upd_channel p f s) = el_epoll s" "el_open (upd_channel p f s) = el_open s"
  "el_held (upd_channel p f s) = el_held s" "event_fd (upd_channel p f s) = event_fd s" "pending_functions (upd_channel p f s) = pending_functions s"
  "el_edge (upd_channel p f s) = el_edge s" "el_locked (upd_channel p f s) = el_locked s" "el_ready (upd_channel p f s) = el_ready s"
  by (simp_all add: upd_channel_def)

lemma upd_channel_at: "el_channels (upd_channel p f s) q = (if q = p then map_option f (el_channels s q) else el_channels s q)"
  by (simp add: upd_channel_def split: option.split)

lemma upd_table_ok:
  assumes "table_ok s" "\<And>c. ch_fd (f c) = ch_fd c"
  shows "table_ok (upd_channel p f s)"
  using assms unfolding table_ok_def by (fastforce simp: upd_channel_at)

lemma add_table_ok:
  assumes "table_ok s" "epoll_add p events s = (r, s')"
  shows "table_ok s'"
proof (cases r)
  case (Some e)
  then have "s' = s" using assms(2) by (auto simp: epoll_add_def split: option.splits)
  then show ?thesis using assms(1) by simp
next
  case None
  then obtain c where c: "el_channels s p = Some c" "ch_fd c \<in> set (el_open s)" "0 \<le> ch_fd c" "el_epoll s (ch_fd c) = None"
    "s' = map_put (ch_fd c) p (s\<lparr>el_epoll := (el_epoll s)(ch_fd c \<mapsto> (events, True))\<rparr>)"
    using assms(2) by (auto simp: epoll_add_def ctl_add_def split: option.splits if_splits)
  have "map_of (el_map s) (ch_fd c) = None" using table_okD(3) [OF assms(1)] c(4) by blast
  then have "s' = s\<lparr>el_epoll := (el_epoll s)(ch_fd c \<mapsto> (events, True)), el_map := AList.update (ch_fd c) p (el_map s)\<rparr>"
    using c(5) by (simp add: map_put_def)
  then show ?thesis using assms(1) c unfolding table_ok_def by (auto simp: update_conv' distinct_update)
qed

text \<open>Modifying with the channel that is registered, or with another one while the registered one is held elsewhere.\<close>

definition mod_safe :: "nat \<Rightarrow> ('c, 's) eventLoop \<Rightarrow> bool" where
  "mod_safe p s \<longleftrightarrow> (\<forall>c q. el_channels s p = Some c \<longrightarrow> map_of (el_map s) (ch_fd c) = Some q \<longrightarrow>
     q = p \<or> q \<in> set (el_held s) \<or> q \<in> set (el_ready s))"

lemma mod_table_ok:
  assumes "table_ok s" "epoll_mod p events s = (r, s')" "mod_safe p s"
  shows "table_ok s'"
proof (cases r)
  case (Some e)
  then have "s' = s" using assms(2) by (auto simp: epoll_mod_def split: option.splits)
  then show ?thesis using assms(1) by simp
next
  case None
  then obtain c where c: "el_channels s p = Some c" "ch_fd c \<in> set (el_open s)" "0 \<le> ch_fd c" "el_epoll s (ch_fd c) \<noteq> None"
    "s' = map_put (ch_fd c) p (s\<lparr>el_epoll := (el_epoll s)(ch_fd c \<mapsto> (events, True))\<rparr>)"
    using assms(2) by (auto simp: epoll_mod_def ctl_mod_def split: option.splits if_splits)
  let ?s = "s\<lparr>el_epoll := (el_epoll s)(ch_fd c \<mapsto> (events, True)), el_map := AList.update (ch_fd c) p (el_map s)\<rparr>"
  obtain q where q: "map_of (el_map s) (ch_fd c) = Some q"
    using table_okD(3) [OF assms(1), of "ch_fd c"] c(4) by (cases "map_of (el_map s) (ch_fd c)") auto
  have "(ch_fd c, p) \<in> set (AList.update (ch_fd c) p (el_map s))"
    by (rule map_of_SomeD) (simp add: update_conv')
  then have "p \<in> snd ` set (el_map ?s)" by force
  then have "pointed q ?s" using assms(3) c(1) q by (auto simp: mod_safe_def pointed_def)
  then have "s' = ?s" using c(5) q by (simp add: map_put_def release_pointed)
  then show ?thesis using assms(1) c unfolding table_ok_def by (auto simp: update_conv' distinct_update)
qed

lemma destroy_table_ok:
  assumes "table_ok s" "\<And>fd. map_of (el_map s) fd \<noteq> Some p" "\<And>c. el_channels s p = Some c \<Longrightarrow> map_of (el_map s) (ch_fd c) = None"
  shows "table_ok (channel_destroy p s)"
proof (cases "el_channels s p")
  case None
  then show ?thesis using assms(1) by (simp add: channel_destroy_def)
next
  case (Some c)
  then show ?thesis using assms(1) assms(2) assms(3) [OF Some] unfolding table_ok_def
    by (auto simp: channel_destroy_def close_fd_def Let_def)
qed

lemma del_table_ok:
  assumes "table_ok s" "epoll_del p s = (r, s')"
  shows "table_ok s'"
proof (cases r)
  case (Some e)
  then have "s' = s" using assms(2) by (auto simp: epoll_del_def Let_def split: option.splits)
  then show ?thesis using assms(1) by simp
next
  case None
  then obtain c where c: "el_channels s p = Some c" "el_epoll s (ch_fd c) \<noteq> None"
    using assms(2) by (auto simp: epoll_del_def ctl_del_def Let_def split: option.splits if_splits)
  obtain q where q: "map_of (el_map s) (ch_fd c) = Some q"
    using table_okD(3) [OF assms(1), of "ch_fd c"] c(2) by (cases "map_of (el_map s) (ch_fd c)") auto
  let ?s = "s\<lparr>el_epoll := (el_epoll s)(ch_fd c := None), el_map := AList.delete (ch_fd c) (el_map s)\<rparr>"
  have s': "s' = release q ?s"
    using assms(2) None c(1) q by (auto simp: epoll_del_def ctl_del_def Let_def split: option.splits if_splits)
  have ok: "table_ok ?s" using assms(1) unfolding table_ok_def by (auto simp: delete_conv' distinct_delete)
  obtain d where d: "el_channels s q = Some d" "ch_fd d = ch_fd c" using table_okD(2) [OF assms(1) q] by blast
  have "map_of (el_map ?s) fd \<noteq> Some q" for fd
    using table_okD(2) [OF assms(1), of fd q] d by (auto simp: delete_conv')
  moreover have "map_of (el_map ?s) (ch_fd x) = None" if "el_channels ?s q = Some x" for x using that d by (simp add: delete_conv')
  ultimately have "table_ok (channel_destroy q ?s)" by (rule destroy_table_ok [OF ok])
  then show ?thesis using ok by (simp add: s' release_def)
qed

lemma reported_table_ok: "table_ok s \<Longrightarrow> table_ok (reported evs s)"
proof -
  have "(fold (\<lambda>ev. ep_report (fst ev)) evs m x = None) = (m x = None)" for m x
    by (induction evs arbitrary: m) (simp_all add: ep_report_dom)
  then show "table_ok s \<Longrightarrow> table_ok (reported evs s)" by (simp add: table_ok_def reported_def)
qed

text \<open>The events a channel has after a wait: those reported for its descriptor, if it is the registered one.\<close>

definition event_for :: "(int \<times> u32) list \<Rightarrow> (int \<times> nat) list \<Rightarrow> nat \<Rightarrow> 'c channel \<Rightarrow> u32" where
  "event_for evs m q c =
     (case map_of evs (ch_fd c) of Some ev \<Rightarrow> if map_of m (ch_fd c) = Some q then ev else ch_revents c | None \<Rightarrow> ch_revents c)"

lemma take_events_ok:
  assumes "table_ok s" "\<forall>e \<in> set evs. map_of (el_map s) (fst e) \<noteq> None" "distinct (map fst evs)"
  shows "\<exists>ps s'. take_events evs s = (ps, s') \<and> map Some ps = map (\<lambda>e. map_of (el_map s) (fst e)) evs \<and> table_ok s' \<and> el_map s' = el_map s
    \<and> (\<forall>q. el_channels s' q = map_option (\<lambda>c. set_revents (event_for evs (el_map s) q c) c) (el_channels s q))"
  using assms
proof (induction evs arbitrary: s)
  case Nil
  then show ?case by (simp add: set_revents_def event_for_def option.map_ident)
next
  case (Cons e evs)
  obtain fd ev where e: "e = (fd, ev)" by force
  obtain p where p: "map_of (el_map s) fd = Some p" using Cons.prems(2) e by auto
  obtain c where c: "el_channels s p = Some c" "ch_fd c = fd" using table_okD(2) [OF Cons.prems(1) p] by blast
  let ?s = "upd_channel p (set_revents ev) s"
  have ok: "table_ok ?s" using upd_table_ok [OF Cons.prems(1)] by (simp add: set_revents_def)
  have "\<forall>x \<in> set evs. map_of (el_map ?s) (fst x) \<noteq> None" "distinct (map fst evs)" using Cons.prems(2,3) by simp_all
  from Cons.IH [OF ok this] obtain ps s' where ih: "take_events evs ?s = (ps, s')" "map Some ps = map (\<lambda>e. map_of (el_map s) (fst e)) evs"
    "table_ok s'" "el_map s' = el_map s"
    "\<forall>q. el_channels s' q = map_option (\<lambda>c. set_revents (event_for evs (el_map s) q c) c) (el_channels ?s q)"
    by auto
  have none: "map_of evs fd = None" using Cons.prems(3) e by (simp add: map_of_eq_None_iff)
  have "el_channels s' q = map_option (\<lambda>c. set_revents (event_for (e # evs) (el_map s) q c) c) (el_channels s q)" for q
  proof (cases "q = p")
    case True
    then show ?thesis using ih(5) [rule_format, of p] c p none e by (simp add: upd_channel_at set_revents_def event_for_def)
  next
    case False
    then have "event_for (e # evs) (el_map s) q d = event_for evs (el_map s) q d" for d :: "'a channel"
      using p e none by (auto simp: event_for_def)
    then show ?thesis using False ih(5) [rule_format, of q] by (simp add: upd_channel_at)
  qed
  then show ?case using e p ih(1-4) by simp
qed


lemma eventLoop_new_ok:
  assumes "eventLoop_new tid epfd efd others u = Inr s0"
  shows "table_ok s0" "event_fd s0 = efd" "pending_functions s0 = []" "el_timer s0 = timer_new" "\<not> is_looping s0" "el_thread s0 = tid"
    "\<not> el_locked s0"
proof -
  have "0 \<le> efd" using assms by (auto simp: eventLoop_new_def createEventfd_def bind_res_Inr_iff split: if_splits)
  then show "table_ok s0" "event_fd s0 = efd" "pending_functions s0 = []" "el_timer s0 = timer_new" "\<not> is_looping s0" "el_thread s0 = tid"
    "\<not> el_locked s0"
    using assms
    by (auto simp: eventLoop_new_def createEventfd_def make_channel_def epoll_add_def upd_channel_def set_read_callback_def set_events_def channel_new_def
        ctl_add_def map_put_def table_ok_def Let_def bind_res_Inr_iff split: if_splits)
qed

definition some_loop :: "(unit, unit) eventLoop" where
  "some_loop = \<lparr>el_channels = [0 \<mapsto> \<lparr>ch_fd = 7, ch_events = EPOLLIN OR EPOLLET, ch_revents = 0, read_handler = Some Wake_Read, write_handler = None,
       update_handler = None, error_handler = None\<rparr>], el_held = [0], el_ready = [], el_next = 1, el_map = [(7, 0)], el_open = [7, 3],
     el_epoll = [7 \<mapsto> (EPOLLIN OR EPOLLET, True)], event_fd = 7, el_counter = 0, el_edge = False, wakeup_channel = 0, el_thread = 0, el_locked = False,
     pending_functions = [], el_timer = timer_new, is_stop = False, is_looping = False, is_event_handling = False, el_user = ()\<rparr>"

lemma some_loop_new: "eventLoop_new 0 3 7 [] () = Inr some_loop"
  by (simp add: some_loop_def eventLoop_new_def createEventfd_def make_channel_def epoll_add_def upd_channel_def set_read_callback_def set_events_def
      channel_new_def ctl_add_def map_put_def Let_def)

lemma some_loop_ok: "table_ok some_loop"
  using eventLoop_new_ok(1) [OF some_loop_new] .


section \<open>Where the loop goes wrong\<close>

text \<open>
  \<open>handleUpdate\<close> registers a new channel without callbacks in place of the old one; when nothing but the table pointed at the old
  one, its destructor closes the descriptor that has just been modified.
\<close>

theorem handleUpdate_replaces:
  assumes "table_ok s" "map_of (el_map s) fd = Some q" "\<not> pointed (el_next s) s"
  shows "\<exists>s' p. handleUpdate fd events s = (None, s') \<and> map_of (el_map s') fd = Some p
    \<and> el_channels s' p = Some \<lparr>ch_fd = fd, ch_events = events, ch_revents = 0, read_handler = None, write_handler = None, update_handler = None, error_handler = None\<rparr>
    \<and> (fd \<in> set (el_open s') \<longleftrightarrow> q \<in> set (el_held s) \<or> q \<in> set (el_ready s))"
proof -
  let ?p = "el_next s"
  have q: "0 \<le> fd" "fd \<in> set (el_open s)" "\<exists>c. el_channels s q = Some c \<and> ch_fd c = fd" using table_okD(2) [OF assms(1,2)] by auto
  have ep: "el_epoll s fd \<noteq> None" using table_okD(3) [OF assms(1)] assms(2) by simp
  have qmap: "q \<in> snd ` set (el_map s)" using table_values [OF assms(1)] assms(2) by blast
  then have pq: "?p \<noteq> q" using assms(3) by (auto simp: pointed_def)
  let ?c = "set_events events (channel_new fd)"
  let ?m = "AList.update fd ?p (el_map s)"
  let ?s1 = "s\<lparr>el_next := Suc ?p, el_held := ?p # el_held s, el_channels := (el_channels s)(?p \<mapsto> ?c),
    el_epoll := (el_epoll s)(fd \<mapsto> (events, True)), el_map := ?m\<rparr>"
  have mod: "epoll_mod ?p events (upd_channel ?p (set_events events) (snd (make_channel fd s))) = (None, release q ?s1)"
    using q(1,2) ep assms(2) by (auto simp: epoll_mod_def upd_channel_def make_channel_def set_events_def channel_new_def ctl_mod_def map_put_def)
  have dist: "distinct (map fst ?m)" using table_okD(1) [OF assms(1)] by (rule distinct_update)
  have vals: "snd ` set ?m = ran (map_of ?m)" using ran_distinct [OF dist] by simp
  have "map_of ?m fd' \<noteq> Some q" for fd'
    using table_okD(2) [OF assms(1), of fd' q] q(3) pq by (auto simp: update_conv')
  then have qm: "q \<notin> snd ` set ?m" unfolding vals by (auto simp: ran_def)
  have pm: "?p \<in> snd ` set ?m" unfolding vals by (simp add: ran_def update_conv') (metis)
  have pt: "pointed q ?s1 \<longleftrightarrow> q \<in> set (el_held s) \<or> q \<in> set (el_ready s)" using pq qm by (auto simp: pointed_def)
  let ?s2 = "(release q ?s1)\<lparr>el_held := el_held s\<rparr>"
  have "drop_held ?p (release q ?s1) = ?s2" using pm by (simp add: drop_held_def release_def [of ?p] pointed_def)
  then have h: "handleUpdate fd events s = (None, ?s2)" using mod by (simp add: handleUpdate_def make_channel_def)
  have "el_channels ?s2 ?p = Some ?c" "fd \<in> set (el_open ?s2) \<longleftrightarrow> pointed q ?s1"
    using pq q by (auto simp: release_def channel_destroy_def close_fd_def Let_def)
  then show ?thesis using h pt by (intro exI [of _ ?s2] exI [of _ ?p]) (simp add: update_conv' set_events_def channel_new_def)
qed

definition some_client :: "(unit, unit) eventLoop" where
  "some_client = some_loop\<lparr>el_channels := (el_channels some_loop)(1 \<mapsto> channel_new 9), el_next := 2, el_map := [(7, 0), (9, 1)], el_open := [7, 3, 9],
     el_epoll := (el_epoll some_loop)(9 \<mapsto> (EPOLLIN, True))\<rparr>"

theorem handleUpdate_replaces_witness: "\<exists>s'. handleUpdate 9 EPOLLOUT some_client = (None, s') \<and> 9 \<notin> set (el_open s')"
proof -
  have "table_ok some_client" using some_loop_ok by (simp add: table_ok_def some_client_def channel_new_def some_loop_def)
  moreover have "map_of (el_map some_client) 9 = Some 1" "\<not> pointed (el_next some_client) some_client"
    by (simp_all add: some_client_def some_loop_def pointed_def)
  ultimately show ?thesis using handleUpdate_replaces [of some_client 9 1 EPOLLOUT] by (auto simp: some_client_def some_loop_def)
qed

text \<open>Nothing ever adds to the timer of a loop, so its first turn reads the front of an empty heap.\<close>

theorem loop_undefined:
  assumes "eventLoop_new tid epfd efd others u = Inr s0"
  shows "loop U tid (i # is) s0 = Some (Some Undefined_Behaviour, s0\<lparr>is_looping := True, is_stop := False\<rparr>)"
  using eventLoop_new_ok(4-6) [OF assms] getNextTick_inverted(1) [of "timer_new :: 'a callback timer" "li_nows i" "li_now i"]
  by (simp add: loop_def is_in_loop_thread_def loop_turns.simps loop_turn_def timer_new_def)

theorem loop_undefined_witness:
  "loop (\<lambda>_ s. (None, s)) 0 [\<lparr>li_nows = (\<lambda>_. 0), li_now = 0, li_answer = Inr [], li_nows2 = (\<lambda>_. 0)\<rparr>] some_loop
     = Some (Some Undefined_Behaviour, some_loop\<lparr>is_looping := True, is_stop := False\<rparr>)"
  using loop_undefined [OF some_loop_new] by blast

section \<open>Functions queued by other threads\<close>

text \<open>
  The turns of a loop, cut where other threads can come between: at the wait, before each ready channel, and
  before the queued functions run (which happens under the mutex). The answer of \<open>getNextTick\<close>, which is
  undefined on the empty heap, does not matter here; the second \<open>tick\<close> on it does nothing. \<open>sy_queued\<close>
  and \<open>sy_ran\<close> record what was queued and what ran. An exception goes back to the wait.
\<close>

datatype loop_pc = At_Wait | At_Handle "nat list" | At_Perform

record ('c, 's) loop_sys =
  sy_loop :: "('c, 's) eventLoop"
  sy_pc :: loop_pc
  sy_queued :: "'c callback list"
  sy_ran :: "'c callback list"

definition newly_queued :: "('c, 's) eventLoop \<Rightarrow> ('c, 's) eventLoop \<Rightarrow> 'c callback list" where
  "newly_queued l l' = drop (length (pending_functions l)) (pending_functions l')"

inductive el_step :: "('c \<Rightarrow> ('c, 's) eventLoop eff) \<Rightarrow> ('c, 's) loop_sys \<Rightarrow> ('c, 's) loop_sys \<Rightarrow> bool" for U where
  queue: "queueInLoop f (sy_loop t) = (None, l) \<Longrightarrow> el_counter (sy_loop t) < 2 ^ 64 - 2 \<Longrightarrow>
     el_step U t (t\<lparr>sy_loop := l, sy_queued := sy_queued t @ [f]\<rparr>)"
| wait: "sy_pc t = At_Wait \<Longrightarrow> epoll answer (sy_loop t) = (Inr ps, l) \<Longrightarrow>
     el_step U t (t\<lparr>sy_loop := l\<lparr>is_event_handling := True\<rparr>, sy_pc := At_Handle ps\<rparr>)"
| handle: "sy_pc t = At_Handle (p # ps) \<Longrightarrow> handle_events (call U) p (sy_loop t) = (None, l) \<Longrightarrow>
     el_step U t (t\<lparr>sy_loop := l, sy_pc := At_Handle ps, sy_queued := sy_queued t @ newly_queued (sy_loop t) l\<rparr>)"
| handled: "sy_pc t = At_Handle [] \<Longrightarrow> el_step U t (t\<lparr>sy_loop := (sy_loop t)\<lparr>is_event_handling := False\<rparr>, sy_pc := At_Perform\<rparr>)"
| perform: "sy_pc t = At_Perform \<Longrightarrow> performPendingFunctions (call U) (sy_loop t) = (None, l) \<Longrightarrow>
     el_step U t (t\<lparr>sy_loop := leave_turn l, sy_pc := At_Wait, sy_ran := sy_ran t @ pending_functions (sy_loop t)\<rparr>)"
| handle_throws: "sy_pc t = At_Handle (p # ps) \<Longrightarrow> handle_events (call U) p (sy_loop t) = (Some (Exception e), l) \<Longrightarrow>
     el_step U t (t\<lparr>sy_loop := leave_turn l, sy_pc := At_Wait, sy_queued := sy_queued t @ newly_queued (sy_loop t) l\<rparr>)"
| perform_throws: "sy_pc t = At_Perform \<Longrightarrow> performPendingFunctions (call U) (sy_loop t) = (Some (Exception e), l) \<Longrightarrow>
     el_step U t (t\<lparr>sy_loop := leave_turn l, sy_pc := At_Wait\<rparr>)"

inductive_cases el_stepE [consumes 1, case_names queue wait handle handled perform handle_throws perform_throws]: "el_step U t t'"

inductive el_runs :: "('c \<Rightarrow> ('c, 's) eventLoop eff) \<Rightarrow> ('c, 's) loop_sys \<Rightarrow> ('c, 's) loop_sys \<Rightarrow> bool" for U t0 where
  start: "el_runs U t0 t0"
| step: "el_runs U t0 t \<Longrightarrow> el_step U t t' \<Longrightarrow> el_runs U t0 t'"

definition sys_start :: "('c, 's) eventLoop \<Rightarrow> ('c, 's) loop_sys" where
  "sys_start l = \<lparr>sy_loop = l, sy_pc = At_Wait, sy_queued = [], sy_ran = []\<rparr>"

text \<open>
  What is asked of a client's callbacks: they do not throw, and they touch the queue only by queueing functions, which wakes the
  loop, and not while the queue is locked.
\<close>

definition extends :: "('c, 's) eventLoop \<Rightarrow> ('c, 's) eventLoop \<Rightarrow> bool" where
  "extends s s' \<longleftrightarrow> (\<exists>fs. pending_functions s' = pending_functions s @ fs \<and> el_locked s' = el_locked s \<and> (el_locked s \<longrightarrow> fs = [])
     \<and> (el_edge s \<or> fs \<noteq> [] \<longrightarrow> el_edge s'))"

definition polite :: "('c \<Rightarrow> ('c, 's) eventLoop eff) \<Rightarrow> bool" where
  "polite U \<longleftrightarrow> (\<forall>c s. fst (U c s) = None \<and> extends s (snd (U c s)))"

lemma extends_refl [simp]: "extends s s"
  by (simp add: extends_def)

lemma extends_trans: "extends a b \<Longrightarrow> extends b c \<Longrightarrow> extends a c"
  by (fastforce simp: extends_def)

lemma call_polite: "polite U \<Longrightarrow> fst (call U f s) = None \<and> extends s (snd (call U f s))"
  by (cases f) (simp_all add: polite_def handleRead_def extends_def)

lemma run_handler_polite: "polite U \<Longrightarrow> fst (run_handler (call U) h s) = None \<and> extends s (snd (run_handler (call U) h s))"
  by (cases h) (simp_all add: run_handler_def call_polite)

definition quiet :: "('c, 's) eventLoop \<Rightarrow> fault option \<times> ('c, 's) eventLoop \<Rightarrow> bool" where
  "quiet s r \<longleftrightarrow> fst r \<in> {None, Some Undefined_Behaviour} \<and> extends s (snd r)"

lemma quiet_then: "quiet s r \<Longrightarrow> (\<And>s1. quiet s1 (f s1)) \<Longrightarrow> quiet s (then_do r f)"
  using extends_trans by (cases r; cases "fst r") (fastforce simp: quiet_def)+

lemma run_handler_quiet: "polite U \<Longrightarrow> quiet s (run_handler (call U) h s)"
  using run_handler_polite [of U h s] by (simp add: quiet_def)

lemma when_event_quiet: "polite U \<Longrightarrow> quiet s (when_event (call U) p bits sel s)"
  using run_handler_quiet [of U s] by (cases "el_channels s p") (simp_all add: when_event_def, simp_all add: quiet_def)

lemma handle_events_quiet: "polite U \<Longrightarrow> quiet s (handle_events (call U) p s)"
proof (cases "el_channels s p")
  case None
  then show ?thesis by (simp add: handle_events_def quiet_def)
next
  case (Some c)
  have "quiet s1 (None, upd_channel p (set_revents 0) s1)" for s1 :: "('a, 'b) eventLoop" by (simp add: quiet_def extends_def)
  then show "polite U \<Longrightarrow> ?thesis" unfolding handle_events_def Some option.case
    by (auto intro!: quiet_then when_event_quiet run_handler_quiet)
qed

lemma run_functions_polite: "polite U \<Longrightarrow> fst (run_functions (call U) fs s) = None \<and> extends s (snd (run_functions (call U) fs s))"
proof (induction fs arbitrary: s)
  case (Cons f fs)
  then show ?case using call_polite [of U f s] extends_trans by (cases "call U f s") fastforce
qed simp

lemma perform_polite:
  assumes "polite U" "\<not> el_locked s"
  shows "\<exists>s'. performPendingFunctions (call U) s = (None, s') \<and> pending_functions s' = [] \<and> \<not> el_locked s'"
  using run_functions_polite [OF assms(1), of "pending_functions s" "s\<lparr>pending_functions := [], el_locked := True\<rparr>"] assms(2)
  by (auto simp: performPendingFunctions_def extends_def split: prod.split)

lemma leave_turn_fields [simp]:
  "pending_functions (leave_turn s) = pending_functions s" "el_edge (leave_turn s) = el_edge s" "el_locked (leave_turn s) = el_locked s"
proof -
  have "pending_functions (release_all ps s) = pending_functions s \<and> el_edge (release_all ps s) = el_edge s \<and> el_locked (release_all ps s) = el_locked s"
    for ps and s :: "('a, 'b) eventLoop"
    by (induction ps arbitrary: s) simp_all
  then show "pending_functions (leave_turn s) = pending_functions s" "el_edge (leave_turn s) = el_edge s" "el_locked (leave_turn s) = el_locked s"
    by (simp_all add: leave_turn_def)
qed

lemma epoll_fields:
  assumes "epoll answer s = (r, s')"
  shows "pending_functions s' = pending_functions s" "el_locked s' = el_locked s"
proof -
  have t: "take_events evs s = (ps, s') \<Longrightarrow> pending_functions s' = pending_functions s \<and> el_locked s' = el_locked s" for evs ps s s'
    by (induction evs s arbitrary: ps rule: take_events.induct) (auto split: option.splits prod.splits)
  show "pending_functions s' = pending_functions s" "el_locked s' = el_locked s"
    using assms by (auto simp: epoll_def reported_def dest!: t split: sum.splits if_splits prod.splits)
qed

definition queue_ok :: "('c, 's) loop_sys \<Rightarrow> bool" where
  "queue_ok t \<longleftrightarrow> sy_queued t = sy_ran t @ pending_functions (sy_loop t) \<and> \<not> el_locked (sy_loop t)
     \<and> (sy_pc t = At_Wait \<and> pending_functions (sy_loop t) \<noteq> [] \<longrightarrow> el_edge (sy_loop t))"

lemma queue_ok_step:
  assumes "el_step U t t'" "polite U" "queue_ok t"
  shows "queue_ok t'"
  using assms(1)
proof (cases rule: el_stepE)
  case (queue f l)
  then show ?thesis using assms(3) by (auto simp: queue_ok_def queueInLoop_def wakeUp_def)
next
  case (wait answer ps l)
  then show ?thesis using assms(3) epoll_fields [OF wait(3)] by (simp add: queue_ok_def)
next
  case (handle p ps l)
  then have "extends (sy_loop t) l" using handle_events_quiet [OF assms(2), of "sy_loop t" p] by (simp add: quiet_def)
  then show ?thesis using assms(3) handle(1) by (auto simp: queue_ok_def extends_def newly_queued_def)
next
  case handled
  then show ?thesis using assms(3) by (simp add: queue_ok_def)
next
  case (perform l)
  then show ?thesis using assms(3) perform_polite [OF assms(2), of "sy_loop t"] by (auto simp: queue_ok_def)
next
  case (handle_throws p ps e l)
  then show ?thesis using handle_events_quiet [OF assms(2), of "sy_loop t" p] by (simp add: quiet_def)
next
  case (perform_throws e l)
  then show ?thesis using assms(3) perform_polite [OF assms(2), of "sy_loop t"] by (auto simp: queue_ok_def)
qed



text \<open>
  A callback that throws skips the queued functions of its turn: the wake-up has been taken by the wait, and the loop goes back to
  wait with a function queued and nothing to wake it.
\<close>

definition some_thrower :: "unit \<Rightarrow> (unit, unit) eventLoop eff" where
  "some_thrower c s = (Some (Exception (Runtime_Error ''handler'')), s)"

definition throwing_client :: "(unit, unit) eventLoop" where
  "throwing_client = upd_channel 1 (set_read_callback (User ())) some_client"

theorem throwing_callback_loses_wakeup:
  "\<exists>t. el_runs some_thrower (sys_start throwing_client) t \<and> sy_pc t = At_Wait \<and> pending_functions (sy_loop t) \<noteq> [] \<and> \<not> el_edge (sy_loop t)"
proof -
  let ?l0 = throwing_client
  let ?l1 = "wakeUp (?l0\<lparr>pending_functions := [User ()]\<rparr>)"
  obtain ps l2 where l2: "epoll (Inr [(9, EPOLLIN), (7, EPOLLIN)]) ?l1 = (Inr ps, l2)" "ps = [1, 0]" "pending_functions l2 = [User ()]" "\<not> el_edge l2"
    "el_channels l2 1 = Some ((channel_new 9)\<lparr>ch_revents := EPOLLIN, read_handler := Some (User ())\<rparr>)"
    by (simp add: epoll_def reported_def throwing_client_def some_client_def some_loop_def wakeUp_def upd_channel_def set_read_callback_def set_revents_def)
  let ?l3 = "l2\<lparr>is_event_handling := True\<rparr>"
  have h: "handle_events (call some_thrower) 1 ?l3 = (Some (Exception (Runtime_Error ''handler'')), ?l3)"
    using l2(5) by (simp add: handle_events_def when_event_def run_handler_def some_thrower_def channel_new_def epoll_bits)
  let ?t0 = "sys_start ?l0" and ?t1 = "\<lparr>sy_loop = ?l1, sy_pc = At_Wait, sy_queued = [User ()], sy_ran = []\<rparr>"
  let ?t2 = "\<lparr>sy_loop = ?l3, sy_pc = At_Handle ps, sy_queued = [User ()], sy_ran = []\<rparr>"
  let ?t3 = "\<lparr>sy_loop = leave_turn ?l3, sy_pc = At_Wait, sy_queued = [User ()] @ newly_queued ?l3 ?l3, sy_ran = []\<rparr>"
  have 1: "el_step some_thrower ?t0 ?t1"
    using el_step.queue [of "User ()" ?t0 _ some_thrower]
    by (simp add: queueInLoop_def sys_start_def throwing_client_def some_client_def some_loop_def upd_channel_def)
  have 2: "el_step some_thrower ?t1 ?t2" using el_step.wait [of ?t1 "Inr [(9, EPOLLIN), (7, EPOLLIN)]"] l2(1) by simp
  have 3: "el_step some_thrower ?t2 ?t3" using el_step.handle_throws [of ?t2 1 "[0]"] l2(2) h by simp
  have "el_runs some_thrower ?t0 ?t3" using 1 2 3 el_runs.start el_runs.step by metis
  then show ?thesis using l2(3,4) by (intro exI [of _ ?t3]) simp
qed

section \<open>Acceptor\<close>

text \<open>
  The queue of connections of the listening socket is a list of what \<open>accept\<close> will give. \<open>Socket\<close> and \<open>InetAddress\<close> are not in the
  repository; \<open>acceptFD\<close> is \<open>accept\<close>. The read callback takes one connection, or none when the queue is empty.
\<close>

record 'a Acceptor =
  ac_channel :: nat
  ac_listening :: bool
  newConnectionCallback :: bool

datatype 'a accepted = Called int 'a | Closed_Fd int

definition Acceptor_new :: "int \<Rightarrow> 'c callback \<Rightarrow> ('c, 's) eventLoop \<Rightarrow> 'a Acceptor \<times> ('c, 's) eventLoop" where
  "Acceptor_new fd read s =
     (case make_channel fd s of (p, s1) \<Rightarrow>
        (\<lparr>ac_channel = p, ac_listening = False, newConnectionCallback = False\<rparr>, upd_channel p (set_read_callback read) s1))"

definition setNewConnectionCallback :: "'a Acceptor \<Rightarrow> 'a Acceptor" where
  "setNewConnectionCallback a = a\<lparr>newConnectionCallback := True\<rparr>"

definition Acceptor_listen :: "'a Acceptor \<Rightarrow> ('c, 's) eventLoop \<Rightarrow> 'a Acceptor \<times> fault option \<times> ('c, 's) eventLoop" where
  "Acceptor_listen a s =
     (a\<lparr>ac_listening := True\<rparr>, epollerAdd (ac_channel a) (upd_channel (ac_channel a) (set_events (EPOLLIN OR EPOLLET)) s))"

definition Acceptor_handleRead :: "'a Acceptor \<Rightarrow> (int \<times> 'a) list \<Rightarrow> 'a accepted list \<times> (int \<times> 'a) list" where
  "Acceptor_handleRead a conns =
     (case conns of
        [] \<Rightarrow> ([], [])
      | (fd, addr) # rest \<Rightarrow> ([if newConnectionCallback a then Called fd addr else Closed_Fd fd], rest))"

text \<open>
  The listening socket is registered edge triggered: it is reported when connections have arrived since the last report, however many. A
  run is the list of what arrived before each report.
\<close>

fun accept_run :: "'a Acceptor \<Rightarrow> (int \<times> 'a) list list \<Rightarrow> (int \<times> 'a) list \<Rightarrow> 'a accepted list \<times> (int \<times> 'a) list" where
  "accept_run a [] conns = ([], conns)"
| "accept_run a (batch # batches) conns =
     (case Acceptor_handleRead a (conns @ batch) of (taken, rest) \<Rightarrow>
        (case accept_run a batches rest of (more_taken, left) \<Rightarrow> (taken @ more_taken, left)))"

lemma accept_run_takes_one:
  assumes "\<forall>b \<in> set batches. b \<noteq> []"
  shows "accept_run a batches conns =
    (map (\<lambda>(fd, addr). if newConnectionCallback a then Called fd addr else Closed_Fd fd) (take (length batches) (conns @ concat batches)),
     drop (length batches) (conns @ concat batches))"
  using assms
proof (induction batches arbitrary: conns)
  case (Cons b bs)
  obtain x rest where x: "conns @ b = x # rest" using Cons.prems by (cases "conns @ b") auto
  obtain fd addr where fd: "x = (fd, addr)" by force
  have all: "conns @ concat (b # bs) = x # rest @ concat bs" using x by (simp flip: append_assoc)
  show ?case using Cons.IH [of rest] Cons.prems x fd unfolding all by (simp add: Acceptor_handleRead_def del: take_append drop_append)
qed simp

text \<open>
  One connection is taken for each report, in order of arrival: when connections arrive together, the others stay in the
  queue, unanswered, until as many later ones have come.
\<close>

theorem acceptor_starves:
  assumes "\<forall>b \<in> set batches. b \<noteq> []"
  shows "length (fst (accept_run a batches [])) = length batches
    \<and> snd (accept_run a batches []) = drop (length batches) (concat batches)"
proof -
  have "length batches \<le> length (concat batches)" using assms
  proof (induction batches)
    case (Cons b bs)
    then show ?case by (cases b) simp_all
  qed simp
  then show ?thesis using accept_run_takes_one [OF assms, of a "[]"] by simp
qed

theorem acceptor_starves_witness:
  "snd (accept_run \<lparr>ac_channel = 1, ac_listening = True, newConnectionCallback = True\<rparr> [[(5 :: int, ''a''), (6, ''b''), (8, ''c'')]] []) = [(6, ''b''), (8, ''c'')]"
  using acceptor_starves [of "[[(5 :: int, ''a''), (6, ''b''), (8, ''c'')]]"] by simp

end
