(* ===== verification/Client_File.thy ===== *)
theory Client_File
  imports Storage_Util
begin

text \<open>
  \<open>FileUtil\<close> of the storage client (\<open>HttpServer/src/client/Util.hpp\<close>), over the file system of \<open>Storage_Util\<close>. It is a class of its
  own: sizes and offsets are \<open>size_t\<close>, so that the size of a missing file is the largest number, and scanning a
  folder makes it first. The lemmas show that the operations it shares with the class of the server do the same.
\<close>

section \<open>The code\<close>

definition client_FileSize :: "string \<Rightarrow> fsys \<Rightarrow> u64" where
  "client_FileSize p fs =
     (case fs_file fs p of
        Some c \<Rightarrow> of_nat (length c)
      | None \<Rightarrow> if fs_dir fs p then of_nat (fs_dirsize fs p) else - 1)"

definition client_Exists :: "string \<Rightarrow> fsys \<Rightarrow> bool" where
  "client_Exists p fs \<longleftrightarrow> fs_file fs p \<noteq> None \<or> fs_dir fs p"

definition client_LastAccessTime :: "string \<Rightarrow> fsys \<Rightarrow> int" where
  "client_LastAccessTime p fs = (if client_Exists p fs then fs_atime fs p else - 1)"

definition client_LastModifyTime :: "string \<Rightarrow> fsys \<Rightarrow> int" where
  "client_LastModifyTime p fs = (if client_Exists p fs then fs_mtime fs p else - 1)"

definition client_FileName :: "string \<Rightarrow> string" where
  "client_FileName p = (case find_last (CHR ''/'') p of None \<Rightarrow> p | Some pos \<Rightarrow> drop (pos + 1) p)"

definition client_GetPosLen :: "u64 \<Rightarrow> u64 \<Rightarrow> string \<Rightarrow> fsys \<Rightarrow> string option" where
  "client_GetPosLen pos len p fs =
     (if pos + len > client_FileSize p fs then None
      else (case fs_file fs p of
              None \<Rightarrow> None
            | Some c \<Rightarrow> if unat pos + unat len \<le> length c then Some (take (unat len) (drop (unat pos) c)) else None))"

definition client_GetContent :: "string \<Rightarrow> fsys \<Rightarrow> string option" where
  "client_GetContent p fs = client_GetPosLen 0 (client_FileSize p fs) p fs"

text \<open>A write that fails is printed, and the function still returns true.\<close>

definition client_SetContent :: "write_env \<Rightarrow> string \<Rightarrow> string \<Rightarrow> fsys \<Rightarrow> bool \<times> fsys" where
  "client_SetContent w p content fs =
     (if \<not> we_open w p then (False, fs)
      else (True,
            fs\<lparr>fs_file := (fs_file fs)(p \<mapsto> (case we_fail w p of None \<Rightarrow> content | Some n \<Rightarrow> take n content)),
               fs_mtime := (fs_mtime fs)(p := we_now w)\<rparr>))"

definition client_CreateDirectory :: "string \<Rightarrow> fsys \<Rightarrow> fsys" where
  "client_CreateDirectory p fs = (if client_Exists p fs then fs else create_directories p fs)"

text \<open>The entries come in the order of the iterator; folders among them are skipped. The folder is made first.\<close>

definition client_ScanDirectory :: "(string \<Rightarrow> fsys \<Rightarrow> string list) \<Rightarrow> string \<Rightarrow> string list \<times> fsys \<Rightarrow> string list \<times> fsys" where
  "client_ScanDirectory listing dir r =
     (let fs = client_CreateDirectory dir (snd r) in (fst r @ scan_entries (listing dir fs) fs, fs))"

section \<open>The same as on the server\<close>

lemma client_FileSize_server: "unat (client_FileSize p fs) = nat (FileSize p fs mod 2 ^ 64)"
proof -
  have "unat (of_nat n :: u64) = nat (int n mod 2 ^ 64)" for n
    by (simp add: unat_of_nat nat_mod_distrib)
  moreover have "unat (- 1 :: u64) = nat (- 1 mod 2 ^ 64)" by (simp add: unsigned_minus_1_eq_mask mask_eq_exp_minus_1)
  ultimately show ?thesis by (simp add: client_FileSize_def FileSize_def split: option.split)
qed

lemma client_GetPosLen_server: "client_GetPosLen pos len p fs = GetPosLen (unat pos) (unat len) p fs"
proof -
  have "pos + len > client_FileSize p fs \<longleftrightarrow> (unat pos + unat len) mod 2 ^ 64 > nat (FileSize p fs mod 2 ^ 64)"
    by (simp add: word_less_nat_alt unat_word_ariths client_FileSize_server)
  then show ?thesis by (simp add: client_GetPosLen_def GetPosLen_def)
qed

lemma client_GetContent_server: "client_GetContent p fs = GetContent p fs"
  by (simp add: client_GetContent_def GetContent_def client_GetPosLen_server client_FileSize_server)

lemma client_others_server:
  "client_Exists = Exists" "client_LastAccessTime = LastAccessTime" "client_LastModifyTime = LastModifyTime"
  "client_FileName = FileName" "client_SetContent = SetContent" "client_CreateDirectory = FileUtil_CreateDirectory"
  by (simp_all add: fun_eq_iff client_Exists_def Exists_def client_LastAccessTime_def LastAccessTime_def client_LastModifyTime_def
      LastModifyTime_def client_FileName_def FileName_def client_SetContent_def SetContent_def client_CreateDirectory_def
      FileUtil_CreateDirectory_def)

lemmas client_file [simp] = client_FileSize_server client_GetContent_server client_others_server

text \<open>Scanning a folder of the client is making it and scanning it as the server does, where it is no regular file.\<close>

lemma client_ScanDirectory_server:
  assumes "fs_file fs dir = None"
  shows "FileUtil_ScanDirectory listing dir arry (client_CreateDirectory dir fs) = Inr (fst (client_ScanDirectory listing dir (arry, fs)))"
  using CreateDirectory_there(1) [OF assms] by (simp add: FileUtil_ScanDirectory_def client_ScanDirectory_def Let_def)

end
