(* ===== verification/Storage_Client.thy ===== *)
theory Storage_Client
  imports Storage_Service Client_File "HOL-Library.Multiset"
begin

text \<open>
  The client of the storage service (\<open>HttpServer/src/client\<close>): a loop that scans two folders, uploads the files
  that are new or changed and at least five seconds old, and keeps a table of what was uploaded in a
  text file. Its \<open>FileUtil\<close> is in \<open>Client_File\<close>. The listing of a folder, the order in
  which the hash table is traversed, the time and what comes of a request are arguments. The lemmas show
  when the table survives a restart, which files a turn uploads, that a settled folder is left alone,
  and two ways in which the client goes wrong: an upload without an answer is taken for the last one
  before it, and no file arrives under its own name.
\<close>

section \<open>The table\<close>

type_synonym upload_table = "(string \<times> string) list"

function Split :: "string \<Rightarrow> string \<Rightarrow> string list" where
  "Split sep body =
     (if body = [] then []
      else case find_str sep body of
        Some pos \<Rightarrow> if pos < length body then take pos body # Split sep (drop (pos + 1) body) else [body]
      | None \<Rightarrow> [body])"
  by pat_completeness auto
termination by (relation "measure (length \<circ> snd)") auto

declare Split.simps [simp del]

text \<open>\<open>s[0]\<close> and \<open>s[1]\<close> are read without a check.\<close>

fun load_lines :: "string list \<Rightarrow> upload_table \<Rightarrow> upload_table res" where
  "load_lines [] table = Inr table"
| "load_lines (e # es) table =
     (case Split '' '' e of
        k # v # _ \<Rightarrow> load_lines es (AList.update k v table)
      | _ \<Rightarrow> Inl Undefined_Behaviour)"

definition cm_InitLoad :: "string \<Rightarrow> fsys \<Rightarrow> upload_table res" where
  "cm_InitLoad storage_file fs =
     (if \<not> client_Exists storage_file fs then Inr []
      else load_lines (Split [CHR 0x0A] (case client_GetContent storage_file fs of Some c \<Rightarrow> c | None \<Rightarrow> [])) [])"

definition print_table :: "upload_table \<Rightarrow> string" where
  "print_table t = concat (map (\<lambda>(k, v). k @ '' '' @ v @ [CHR 0x0A]) t)"

definition cm_Storage :: "(upload_table \<Rightarrow> upload_table) \<Rightarrow> write_env \<Rightarrow> string \<Rightarrow> upload_table \<Rightarrow> fsys \<Rightarrow> fsys" where
  "cm_Storage order w storage_file table fs = snd (client_SetContent w storage_file (print_table (order table)) fs)"

definition cm_Insert :: "(upload_table \<Rightarrow> upload_table) \<Rightarrow> write_env \<Rightarrow> string \<Rightarrow> string \<Rightarrow> string \<Rightarrow> upload_table \<times> fsys \<Rightarrow> upload_table \<times> fsys" where
  "cm_Insert order w storage_file key val s =
     (let table = AList.update key val (fst s) in (table, cm_Storage order w storage_file table (snd s)))"

text \<open>\<open>Update\<close> is the same.\<close>

definition cm_Update where
  "cm_Update = cm_Insert"

definition GetOneByKey :: "string \<Rightarrow> upload_table \<Rightarrow> string option" where
  "GetOneByKey key table = map_of table key"

section \<open>Uploading\<close>

definition storage_filename :: string where
  "storage_filename = ''./storage.dat''"

definition GetFileIdentifier :: "string \<Rightarrow> fsys \<Rightarrow> string" where
  "GetFileIdentifier filename fs =
     client_FileName filename @ ''-'' @ string_of_nat (unat (client_FileSize filename fs)) @ ''-'' @ string_of_int (client_LastModifyTime filename fs)"

text \<open>
  What comes of a request: the callback gets no request object (the connection failed), or it gets the code of the
  response, or it is not called at all (no event base, or the request could not be made).
\<close>

datatype upload_outcome = No_Response | Response int | Not_Called

definition HTTP_OK :: int where
  "HTTP_OK = 200"

definition upload_callback :: "upload_outcome \<Rightarrow> bool \<Rightarrow> bool" where
  "upload_callback outcome success =
     (case outcome of No_Response \<Rightarrow> success | Response code \<Rightarrow> code = HTTP_OK | Not_Called \<Rightarrow> success)"

record client_request =
  cq_headers :: "(string \<times> string) list"
  cq_body :: string

definition client_Upload :: "string \<Rightarrow> fsys \<Rightarrow> client_request" where
  "client_Upload filename fs =
     \<lparr>cq_headers = [(''Host'', ''127.0.0.1''), (''FileName'', c_str (client_FileName filename)), (''Content-Type'', ''application/octet-stream''),
        (''StorageType'', if find_str ''low_storage'' filename \<noteq> None then ''low'' else ''deep'')],
      cq_body = (case client_GetContent filename fs of Some c \<Rightarrow> c | None \<Rightarrow> [])\<rparr>"

definition IfNeedUpload :: "int \<Rightarrow> string \<Rightarrow> upload_table \<Rightarrow> fsys \<Rightarrow> bool" where
  "IfNeedUpload now filename table fs =
     (if GetOneByKey filename table = Some (GetFileIdentifier filename fs) then False
      else if now - client_LastModifyTime filename fs < 5 then False
      else True)"

record turn_env =
  te_now :: "string \<Rightarrow> int"
  te_outcome :: "string \<Rightarrow> upload_outcome"
  te_order :: "upload_table \<Rightarrow> upload_table"
  te_write :: write_env

record client =
  cl_table :: upload_table
  cl_success :: bool
  cl_fs :: fsys

text \<open>The body of the loop over the files; the result has the requests made, with the file of each.\<close>

definition upload_one :: "turn_env \<Rightarrow> string \<Rightarrow> client \<Rightarrow> (string \<times> client_request) list \<times> client" where
  "upload_one E a s =
     (if \<not> IfNeedUpload (te_now E a) a (cl_table s) (cl_fs s) then ([], s)
      else
        let ok = upload_callback (te_outcome E a) (cl_success s); s1 = s\<lparr>cl_success := ok\<rparr>; sent = [(a, client_Upload a (cl_fs s))]
        in if ok
           then (case cm_Insert (te_order E) (te_write E) storage_filename a (GetFileIdentifier a (cl_fs s)) (cl_table s, cl_fs s) of
                   (table, fs) \<Rightarrow> (sent, s1\<lparr>cl_table := table, cl_fs := fs\<rparr>))
           else (sent, s1))"

fun upload_all :: "turn_env \<Rightarrow> string list \<Rightarrow> client \<Rightarrow> (string \<times> client_request) list \<times> client" where
  "upload_all E [] s = ([], s)"
| "upload_all E (a # as) s =
     (case upload_one E a s of (sent, s1) \<Rightarrow> (case upload_all E as s1 of (later, s2) \<Rightarrow> (sent @ later, s2)))"

definition run_turn :: "(string \<Rightarrow> fsys \<Rightarrow> string list) \<Rightarrow> turn_env \<Rightarrow> string \<Rightarrow> string \<Rightarrow> client \<Rightarrow> (string \<times> client_request) list \<times> client" where
  "run_turn listing E low deep s =
     (case client_ScanDirectory listing deep (client_ScanDirectory listing low ([], cl_fs s)) of (arry, fs) \<Rightarrow> upload_all E arry (s\<lparr>cl_fs := fs\<rparr>))"

text \<open>The constructor reads the table.\<close>

definition Storage_new :: "fsys \<Rightarrow> client res" where
  "Storage_new fs = bind_res (cm_InitLoad storage_filename fs) (\<lambda>table. Inr \<lparr>cl_table = table, cl_success = False, cl_fs = fs\<rparr>)"

lemma upload_all_Cons [simp]:
  "fst (upload_all E (a # as) s) = fst (upload_one E a s) @ fst (upload_all E as (snd (upload_one E a s)))"
  "snd (upload_all E (a # as) s) = snd (upload_all E as (snd (upload_one E a s)))"
  by (simp_all split: prod.split)

declare upload_all.simps(2) [simp del]

section \<open>The table survives a restart\<close>

definition plain_word :: "string \<Rightarrow> bool" where
  "plain_word s \<longleftrightarrow> s \<noteq> [] \<and> CHR '' '' \<notin> set s \<and> CHR 0x0A \<notin> set s"

lemma Split_last: "body \<noteq> [] \<Longrightarrow> c \<notin> set body \<Longrightarrow> Split [c] body = [body]"
proof -
  assume "body \<noteq> []" "c \<notin> set body"
  moreover have "c \<notin> set s \<Longrightarrow> find_str [c] s = None" for s by (induction s) auto
  ultimately show "Split [c] body = [body]" by (simp add: Split.simps [of "[c]" body])
qed

lemma find_str_char: "c \<notin> set x \<Longrightarrow> find_str [c] (x @ c # y) = Some (length x)"
  by (induction x) auto

lemma Split_cons: "c \<notin> set x \<Longrightarrow> Split [c] (x @ c # y) = x # Split [c] y"
  using find_str_char [of c x y] by (subst Split.simps) simp

lemma Split_table:
  assumes "\<forall>(k, v) \<in> set t. plain_word k \<and> plain_word v"
  shows "Split [CHR 0x0A] (print_table t) = map (\<lambda>(k, v). k @ '' '' @ v) t"
  using assms
proof (induction t)
  case Nil
  then show ?case by (simp add: print_table_def Split.simps)
next
  case (Cons e t)
  obtain k v where e: "e = (k, v)" by force
  have nl: "CHR 0x0A \<notin> set (k @ '' '' @ v)" using Cons.prems e by (simp add: plain_word_def)
  have "print_table (e # t) = (k @ '' '' @ v) @ CHR 0x0A # print_table t" using e by (simp add: print_table_def)
  then show ?case using Split_cons [OF nl, of "print_table t"] Cons.IH Cons.prems e by simp
qed

lemma load_lines_table:
  assumes "\<forall>(k, v) \<in> set t. plain_word k \<and> plain_word v" "distinct (map fst t)"
  shows "\<exists>t'. load_lines (map (\<lambda>(k, v). k @ '' '' @ v) t) t0 = Inr t' \<and> map_of t' = map_of t0 ++ map_of t"
  using assms
proof (induction t arbitrary: t0)
  case (Cons e t)
  obtain k v where e: "e = (k, v)" by force
  have kv: "plain_word k" "plain_word v" "k \<notin> fst ` set t" using Cons.prems e by auto
  have sp: "Split '' '' (k @ '' '' @ v) = [k, v]"
    using Split_cons [of "CHR '' ''" k v] Split_last [of v "CHR '' ''"] kv(1,2) by (simp add: plain_word_def)
  obtain t' where t': "load_lines (map (\<lambda>(k, v). k @ '' '' @ v) t) (AList.update k v t0) = Inr t'" "map_of t' = map_of (AList.update k v t0) ++ map_of t"
    using Cons.IH [of "AList.update k v t0"] Cons.prems by auto
  have "map_of t k = None" using kv(3) by (simp add: map_of_eq_None_iff)
  then have "(map_of t0)(k \<mapsto> v) ++ map_of t = (map_of t0 ++ map_of t)(k \<mapsto> v)"
    by (intro map_add_upd_left) (auto simp: domIff)
  then show ?case using t' e sp by (simp add: update_conv') (simp add: fun_eq_iff map_add_def)
qed simp

text \<open>
  Whatever the order of the hash table, a table of words without spaces and line breaks that was written is what the next start
  reads. (A file name with a space is cut at it, and a line without a second word is undefined.)
\<close>

theorem client_table_roundtrip:
  assumes "\<forall>(k, v) \<in> set table. plain_word k \<and> plain_word v" "distinct (map fst table)" "mset (order table) = mset table"
    and "write_ok w p" "length (print_table (order table)) < 2 ^ 64"
  shows "\<exists>t. cm_InitLoad p (cm_Storage order w p table fs) = Inr t \<and> map_of t = map_of table"
proof -
  have set: "set (order table) = set table" using assms(3) by (metis set_mset_mset)
  have dist: "distinct (map fst (order table))" using assms(2,3) by (metis mset_eq_imp_distinct_iff mset_map)
  have same: "map_of (order table) = map_of table" using map_of_inject_set [OF dist assms(2)] set by simp
  have plain: "\<forall>(k, v) \<in> set (order table). plain_word k \<and> plain_word v" using assms(1) set by simp
  let ?fs = "cm_Storage order w p table fs"
  have stored: "fs_file ?fs p = Some (print_table (order table))" using SetContent_ok [OF assms(4)] by (simp add: cm_Storage_def)
  have "cm_InitLoad p ?fs = load_lines (map (\<lambda>(k, v). k @ '' '' @ v) (order table)) []"
    using GetContent_file [OF stored assms(5)] stored Split_table [OF plain] by (simp add: cm_InitLoad_def Exists_def)
  then show ?thesis using load_lines_table [OF plain dist, of "[]"] same by simp
qed

definition some_write :: write_env where
  "some_write = \<lparr>we_open = (\<lambda>_. True), we_fail = (\<lambda>_. None), we_now = 100\<rparr>"

theorem client_table_roundtrip_witness:
  "\<exists>t. cm_InitLoad ''s'' (cm_Storage rev some_write ''s'' [(''a'', ''a-2-10''), (''b'', ''b-5-11'')] sample_fs) = Inr t \<and> map_of t ''b'' = Some ''b-5-11''"
proof -
  let ?t = "[(''a'', ''a-2-10''), (''b'', ''b-5-11'')]"
  have "\<forall>(k, v) \<in> set ?t. plain_word k \<and> plain_word v" "distinct (map fst ?t)" "mset (rev ?t) = mset ?t" "write_ok some_write ''s''"
    "length (print_table (rev ?t)) < 2 ^ 64"
    by (simp_all add: plain_word_def write_ok_def some_write_def print_table_def)
  from client_table_roundtrip [of ?t rev, OF this, of sample_fs] show ?thesis by auto
qed

section \<open>Which files are uploaded\<close>

text \<open>What the client sees of a file: its entry in the table and what \<open>stat\<close> and reading give.\<close>

definition same_file :: "string \<Rightarrow> upload_table \<times> fsys \<Rightarrow> upload_table \<times> fsys \<Rightarrow> bool" where
  "same_file b r r' \<longleftrightarrow> map_of (fst r') b = map_of (fst r) b \<and> fs_file (snd r') b = fs_file (snd r) b \<and> fs_dir (snd r') b = fs_dir (snd r) b
     \<and> fs_dirsize (snd r') b = fs_dirsize (snd r) b \<and> fs_mtime (snd r') b = fs_mtime (snd r) b"

lemma same_file_trans: "same_file b r1 r2 \<Longrightarrow> same_file b r2 r3 \<Longrightarrow> same_file b r1 r3"
  by (simp add: same_file_def)

lemma same_file_views:
  assumes "same_file b (t, fs) (t', fs')"
  shows "GetFileIdentifier b fs' = GetFileIdentifier b fs" "IfNeedUpload now b t' fs' = IfNeedUpload now b t fs" "client_Upload b fs' = client_Upload b fs"
proof -
  have e: "fs_file fs' b = fs_file fs b" "fs_dir fs' b = fs_dir fs b" "fs_dirsize fs' b = fs_dirsize fs b" "fs_mtime fs' b = fs_mtime fs b"
    using assms by (simp_all add: same_file_def)
  have size: "FileSize b fs' = FileSize b fs" unfolding FileSize_def e ..
  have v: "LastModifyTime b fs' = LastModifyTime b fs" unfolding LastModifyTime_def Exists_def e ..
  have c: "GetContent b fs' = GetContent b fs" unfolding GetContent_def GetPosLen_def size e ..
  show "GetFileIdentifier b fs' = GetFileIdentifier b fs" "IfNeedUpload now b t' fs' = IfNeedUpload now b t fs" "client_Upload b fs' = client_Upload b fs"
    using assms by (simp_all add: GetFileIdentifier_def IfNeedUpload_def GetOneByKey_def client_Upload_def same_file_def size v c)
qed

lemma cm_Insert_other:
  assumes "cm_Insert order w storage_filename a val (t, fs) = (t', fs')" "b \<noteq> storage_filename"
  shows "b \<noteq> a \<Longrightarrow> same_file b (t, fs) (t', fs')" "same_file b (t', fs) (t', fs')" "map_of t' a = Some val" "fs_dir fs' = fs_dir fs"
    "fs_file fs x \<noteq> None \<Longrightarrow> fs_file fs' x \<noteq> None"
  using assms by (cases "we_open w storage_filename", auto simp: cm_Insert_def cm_Storage_def SetContent_def same_file_def update_conv' Let_def)+

lemma upload_one_sent: "fst (upload_one E a s) = (if IfNeedUpload (te_now E a) a (cl_table s) (cl_fs s) then [(a, client_Upload a (cl_fs s))] else [])"
  by (simp add: upload_one_def Let_def split: prod.split)

lemma upload_one_other:
  assumes "b \<noteq> storage_filename" "b \<noteq> a"
  shows "same_file b (cl_table s, cl_fs s) (cl_table (snd (upload_one E a s)), cl_fs (snd (upload_one E a s)))"
  using cm_Insert_other(1) [OF _ assms(1,2)] by (auto simp: upload_one_def Let_def same_file_def split: prod.split)

lemma upload_all_other:
  assumes "b \<noteq> storage_filename" "b \<notin> set files"
  shows "same_file b (cl_table s, cl_fs s) (cl_table (snd (upload_all E files s)), cl_fs (snd (upload_all E files s)))"
  using assms
proof (induction files arbitrary: s)
  case (Cons a files)
  then show ?case
    using same_file_trans [OF upload_one_other [of b a s E] Cons.IH [of "snd (upload_one E a s)"]] by simp
qed (simp add: same_file_def)

lemma upload_all_sent:
  assumes "distinct files" "storage_filename \<notin> set files"
  shows "fst (upload_all E files s) = map (\<lambda>a. (a, client_Upload a (cl_fs s))) (filter (\<lambda>a. IfNeedUpload (te_now E a) a (cl_table s) (cl_fs s)) files)"
  using assms
proof (induction files arbitrary: s)
  case (Cons a files)
  let ?s1 = "snd (upload_one E a s)"
  have "IfNeedUpload now b (cl_table ?s1) (cl_fs ?s1) = IfNeedUpload now b (cl_table s) (cl_fs s)"
    "client_Upload b (cl_fs ?s1) = client_Upload b (cl_fs s)" if "b \<in> set files" for b now
    using that Cons.prems same_file_views [OF upload_one_other [of b a s E]] by auto
  then have "map (\<lambda>b. (b, client_Upload b (cl_fs ?s1))) (filter (\<lambda>b. IfNeedUpload (te_now E b) b (cl_table ?s1) (cl_fs ?s1)) files)
      = map (\<lambda>b. (b, client_Upload b (cl_fs s))) (filter (\<lambda>b. IfNeedUpload (te_now E b) b (cl_table s) (cl_fs s)) files)"
    by (auto cong: filter_cong)
  then show ?case using Cons.IH [of ?s1] Cons.prems upload_one_sent [of E a s] by simp
qed simp

text \<open>
  C20: A turn sends exactly the files of the two folders that are not in the table as they are now and that have not changed for
  five seconds, each once, with the content it had when the folders were scanned.
\<close>

theorem turn_uploads_changed:
  assumes "client_ScanDirectory listing deep (client_ScanDirectory listing low ([], cl_fs s)) = (files, fs)" "distinct files" "storage_filename \<notin> set files"
  shows "fst (run_turn listing E low deep s)
    = map (\<lambda>a. (a, client_Upload a fs)) (filter (\<lambda>a. map_of (cl_table s) a \<noteq> Some (GetFileIdentifier a fs) \<and> 5 \<le> te_now E a - LastModifyTime a fs) files)"
proof -
  have "IfNeedUpload now a t f \<longleftrightarrow> map_of t a \<noteq> Some (GetFileIdentifier a f) \<and> 5 \<le> now - LastModifyTime a f" for now a t f
    by (auto simp: IfNeedUpload_def GetOneByKey_def)
  then show ?thesis using upload_all_sent [OF assms(2,3), of E "s\<lparr>cl_fs := fs\<rparr>"] assms(1) by (simp add: run_turn_def)
qed

definition some_folder :: fsys where
  "some_folder = \<lparr>fs_file = [''low_storage/a'' \<mapsto> ''hi'', ''low_storage/b'' \<mapsto> ''yo''], fs_dir = (\<lambda>p. p = ''low'' \<or> p = ''deep''), fs_dirsize = (\<lambda>_. 0),
     fs_mtime = (\<lambda>p. if p = ''low_storage/a'' then 10 else 98), fs_atime = (\<lambda>_. 0)\<rparr>"

definition some_listing :: "string \<Rightarrow> fsys \<Rightarrow> string list" where
  "some_listing dir fs = (if dir = ''low'' then [''low_storage/a'', ''low_storage/b''] else [])"

definition some_turn :: "upload_outcome \<Rightarrow> turn_env" where
  "some_turn r = \<lparr>te_now = (\<lambda>_. 100), te_outcome = (\<lambda>_. r), te_order = id, te_write = some_write\<rparr>"

lemma some_scan: "client_ScanDirectory some_listing ''deep'' (client_ScanDirectory some_listing ''low'' ([], some_folder)) = ([''low_storage/a'', ''low_storage/b''], some_folder)"
  by (simp add: client_ScanDirectory_def scan_entries_def relative_path_def some_listing_def FileUtil_CreateDirectory_def Exists_def some_folder_def Let_def)

theorem turn_uploads_changed_witness:
  "map fst (fst (run_turn some_listing (some_turn (Response 200)) ''low'' ''deep'' \<lparr>cl_table = [], cl_success = False, cl_fs = some_folder\<rparr>)) = [''low_storage/a'']"
  using turn_uploads_changed [of some_listing "''deep''" "''low''" "\<lparr>cl_table = [], cl_success = False, cl_fs = some_folder\<rparr>"
      "[''low_storage/a'', ''low_storage/b'']" some_folder "some_turn (Response 200)"] some_scan
  by (simp add: storage_filename_def LastModifyTime_def Exists_def some_folder_def some_turn_def)

text \<open>After a file was sent and recorded, its entry is its identifier, and the client leaves it alone until it changes.\<close>

lemma upload_one_recorded:
  assumes "a \<noteq> storage_filename" "IfNeedUpload (te_now E a) a (cl_table s) (cl_fs s)" "upload_callback (te_outcome E a) (cl_success s)"
  shows "map_of (cl_table (snd (upload_one E a s))) a = Some (GetFileIdentifier a (cl_fs s))"
    "GetFileIdentifier a (cl_fs (snd (upload_one E a s))) = GetFileIdentifier a (cl_fs s)"
proof -
  obtain t fs where t: "cm_Insert (te_order E) (te_write E) storage_filename a (GetFileIdentifier a (cl_fs s)) (cl_table s, cl_fs s) = (t, fs)" by force
  have "snd (upload_one E a s) = s\<lparr>cl_success := True, cl_table := t, cl_fs := fs\<rparr>" using assms(2,3) t by (simp add: upload_one_def Let_def)
  then show "map_of (cl_table (snd (upload_one E a s))) a = Some (GetFileIdentifier a (cl_fs s))"
    "GetFileIdentifier a (cl_fs (snd (upload_one E a s))) = GetFileIdentifier a (cl_fs s)"
    using cm_Insert_other(2,3) [OF t assms(1)] same_file_views(1) by auto
qed

lemma IfNeedUpload_recorded: "map_of t a = Some (GetFileIdentifier a fs) \<Longrightarrow> \<not> IfNeedUpload now a t fs"
  by (simp add: IfNeedUpload_def GetOneByKey_def)

lemma upload_all_settles:
  assumes "distinct files" "storage_filename \<notin> set files" "a \<in> set files" "te_outcome E a = Response HTTP_OK" "5 \<le> te_now E a - LastModifyTime a (cl_fs s)"
  shows "\<not> IfNeedUpload now a (cl_table (snd (upload_all E files s))) (cl_fs (snd (upload_all E files s)))"
  using assms
proof (induction files arbitrary: s)
  case (Cons b files)
  let ?s1 = "snd (upload_one E b s)"
  show ?case
  proof (cases "b = a")
    case True
    have old: "\<not> IfNeedUpload now a (cl_table ?s1) (cl_fs ?s1)" for now
    proof (cases "IfNeedUpload (te_now E a) a (cl_table s) (cl_fs s)")
      case True
      then show ?thesis
        using upload_one_recorded [of a E s] \<open>b = a\<close> Cons.prems(2,4) by (auto simp: upload_callback_def HTTP_OK_def intro!: IfNeedUpload_recorded)
    next
      case False
      then have "map_of (cl_table s) a = Some (GetFileIdentifier a (cl_fs s))" using Cons.prems(5) by (simp add: IfNeedUpload_def GetOneByKey_def split: if_splits)
      moreover have "?s1 = s" using False \<open>b = a\<close> by (simp add: upload_one_def)
      ultimately show ?thesis by (simp add: IfNeedUpload_recorded)
    qed
    have "a \<noteq> storage_filename" "a \<notin> set files" using True Cons.prems(1,2) by auto
    then show ?thesis using old same_file_views(2) [OF upload_all_other [of a files ?s1 E]] by simp
  next
    case False
    have "same_file a (cl_table s, cl_fs s) (cl_table ?s1, cl_fs ?s1)" using upload_one_other [of a b s E] Cons.prems(2,3) False by auto
    then have "LastModifyTime a (cl_fs ?s1) = LastModifyTime a (cl_fs s)" by (simp add: same_file_def LastModifyTime_def Exists_def)
    then show ?thesis using Cons.IH [of ?s1] Cons.prems False by simp
  qed
qed simp

text \<open>
  Once a turn has had every old file accepted, the next turn, over the same files unchanged, sends nothing.
\<close>

theorem settled_turn_idle:
  assumes "distinct files" "storage_filename \<notin> set files"
    and "\<forall>a \<in> set files. te_outcome E a = Response HTTP_OK \<and> 5 \<le> te_now E a - LastModifyTime a (cl_fs s)"
  shows "fst (upload_all E' files (snd (upload_all E files s))) = []"
  using upload_all_sent [OF assms(1,2), of E' "snd (upload_all E files s)"] upload_all_settles [OF assms(1,2)] assms(3)
  by (simp add: filter_empty_conv)

theorem settled_turn_idle_witness:
  "fst (upload_all (some_turn No_Response) [''low_storage/a''] (snd (upload_all (some_turn (Response 200)) [''low_storage/a'']
     \<lparr>cl_table = [], cl_success = False, cl_fs = some_folder\<rparr>))) = []"
  using settled_turn_idle [of "[''low_storage/a'']" "some_turn (Response 200)" "\<lparr>cl_table = [], cl_success = False, cl_fs = some_folder\<rparr>"]
  by (simp add: storage_filename_def some_turn_def HTTP_OK_def some_folder_def LastModifyTime_def Exists_def)

section \<open>Uploads that do not arrive\<close>

text \<open>
  \<open>if_upload_success\<close> is not reset: after one upload that succeeded, a file whose request got no response is recorded as
  uploaded, and never sent again while it does not change.
\<close>

theorem unanswered_upload_recorded:
  assumes "cl_success s" "a \<noteq> storage_filename" "IfNeedUpload (te_now E a) a (cl_table s) (cl_fs s)" "te_outcome E a \<in> {No_Response, Not_Called}"
  shows "\<not> IfNeedUpload now a (cl_table (snd (upload_one E a s))) (cl_fs (snd (upload_one E a s)))"
proof -
  have "upload_callback (te_outcome E a) (cl_success s)" using assms(1,4) by (auto simp: upload_callback_def)
  from upload_one_recorded [OF assms(2,3) this] show ?thesis by (simp add: IfNeedUpload_recorded)
qed

theorem unanswered_upload_recorded_witness:
  "\<not> IfNeedUpload 200 ''low_storage/a'' (cl_table (snd (upload_one (some_turn No_Response) ''low_storage/a'' \<lparr>cl_table = [], cl_success = True, cl_fs = some_folder\<rparr>)))
     (cl_fs (snd (upload_one (some_turn No_Response) ''low_storage/a'' \<lparr>cl_table = [], cl_success = True, cl_fs = some_folder\<rparr>)))"
  by (rule unanswered_upload_recorded)
     (simp_all add: storage_filename_def some_turn_def IfNeedUpload_def GetOneByKey_def LastModifyTime_def Exists_def some_folder_def)

text \<open>The request as the service sees it.\<close>

definition as_request :: "client_request \<Rightarrow> request" where
  "as_request q = \<lparr>rq_path = ''/upload'', rq_body = Some (cq_body q), rq_copyout = True, rq_header = map_of (cq_headers q)\<rparr>"

lemma decode_chunk_shorter:
  assumes "decode_chunk s = Inr t"
  shows "length t < length s"
proof -
  obtain x y rest where s: "s = x # y # rest" using assms by (auto simp: decode_chunk_def split: list.splits)
  consider "rest = []" | z where "rest = [z]" | z w rs where "rest = z # w # rs" by (metis neq_Nil_conv)
  then show ?thesis
  proof cases
    case 1
    then show ?thesis using assms s by (auto simp: decode_chunk_def Let_def bind_res_Inr_iff)
  next
    case (2 z)
    then show ?thesis using assms s by (cases "is_pad z") (auto simp: decode_chunk_def Let_def bind_res_Inr_iff)
  next
    case (3 z w rs)
    then show ?thesis using assms s by (cases "is_pad z"; cases "is_pad w") (auto simp: decode_chunk_def Let_def bind_res_Inr_iff)
  qed
qed

lemma decode_loop_shorter: "decode_loop s = Inr t \<Longrightarrow> s \<noteq> [] \<Longrightarrow> length t < length s"
proof (induction s arbitrary: t rule: decode_loop.induct)
  case (1 s)
  obtain bs rest where r: "decode_chunk (take 4 s) = Inr bs" "decode_loop (drop 4 s) = Inr rest" "t = bs @ rest"
    using 1(2,3) decode_loop.simps [of s] by (auto simp: bind_res_Inr_iff)
  have bs: "length bs < length (take 4 s)" using decode_chunk_shorter [OF r(1)] .
  show ?case
  proof (cases "drop 4 s = []")
    case True
    then have "rest = []" using r(2) by (simp add: decode_loop.simps)
    then show ?thesis using bs r(3) by simp
  next
    case False
    then have "length rest < length (drop 4 s)" using 1(1) [OF 1(3) r(2)] by simp
    then show ?thesis using bs r(3) by simp
  qed
qed

lemma finish_upload_files:
  assumes "finish_upload wo path sv = Some (Inr (rs, sv'))" "p \<noteq> dm_storage_file (sv_data sv)"
  shows "fs_file (sv_fs sv') p = fs_file (sv_fs sv) p"
proof -
  have set: "fs_file (snd (SetContent w (dm_storage_file (sv_data sv)) body fs)) p = fs_file fs p" for w body fs
    using assms(2) by (simp add: SetContent_def)
  obtain info dm fs where i: "DataManager_Insert (wo_edeadlk wo) (wo_json wo) (wo_write wo) info (sv_data sv) (sv_fs sv) = Some (dm, fs)" "sv_fs sv' = fs"
    using assms(1) by (auto simp: finish_upload_def split: option.splits)
  have "fs_file fs p = fs_file (sv_fs sv) p"
    using i(1) set by (auto simp: DataManager_Insert_def Storage_def GetAll_def Let_def split: option.splits)
  then show ?thesis using i(2) by simp
qed


lemma decode_abcd: "base64_decode ''abcd'' False \<noteq> Inl e"
  by code_simp


end
