(* ===== verification/Spec2Isabelle.thy ===== *)
theory Spec2Isabelle
  imports Gomoku_Server Http_Serving Logger Timer Storage_Map Log_Config Backup_Server Server_Log Web_Server Event_Loop Storage_Client
begin

text \<open>
  A model of the HTTP framework, its asynchronous logging system, the cloud storage service and the
  Gomoku server of this repository, and the theorems that show what the code does.

  \<^bold>\<open>The program.\<close> A \<open>muduo\<close> connection hands the bytes it receives to \<open>HttpServer::onMessage\<close>. Without
  TLS they go to the connection's \<open>HttpContext\<close>, which parses them into an \<open>HttpRequest\<close>; a complete
  request goes through the \<open>MiddlewareChain\<close> and the \<open>Router\<close> to a handler, which may use the
  \<open>SessionManager\<close>, and the \<open>HttpResponse\<close> goes back through the chain and is printed into the bytes
  sent. With TLS the bytes go through \<open>SslConnection\<close>. Beside this, \<open>logs_code\<close> is a logging system
  in which callers push formatted messages into a double buffer that a worker thread empties into
  sinks, and send errors to a backup server through a thread pool; \<open>HttpServer/src/server\<close> is a
  storage service on \<open>libevent\<close> with a table of stored files kept in a JSON file; \<open>GomokuServer\<close> is
  an application of the framework; \<open>code\<close> is an older server of its own: a main thread hands ready connections to a thread
  pool, whose workers read, parse, answer and write; it has its own buffer, timer heap, connection pool and log,
  and a second event loop of channels that nothing uses yet. \<open>HttpServer/src/client\<close> uploads changed files to the storage service.

  \<^bold>\<open>The theories.\<close>
  \<^item> \<open>Prelude\<close>: faults and exceptions as values, \<open>'a res\<close>, C string and number conversions, searching.
  \<^item> \<open>Byte_Buffer\<close>: \<open>code/buffer\<close>. The record \<open>Buffer\<close> has the vector and the two positions; \<open>readv\<close>
    and \<open>write\<close> outcomes are arguments. The locale \<open>net_buffer\<close> is what a client of a network buffer
    relies on, interpreted on \<open>Buffer\<close> and on plain byte strings; all HTTP theories are proved for any
    such buffer (the framework's own buffer, \<open>muduo::net::Buffer\<close>, is not in the repository).
  \<^item> \<open>Http_Request\<close>, \<open>Http_Response\<close>, \<open>Http_Context\<close>: the classes of \<open>HttpServer/src/http\<close>. The parse
    loop is a \<open>partial_function (option)\<close>, since it does not end in state \<open>kGotAll\<close>; where it returns
    is a theorem.
  \<^item> \<open>Router\<close>, \<open>Middleware\<close>, \<open>Session\<close>, \<open>Ssl\<close>: the classes of the same names. A handler is a function of
    request, response and application state to an optional exception, response and state. The part
    of \<open>std::regex\<close> the route patterns use is modelled in \<open>Router\<close>. OpenSSL is a record of
    operations, with its documented behaviour as hypotheses where a theorem needs them.
  \<^item> \<open>Http_Server\<close>: \<open>HttpServer\<close>, from the callbacks of \<open>muduo\<close> to the bytes sent. \<open>Http_Serving\<close>: a started server with
    all its connections, under any sequence of the events that \<open>muduo\<close> reports.
  \<^item> \<open>Ai_Game\<close>: \<open>GomokuServer/src/AiGame.cpp\<close>; the random numbers are an argument.
  \<^item> \<open>Async_Log\<close>: \<open>AsyncBuffer.hpp\<close> and \<open>AsyncWorker.hpp\<close>; the thread is a step function on a program
    counter, and the producers and the thread interleave in an inductive relation.
  \<^item> \<open>Log_Sinks\<close>: \<open>LogFlush.hpp\<close> and the file utilities. The locale \<open>log_sink\<close> is the contract of a sink,
    interpreted on all three of them. \<open>Thread_Pool\<close>: \<open>ThreadPoll.hpp\<close> and \<open>code/pool/threadpool.h\<close>,
    both instances of the locale \<open>task_pool\<close>. \<open>Logger\<close>: \<open>AsyncLogger.hpp\<close>, \<open>Manager.hpp\<close>,
    \<open>Message.hpp\<close>, \<open>Level.hpp\<close> and the two sides of the backup log. \<open>Backup_Server\<close>: its receiving side as a server with
    threads. \<open>Log_Config\<close>: the configuration in \<open>Util.hpp\<close> and the start of the system in \<open>Test.cpp\<close>.
  \<^item> \<open>Timer\<close>: \<open>code/timer\<close>, the heap with its index.
  \<^item> \<open>Base64\<close>, \<open>Storage_Util\<close>, \<open>Storage_Data\<close>, \<open>Storage_Service\<close>: \<open>HttpServer/src/server\<close>. The file
    system is a map; JSON, compression and \<open>libevent\<close> are parameters. \<open>Storage_Map\<close>: the service from its start under any sequence of
    requests, and its contract, a map from names to contents.
  \<^item> \<open>Gomoku_Server\<close>: \<open>GomokuServer.cpp\<close>, its routes and all its handlers, as computations on the response
    and the state of the application, run by the \<open>handleRequest\<close> of \<open>Http_Server\<close>.
  \<^item> \<open>Block_Queue\<close>, \<open>Server_Log\<close>: \<open>code/log\<close>, the bounded queue (an interpretation of the locale
    \<open>bounded_fifo\<close>) and the log with its writer thread, on the \<open>Buffer\<close> of \<open>Byte_Buffer\<close> and the files
    of \<open>Log_Sinks\<close>.
  \<^item> \<open>Db_Pool\<close>: \<open>code/pool/sqlconnpool.cpp\<close>, with its semaphore and its threads, and
    \<open>HttpServer/src/utils/db\<close>; the driver is a record of calls. The locale \<open>resource_pool\<close> is what the
    clients of a pool rely on.
  \<^item> \<open>Web_Request\<close>, \<open>Web_Response\<close>, \<open>Web_Conn\<close>: \<open>code/http\<close>, the parser with its form data and user
    verification, the response with the mapped file, and the connection with its two areas for \<open>writev\<close>.
  \<^item> \<open>Epoll\<close>: the event bits and the interest list. \<open>Web_Server\<close>: \<open>code/server\<close> over it; the main thread and the workers of
    \<open>Thread_Pool\<close> interleave in an inductive relation.
  \<^item> \<open>Event_Loop\<close>: \<open>code/channel\<close>, \<open>code/epoller\<close>, \<open>code/eventLoop\<close> and \<open>code/acceptor\<close>, with channels as objects on a
    heap; the loop and the threads that queue functions interleave in an inductive relation.
  \<^item> \<open>Client_File\<close>, \<open>Storage_Client\<close>: \<open>HttpServer/src/client\<close>, on the file system of \<open>Storage_Util\<close> and against \<open>Storage_Service\<close>.

  \<^bold>\<open>What is shown.\<close> The parser is independent of how the bytes are cut into segments and reads back
  what a client prints; the server answers each complete request once, with the response of the
  handler; the theorem below follows a request through all of it. The log hands every accepted
  message to every sink, whole, once and in order, under every interleaving, and stopping it drains
  it. The pools run every task once, in order. A session comes back with its cookie. The Gomoku server
  never breaks its board and recognises five in a row. The storage service refines a map from names
  to contents. Connections of a server do not disturb each other. Several
  theorems state behaviour of the code that its comments or callers do not expect: the body kept
  across requests, the abort after a malformed line, the endless loop after a throwing callback, the
  TLS server that never answers, the timer heap that is upside down, the lock that is not released.
  The Gomoku server handles any traffic on any number of connections and never stores a finished or broken game; the connection
  pools never hand a connection out twice; the older log loses no line, though its destructor may hang.
  The older server answers a request with exactly the bytes of the file, no two of its threads ever work on
  one connection and none is forgotten, but level-triggered writing cuts answers off.
  The event loop loses no queued function and no wake-up as long as no callback throws; the storage client
  sends exactly the changed files, but the service stores them under other names.

  \<^bold>\<open>Bounds and fuel.\<close> \<open>onMessage\<close> takes the depth of mutual calls with \<open>SslConnection::onRead\<close>; without
  TLS one is enough, and with TLS the statement holds for every depth. \<open>run_thread 5\<close> is enough for
  the log's thread to stop: it passes at most five program points. \<open>tick_loop\<close> takes as many turns as
  there are nodes in the heap, each of which removes one. A loop around a system call (\<open>hc_read\<close>, \<open>hc_write\<close>, \<open>DealListen\<close>,
  \<open>loop\<close>) takes the list of the answers it gets and is \<open>None\<close> when the list is too short. The theorem on the
  threads of the older server is for a server without a timeout: with one its first wait is undefined. Widths are kept where the code depends on
  them: \<open>uint64_t\<close> content lengths, \<open>int\<close> growth of the log buffer, 32-bit JSON integers.

  \<^bold>\<open>Not modelled.\<close> \<open>webbench-1.5\<close> (a third-party benchmark), \<open>bundle.h\<close> (vendored compression),
  \<open>muduo\<close>, OpenSSL, JsonCpp, \<open>libevent\<close> and MySQL (libraries, parameters of the model where the code calls them), HTML and
  front-end resources, the test programs, and the \<open>main\<close> functions that only read an argument, construct an object and run it. Callbacks and
  handlers run as one step each: what two I/O threads of \<open>muduo\<close> do inside two handlers at the same time is not modelled.
\<close>

section \<open>A connection from its first byte to the answer\<close>

text \<open>
  What \<open>muduo\<close> does for a connection without TLS: it appends every segment that arrives to the
  input buffer and calls the message callback, which is \<open>HttpServer::onMessage\<close>.
\<close>

fun deliver :: "'o ssl_api \<Rightarrow> 'b buffer_ops \<Rightarrow> 's HttpServer \<Rightarrow> Timestamp \<Rightarrow> string list \<Rightarrow> 'b \<Rightarrow> 'o Connection \<Rightarrow> 's
    \<Rightarrow> (thrown option \<times> 'b \<times> 'o Connection \<times> 's) option" where
  "deliver A B srv t [] buf conn s = Some (None, buf, conn, s)"
| "deliver A B srv t (seg # segs) buf conn s =
     (case onMessage 1 A B srv t (op_append B seg buf) conn s of
        Some (None, buf', conn', s') \<Rightarrow> deliver A B srv t segs buf' conn' s'
      | r \<Rightarrow> r)"

lemma deliver_request:
  assumes "net_buffer B ok" "ok buf" "\<not> srv_useSSL srv" "\<not> gotAll (cn_context conn)"
    and "parseRequest string_ops t (cn_context conn) (op_peek B buf @ concat segs) = Some (Inr True, c, [])" "gotAll c"
    and "segs \<noteq> []" "\<forall>seg \<in> set segs. seg \<noteq> []"
    and "httpCallback srv (ctx_request c) (HttpResponse_new (wants_close (ctx_request c))) s = (None, resp, s')"
  shows "\<exists>buf'. deliver A B srv t segs buf conn s
           = Some (None, buf', conn\<lparr>cn_context := reset c, cn_acts := cn_acts conn @ answer resp\<rparr>, s')
         \<and> ok buf' \<and> op_peek B buf' = []"
  using assms(2,4-8)
proof (induction segs arbitrary: buf conn)
  case (Cons seg segs)
  let ?buf = "op_append B seg buf"
  have buf: "ok ?buf" "op_peek B ?buf = op_peek B buf @ seg"
    using net_buffer.ok_append [OF assms(1)] net_buffer.append [OF assms(1)] Cons.prems(1) by auto
  show ?case
  proof (cases "segs = []")
    case True
    have "\<exists>buf'. onMessage (Suc 0) A B srv t ?buf conn s
        = Some (None, buf', conn\<lparr>cn_context := reset c, cn_acts := cn_acts conn @ answer resp\<rparr>, s') \<and> ok buf' \<and> op_peek B buf' = []"
      by (rule net_buffer.onMessage_request [OF assms(1) buf(1) assms(3) Cons.prems(2)])
         (use Cons.prems True buf assms(9) in auto)
    then show ?thesis using True by auto
  next
    case False
    then have ne: "concat segs \<noteq> []" using Cons.prems(6) by (cases segs) auto
    have ng: "ctx_state (cn_context conn) \<noteq> kGotAll" using Cons.prems(2) by (simp add: gotAll_def)
    obtain x c1 r1 where p1: "parseRequest string_ops t (cn_context conn) (op_peek B ?buf) = Some (x, c1, r1)"
      using net_buffer.parseRequest_returns [OF assms(1) buf(1) ng, of t] by blast
    have "Some (Inr True, c, []) = (if waiting (x, c1, r1) then parseRequest string_ops t c1 (r1 @ concat segs)
        else Some (x, c1, r1 @ concat segs))"
      using parseRequest_append [OF ng, of t "op_peek B buf @ seg" "concat segs"] p1 buf(2) Cons.prems(3) by simp
    then have w: "waiting (x, c1, r1)" "parseRequest string_ops t c1 (r1 @ concat segs) = Some (Inr True, c, [])"
      using ne by (auto split: if_splits)
    then have x: "x = Inr True" "\<not> gotAll c1" by (auto simp: waiting_def)
    obtain buf1 where buf1: "parseRequest B t (cn_context conn) ?buf = Some (Inr True, c1, buf1)" "ok buf1" "op_peek B buf1 = r1"
      using net_buffer.message_http_bytes [OF assms(1) buf(1) Cons.prems(2) p1] x(1) by blast
    then have m: "onMessage 1 A B srv t ?buf conn s = Some (None, buf1, conn\<lparr>cn_context := c1\<rparr>, s)"
      using x(2) by (cases conn) (simp add: onMessage_plain [OF assms(3)] message_http_def)
    have "\<exists>buf'. deliver A B srv t segs buf1 (conn\<lparr>cn_context := c1\<rparr>) s
        = Some (None, buf', (conn\<lparr>cn_context := c1\<rparr>)\<lparr>cn_context := reset c, cn_acts := cn_acts (conn\<lparr>cn_context := c1\<rparr>) @ answer resp\<rparr>, s')
         \<and> ok buf' \<and> op_peek B buf' = []"
      by (rule Cons.IH) (use Cons.prems buf1 x w(2) False in auto)
    then show ?thesis using m by simp
  qed
qed simp

lemma httpCallback_cors_get:
  assumes "callback req resp0 s = (None, resp, s')" "req_method req = kGet" "req_path req = path"
  shows "httpCallback (srv_addMiddleware (Some (CorsMiddleware cfg)) (Get_callback path (Some callback) (HttpServer_new port name False option))) req resp0 s
    = (None, fst (snd (cors_after cfg resp s')), s')"
  using assms by (simp add: httpCallback_def srv_addMiddleware_def addMiddleware_def Get_callback_def
      handleRequest_def CorsMiddleware_def cors_before_def cors_after_def route_def Router_new_def registerCallback_def
      processAfter_def routed_def call_callback_def)

lemma reset_parsed:
  "reset \<lparr>ctx_state = kGotAll, ctx_request = parsed_request t m path query hdrs\<rparr> = HttpContext_new"
  by (simp add: reset_def HttpContext_new_def swap_def HttpRequest_new_def parsed_request_def)

lemma deliver_get:
  assumes "net_buffer B ok" "request_ok ''GET'' path query hdrs"
    and "concat segs = show_request ''GET'' path query hdrs []" "\<forall>seg \<in> set segs. seg \<noteq> []" "\<not> srv_useSSL srv"
    and "httpCallback srv (parsed_request t ''GET'' path query hdrs)
           (HttpResponse_new (wants_close (parsed_request t ''GET'' path query hdrs))) s = (None, resp, s')"
  shows "\<exists>buf. deliver A B srv t segs (op_new B) \<lparr>cn_context = HttpContext_new, cn_acts = [], cn_ssl = ssl\<rparr> s
      = Some (None, buf, \<lparr>cn_context = HttpContext_new, cn_acts = answer resp, cn_ssl = ssl\<rparr>, s') \<and> op_peek B buf = []"
proof -
  let ?conn = "\<lparr>cn_context = HttpContext_new, cn_acts = [], cn_ssl = ssl\<rparr>"
  let ?c = "\<lparr>ctx_state = kGotAll, ctx_request = parsed_request t ''GET'' path query hdrs\<rparr>"
  have p: "parseRequest string_ops t HttpContext_new (concat segs) = Some (Inr True, ?c, [])"
    using parse_no_body [OF assms(2), of t HttpContext_new "[]"] assms(3) by (simp add: reset_new with_old_body_new)
  have "segs \<noteq> []" using assms(3) by (auto simp: show_request_def)
  then have "\<exists>buf. deliver A B srv t segs (op_new B) ?conn s
      = Some (None, buf, ?conn\<lparr>cn_context := reset ?c, cn_acts := cn_acts ?conn @ answer resp\<rparr>, s') \<and> ok buf \<and> op_peek B buf = []"
    by (intro deliver_request [OF assms(1) net_buffer.new(1) [OF assms(1)] assms(5)])
      (use p assms(4,6) net_buffer.new(2) [OF assms(1)] in \<open>simp_all add: gotAll_def HttpContext_new_def\<close>)
  then show ?thesis unfolding reset_parsed by auto
qed

text \<open>
  C1: A request is answered end to end. Take a server (without TLS) with a callback registered for
  a path and the CORS middleware in its chain. The text of a well-formed GET request for that path,
  with any query and headers, arrives on a new connection cut into any non-empty segments; the
  callback is called once, on exactly that request; and when it returns, the bytes sent are those of
  its response with the CORS headers added, once, followed by a shutdown exactly when the response
  asks for it. Nothing stays in the input buffer and the connection is as new for the next request.
\<close>

theorem get_end_to_end:
  assumes "net_buffer B ok" "request_ok ''GET'' path query hdrs"
    and "concat segs = show_request ''GET'' path query hdrs []" "\<forall>seg \<in> set segs. seg \<noteq> []"
    and "callback (parsed_request t ''GET'' path query hdrs)
           (HttpResponse_new (wants_close (parsed_request t ''GET'' path query hdrs))) s = (None, resp, s')"
  shows "\<exists>buf. deliver A B (srv_addMiddleware (Some (CorsMiddleware cfg)) (Get_callback path (Some callback) (HttpServer_new port name False option)))
             t segs (op_new B) plain_conn s
           = Some (None, buf, plain_conn\<lparr>cn_acts := answer (fst (snd (cors_after cfg resp s')))\<rparr>, s')
         \<and> op_peek B buf = []"
proof -
  let ?srv = "srv_addMiddleware (Some (CorsMiddleware cfg)) (Get_callback path (Some callback) (HttpServer_new port name False option))"
  have "httpCallback ?srv (parsed_request t ''GET'' path query hdrs) (HttpResponse_new (wants_close (parsed_request t ''GET'' path query hdrs))) s
      = (None, fst (snd (cors_after cfg resp s')), s')"
    by (rule httpCallback_cors_get) (use assms(5) in \<open>simp_all add: parsed_request_def method_of_token_def\<close>)
  from deliver_get [OF assms(1-4) _ this, of A] show ?thesis
    by (simp add: plain_conn_def Get_callback_def srv_addMiddleware_def)
qed

theorem get_end_to_end_witness:
  "\<exists>buf. deliver plain_ssl Buffer_ops
        (srv_addMiddleware (Some (CorsMiddleware defaultConfig))
          (Get_callback ''/'' (Some (\<lambda>req resp n. (None, rsp_setBody ''hi'' resp, n + 1))) (HttpServer_new 80 ''s'' False kNoReusePort)))
        7 [''GET / HT'', drop 8 (show_request ''GET'' ''/'' [] [] [])] (op_new Buffer_ops) plain_conn (0 :: nat)
      = Some (None, buf, plain_conn\<lparr>cn_acts :=
          answer (fst (snd (cors_after defaultConfig (rsp_setBody ''hi'' (HttpResponse_new False)) (1 :: nat))))\<rparr>, 1)
    \<and> op_peek Buffer_ops buf = []"
proof -
  have "wants_close (parsed_request 7 ''GET'' ''/'' [] []) = False"
    by (simp add: wants_close_def parsed_request_def getHeader_def)
  then show ?thesis
    by (intro get_end_to_end [OF web_buffer.net_buffer_axioms, where query = "[]" and hdrs = "[]"])
      (simp_all add: request_ok_def method_of_token_def target_safe_def no_cr_def show_request_def show_target_def)
qed

section \<open>A server with many connections\<close>

text \<open>Segments that arrive on one connection are what \<open>deliver\<close> hands over.\<close>

lemma serve_deliver:
  assumes "plain_running srv"
  shows "deliver A B srv t segs buf conn s = Some (None, buf', conn', s') \<Longrightarrow> cn_ssl conn = None \<Longrightarrow>
    conns c = Some \<lparr>tc_input = buf, tc_conn = conn\<rparr> \<Longrightarrow>
    \<exists>conns'. serve 1 A B srv (map (Conn_Message c t) segs) conns s = Some (None, conns', s')
      \<and> conns' c = Some \<lparr>tc_input = buf', tc_conn = conn'\<rparr>"
proof (induction segs arbitrary: buf conn s conns)
  case (Cons seg segs)
  obtain buf1 conn1 s1 where m: "onMessage 1 A B srv t (op_append B seg buf) conn s = Some (None, buf1, conn1, s1)"
      "deliver A B srv t segs buf1 conn1 s1 = Some (None, buf', conn', s')"
    using Cons.prems(1) by (auto split: option.splits prod.splits)
  have "cn_ssl conn1 = None"
    using onMessage_plain_ssl [of srv 0 A B t "op_append B seg buf" conn s None buf1 conn1 s1] m(1) assms Cons.prems(2)
    by (simp add: plain_running_def)
  from Cons.IH [of buf1 conn1 s1 "conns(c \<mapsto> \<lparr>tc_input = buf1, tc_conn = conn1\<rparr>)", OF m(2) this] show ?case
    using m(1) Cons.prems(2,3) assms by (simp add: plain_running_def message_callback_def fun_upd_def)
qed simp

definition cors_server :: "CorsConfig \<Rightarrow> string \<Rightarrow> 's handler \<Rightarrow> int \<Rightarrow> string \<Rightarrow> tcp_option \<Rightarrow> 's HttpServer" where
  "cors_server cfg path callback port name option =
     HttpServer_start (srv_addMiddleware (Some (CorsMiddleware cfg)) (Get_callback path (Some callback) (HttpServer_new port name False option)))"

lemma cors_server_facts:
  "plain_running (cors_server cfg path callback port name option)"
  "\<not> srv_useSSL (cors_server cfg path callback port name option)"
  by (simp_all add: plain_running_def cors_server_def HttpServer_start_def srv_addMiddleware_def Get_callback_def HttpServer_new_def
      HttpServer_initialize_def)

lemma httpCallback_cors_server:
  assumes "callback req resp0 s = (None, resp, s')" "req_method req = kGet" "req_path req = path"
  shows "httpCallback (cors_server cfg path callback port name option) req resp0 s = (None, fst (snd (cors_after cfg resp s')), s')"
  unfolding cors_server_def httpCallback_start by (rule httpCallback_cors_get [of callback, OF assms])

lemma conn_up_plain:
  "plain_running srv \<Longrightarrow> serve n A B srv (Conn_Up c # evs) conns s
     = serve n A B srv evs (conns(c \<mapsto> \<lparr>tc_input = op_new B, tc_conn = \<lparr>cn_context = HttpContext_new, cn_acts = [], cn_ssl = None\<rparr>\<rparr>)) s"
  by (simp add: plain_running_def connection_callback_def onConnection_def TcpConnection_new_def)





end
